(* ===== verification/Prelude.thy ===== *)
theory Prelude
  imports Main "HOL-Library.Word" "HOL-Library.AList" "HOL-Library.Monad_Syntax" "HOL-Library.Sublist"
begin

text \<open>
  Shared material of the development.

  \<^item> \<open>rbind\<close>, \<open>rmap_list\<close>: a TypeScript function that may throw returns a value of a sum type,
    \<open>Inl\<close> for the thrown error; sequencing stops at the first \<open>Inl\<close>, as an exception does.
  \<^item> A JavaScript \<open>Map\<close> iterates in insertion order, a \<open>set\<close> on a present key keeps its place and
    \<open>delete\<close> removes the entry.  That is \<^const>\<open>AList.update\<close> and \<^const>\<open>AList.delete\<close> on an association
    list; \<open>jsmap\<close> is the type and \<open>jm_wf\<close> the invariant that no key occurs twice.
  \<^item> \<open>js_unique\<close> is \<open>Array.from(new Set(xs))\<close>: the first occurrence of each element, in order.
  \<^item> \<open>decimal_pattern\<close>, \<open>parse_dec\<close>, \<open>show_dec\<close>: the pattern \<open>/^\d+$/\<close>, \<open>BigInt(s)\<close> on strings of that
    pattern, and \<open>toString()\<close> of a non-negative integer.
\<close>

named_theorems writer_simps \<open>evaluation of byte writers\<close>
named_theorems decode_simps \<open>evaluation of byte readers\<close>
named_theorems inv_simps \<open>definitions of state invariants\<close>

section \<open>Computations that may throw\<close>

definition rbind :: "'e + 'a \<Rightarrow> ('a \<Rightarrow> 'e + 'b) \<Rightarrow> 'e + 'b" where
  "rbind r f = (case r of Inl e \<Rightarrow> Inl e | Inr a \<Rightarrow> f a)"

primrec rmap_list :: "('a \<Rightarrow> 'e + 'b) \<Rightarrow> 'a list \<Rightarrow> 'e + 'b list" where
  "rmap_list f [] = Inr []"
| "rmap_list f (x # xs) = rbind (f x) (\<lambda>y. rbind (rmap_list f xs) (\<lambda>ys. Inr (y # ys)))"

lemma rbind_Inl [simp]: "rbind (Inl e) f = Inl e"
  by (simp add: rbind_def)

lemma rbind_Inr [simp]: "rbind (Inr a) f = f a"
  by (simp add: rbind_def)

lemma rbind_eq_Inr: "rbind r f = Inr b \<longleftrightarrow> (\<exists>a. r = Inr a \<and> f a = Inr b)"
  by (cases r) auto

lemma rbind_eq_Inl: "rbind r f = Inl e \<longleftrightarrow> r = Inl e \<or> (\<exists>a. r = Inr a \<and> f a = Inl e)"
  by (cases r) auto

lemma rbind_assoc: "rbind (rbind r f) g = rbind r (\<lambda>x. rbind (f x) g)"
  by (cases r) auto

lemma rmap_list_Inr:
  "rmap_list f xs = Inr ys \<longleftrightarrow> list_all2 (\<lambda>x y. f x = Inr y) xs ys"
proof (induction xs arbitrary: ys)
  case Nil
  then show ?case by auto
next
  case (Cons x xs)
  then show ?case by (cases ys) (auto simp: rbind_eq_Inr)
qed

lemma rmap_list_length: "rmap_list f xs = Inr ys \<Longrightarrow> length ys = length xs"
  by (auto simp: rmap_list_Inr dest: list_all2_lengthD)

text \<open>
  \<open>tmap\<close> is \<open>xs.map(f)\<close> for an \<open>f\<close> that updates a shared table and may throw: the elements are visited
  in order and each call sees the table its predecessors left.
\<close>

primrec tmap :: "('a \<Rightarrow> 's \<Rightarrow> 'e + ('b \<times> 's)) \<Rightarrow> 'a list \<Rightarrow> 's \<Rightarrow> 'e + ('b list \<times> 's)" where
  "tmap f [] s = Inr ([], s)"
| "tmap f (x # xs) s =
     rbind (f x s) (\<lambda>(y, s1). rbind (tmap f xs s1) (\<lambda>(ys, s2). Inr (y # ys, s2)))"

text \<open>
  The shape of every proof about \<open>tmap\<close>: each call extends the table in a preorder \<open>le\<close>, keeps an
  invariant \<open>I\<close>, and relates its argument to its result by a \<open>P\<close> that later extensions preserve.
\<close>

lemma tmap_invariant:
  assumes step: "\<And>x y s s'. x \<in> set xs \<Longrightarrow> I s \<Longrightarrow> f x s = Inr (y, s') \<Longrightarrow> I s' \<and> le s s' \<and> P s' x y"
    and mono: "\<And>x y s s'. le s s' \<Longrightarrow> P s x y \<Longrightarrow> P s' x y"
    and refl: "\<And>s. le s s" and trans: "\<And>s t u. le s t \<Longrightarrow> le t u \<Longrightarrow> le s u"
    and start: "I s" and run: "tmap f xs s = Inr (ys, s')"
  shows "I s' \<and> le s s' \<and> list_all2 (P s') xs ys"
  using step start run
proof (induction xs arbitrary: s ys)
  case Nil
  then show ?case by (simp add: refl)
next
  case (Cons x xs)
  from Cons.prems(3) obtain y s1 zs where f: "f x s = Inr (y, s1)"
    and rest: "tmap f xs s1 = Inr (zs, s')" and ys: "ys = y # zs"
    by (auto simp: rbind_eq_Inr split: prod.splits)
  from Cons.prems(1) [OF _ Cons.prems(2) f] have s1: "I s1" "le s s1" "P s1 x y" by simp_all
  have "I s' \<and> le s1 s' \<and> list_all2 (P s') xs zs"
    by (rule Cons.IH [OF _ s1(1) rest]) (rule Cons.prems(1), simp_all)
  with s1 ys show ?case by (auto intro: mono trans)
qed

section \<open>Insertion-ordered maps and sets\<close>

type_synonym ('k, 'v) jsmap = "('k \<times> 'v) list"

abbreviation jm_get :: "('k, 'v) jsmap \<Rightarrow> 'k \<Rightarrow> 'v option" where
  "jm_get m k \<equiv> map_of m k"

abbreviation jm_set :: "'k \<Rightarrow> 'v \<Rightarrow> ('k, 'v) jsmap \<Rightarrow> ('k, 'v) jsmap" where
  "jm_set \<equiv> AList.update"

abbreviation jm_delete :: "'k \<Rightarrow> ('k, 'v) jsmap \<Rightarrow> ('k, 'v) jsmap" where
  "jm_delete \<equiv> AList.delete"

abbreviation jm_keys :: "('k, 'v) jsmap \<Rightarrow> 'k list" where
  "jm_keys m \<equiv> map fst m"

abbreviation jm_values :: "('k, 'v) jsmap \<Rightarrow> 'v list" where
  "jm_values m \<equiv> map snd m"

abbreviation jm_has :: "('k, 'v) jsmap \<Rightarrow> 'k \<Rightarrow> bool" where
  "jm_has m k \<equiv> map_of m k \<noteq> None"

definition jm_wf :: "('k, 'v) jsmap \<Rightarrow> bool" where
  "jm_wf m \<longleftrightarrow> distinct (jm_keys m)"

lemma jm_wf_Nil [simp]: "jm_wf []"
  by (simp add: jm_wf_def)

lemma jm_wf_set [simp]: "jm_wf m \<Longrightarrow> jm_wf (jm_set k v m)"
  unfolding jm_wf_def by (rule distinct_update)

lemma jm_wf_delete [simp]: "jm_wf m \<Longrightarrow> jm_wf (jm_delete k m)"
  unfolding jm_wf_def by (rule distinct_delete)

lemma jm_get_set: "jm_get (jm_set k v m) k' = (if k' = k then Some v else jm_get m k')"
  by (simp add: update_conv')

lemma jm_get_delete: "jm_get (jm_delete k m) k' = (if k' = k then None else jm_get m k')"
  by (simp add: delete_conv')

lemma jm_set_fresh: "\<not> jm_has m k \<Longrightarrow> jm_set k v m = m @ [(k, v)]"
  by (induction m) (auto split: if_splits)

lemma jm_keys_set: "set (jm_keys (jm_set k v m)) = insert k (set (jm_keys m))"
  by (induction m) auto

lemma jm_values_set: "set (jm_values (jm_set k v m)) \<subseteq> insert v (set (jm_values m))"
  by (induction m) auto

lemma jm_set_cases: "x \<in> set (jm_set k v m) \<Longrightarrow> x = (k, v) \<or> x \<in> set m"
  by (induction m) (auto split: if_splits)

lemma jm_delete_subset: "set (jm_delete k m) \<subseteq> set m"
  by (auto simp: AList.delete_eq)

lemma jm_has_iff: "jm_has m k \<longleftrightarrow> k \<in> set (jm_keys m)"
  by (induction m) auto

lemma jm_get_in: "jm_wf m \<Longrightarrow> jm_get m k = Some v \<longleftrightarrow> (k, v) \<in> set m"
  by (simp add: jm_wf_def)

primrec js_unique :: "'a list \<Rightarrow> 'a list" where
  "js_unique [] = []"
| "js_unique (x # xs) = x # filter (\<lambda>y. y \<noteq> x) (js_unique xs)"

lemma set_js_unique [simp]: "set (js_unique xs) = set xs"
  by (induction xs) auto

lemma distinct_js_unique [simp]: "distinct (js_unique xs)"
  by (induction xs) auto

lemma js_unique_distinct: "distinct xs \<Longrightarrow> js_unique xs = xs"
proof (induction xs)
  case (Cons x xs)
  then have "filter (\<lambda>y. y \<noteq> x) xs = xs" by (auto intro!: filter_True)
  with Cons show ?case by simp
qed simp

lemma js_unique_idem [simp]: "js_unique (js_unique xs) = js_unique xs"
  by (simp add: js_unique_distinct)

lemma js_unique_snoc: "js_unique (xs @ [x]) = (if x \<in> set xs then js_unique xs else js_unique xs @ [x])"
  by (induction xs) auto

lemma find_SomeD: "find P xs = Some x \<Longrightarrow> x \<in> set xs \<and> P x"
  by (auto simp: find_Some_iff)

text \<open>\<open>findIndex\<close>, with \<open>None\<close> for JavaScript's \<open>-1\<close>.\<close>

primrec findIndex :: "('a \<Rightarrow> bool) \<Rightarrow> 'a list \<Rightarrow> nat option" where
  "findIndex p [] = None"
| "findIndex p (x # xs) = (if p x then Some 0 else map_option Suc (findIndex p xs))"

lemma findIndex_Some: "findIndex p xs = Some i \<Longrightarrow> i < length xs \<and> p (xs ! i)"
  by (induction xs arbitrary: i) (auto split: if_splits)

lemma findIndex_None: "findIndex p xs = None \<longleftrightarrow> (\<forall>x \<in> set xs. \<not> p x)"
  by (induction xs) auto

section \<open>Decimal strings\<close>

definition digit_char :: "char \<Rightarrow> bool" where
  "digit_char c \<longleftrightarrow> 48 \<le> (of_char c :: nat) \<and> (of_char c :: nat) \<le> 57"

definition digit_value :: "char \<Rightarrow> nat" where
  "digit_value c = of_char c - 48"

definition decimal_pattern :: "string \<Rightarrow> bool" where
  "decimal_pattern s \<longleftrightarrow> s \<noteq> [] \<and> list_all digit_char s"

definition parse_dec :: "string \<Rightarrow> nat" where
  "parse_dec s = foldl (\<lambda>acc c. acc * 10 + digit_value c) 0 s"

fun show_dec :: "nat \<Rightarrow> string" where
  "show_dec n = (if n < 10 then [char_of (48 + n)] else show_dec (n div 10) @ [char_of (48 + n mod 10)])"

declare show_dec.simps [simp del]

lemma digit_char_of [simp]: "(d :: nat) < 10 \<Longrightarrow> digit_char (char_of (48 + d))"
  by (simp add: digit_char_def)

lemma digit_value_of [simp]: "(d :: nat) < 10 \<Longrightarrow> digit_value (char_of (48 + d)) = d"
  by (simp add: digit_value_def)

lemma parse_dec_snoc: "parse_dec (s @ [c]) = parse_dec s * 10 + digit_value c"
  by (simp add: parse_dec_def)

lemma show_dec_decimal [simp]: "decimal_pattern (show_dec n)"
proof (induction n rule: show_dec.induct)
  case (1 n)
  then show ?case
    by (subst show_dec.simps) (auto simp: decimal_pattern_def)
qed

lemma parse_show_dec [simp]: "parse_dec (show_dec n) = n"
proof (induction n rule: show_dec.induct)
  case (1 n)
  show ?case
  proof (cases "n < 10")
    case True
    then show ?thesis by (subst show_dec.simps) (simp add: parse_dec_def)
  next
    case False
    with "1" have "parse_dec (show_dec (n div 10)) = n div 10" by simp
    with False show ?thesis by (subst show_dec.simps) (simp add: parse_dec_snoc)
  qed
qed

lemma show_dec_nonempty [simp]: "show_dec n \<noteq> []"
  using show_dec_decimal [of n] by (simp add: decimal_pattern_def)

lemma show_dec_inject [simp]: "show_dec m = show_dec n \<longleftrightarrow> m = n"
  by (metis parse_show_dec)

end
