(* ===== verification/Bytes.thy ===== *)
theory Bytes
  imports Prelude
begin

unbundle bit_operations_syntax

text \<open>
  The byte encoder of \<open>packages/loyal-actions/src/internal/bytes.ts\<close>.

  A \<open>BytesEncoder\<close> owns a growing array of bytes.  Each \<open>push\<close> method is a \<open>writer\<close>: it takes the
  bytes pushed so far and returns the longer array, or the error it throws.  JavaScript's bitwise
  operators first reduce a number to 32 bits (\<open>toInt32\<close>), and \<open>>>\<close> is the arithmetic shift there;
  on a \<open>bigint\<close> they work on the unbounded integer.

  The readers below the writers are the specification: the little-endian, length-prefixed format a
  program on chain parses.  The locale \<open>codec\<close> is the contract between the two; it is interpreted on
  every writer of the component, and \<open>vec_codec\<close>, \<open>small_vec_codec\<close> and \<open>option_codec\<close> carry it over to
  \<open>pushVec\<close>, \<open>pushSmallVec\<close> and \<open>pushOption\<close>.
\<close>

section \<open>Writers\<close>

type_synonym u8 = "8 word"

datatype sdk_error =
    Squads_small_vec_overflow
  | Squads_pubkey_table_overflow
  | Must_be_integer string
  | Must_be_u64 string
  | Must_be_i64 string
  | Must_be_u8 string
  | Unsupported_stablecoin
  | Unsupported_loyal_cluster string
  | Unsupported_solana_env string
  | Stablecoin_mint_registry_contains_duplicates
  | Duplicate_swap_lane
  | Unsupported_max_fee_bps int
  | Policy_seed_is_required
  | Cross_mint_requires_six_mint_registry
  | Cross_mint_source_shard_must_contain_three_mints
  | Cross_mint_policy_seeds_must_be_distinct
  | Max_slippage_bps_out_of_range
  | Daily_source_mint_spending_cap_must_be_positive
  | Smart_account_config_is_required

type_synonym writer = "u8 list \<Rightarrow> sdk_error + u8 list"

definition emit :: "u8 list \<Rightarrow> writer" where
  "emit bs e = Inr (e @ bs)"

primrec w_seq :: "writer list \<Rightarrow> writer" where
  "w_seq [] = Inr"
| "w_seq (a # as) = (\<lambda>e. rbind (a e) (w_seq as))"

definition w_for :: "'a list \<Rightarrow> ('a \<Rightarrow> writer) \<Rightarrow> writer" where
  "w_for xs f = w_seq (map f xs)"

definition toInt32 :: "int \<Rightarrow> 32 word" where
  "toInt32 v = word_of_int v"

definition byte_at :: "nat \<Rightarrow> int \<Rightarrow> u8" where
  "byte_at n v = ucast (signed_drop_bit n (toInt32 v) AND 0xff)"

definition pushU8 :: "int \<Rightarrow> writer" where
  "pushU8 v = emit [byte_at 0 v]"

definition pushBool :: "bool \<Rightarrow> writer" where
  "pushBool b = pushU8 (if b then 1 else 0)"

definition pushU16 :: "int \<Rightarrow> writer" where
  "pushU16 v = emit [byte_at 0 v, byte_at 8 v]"

definition pushU32 :: "int \<Rightarrow> writer" where
  "pushU32 v = emit [byte_at 0 v, byte_at 8 v, byte_at 16 v, byte_at 24 v]"

primrec pushU64_loop :: "nat \<Rightarrow> int \<Rightarrow> writer" where
  "pushU64_loop 0 remaining = Inr"
| "pushU64_loop (Suc n) remaining =
     (\<lambda>e. rbind (pushU8 (remaining AND 0xff) e) (pushU64_loop n (drop_bit 8 remaining)))"

definition pushU64 :: "int \<Rightarrow> writer" where
  "pushU64 v = pushU64_loop 8 v"

definition pushI64 :: "int \<Rightarrow> writer" where
  "pushI64 v = pushU64 (if v < 0 then push_bit 64 1 + v else v)"

definition pushBytes :: "u8 list \<Rightarrow> writer" where
  "pushBytes bs = emit bs"

text \<open>A \<open>PublicKey\<close> is represented by the bytes its \<open>toBytes()\<close> returns.\<close>

type_synonym pubkey = "u8 list"

definition pushPubkey :: "pubkey \<Rightarrow> writer" where
  "pushPubkey k = pushBytes k"

definition pushOption :: "'a option \<Rightarrow> ('a \<Rightarrow> writer) \<Rightarrow> writer" where
  "pushOption v encodeValue =
     (case v of None \<Rightarrow> pushU8 0 | Some x \<Rightarrow> w_seq [pushU8 1, encodeValue x])"

definition pushVec :: "'a list \<Rightarrow> ('a \<Rightarrow> writer) \<Rightarrow> writer" where
  "pushVec items encodeItem = w_seq [pushU32 (int (length items)), w_for items encodeItem]"

definition pushSmallVec :: "'a list \<Rightarrow> ('a \<Rightarrow> writer) \<Rightarrow> writer" where
  "pushSmallVec items encodeItem =
     (if length items > 255 then (\<lambda>_. Inl Squads_small_vec_overflow)
      else w_seq [pushU8 (int (length items)), w_for items encodeItem])"

text \<open>A fresh encoder starts empty; \<open>finish\<close> hands over the bytes.\<close>

definition finish :: "writer \<Rightarrow> sdk_error + u8 list" where
  "finish w = w []"

section \<open>Readers\<close>

type_synonym 'a reader = "u8 list \<Rightarrow> ('a \<times> u8 list) option"

primrec read_le :: "nat \<Rightarrow> int reader" where
  "read_le 0 bs = Some (0, bs)"
| "read_le (Suc n) bs =
     (case bs of [] \<Rightarrow> None
      | b # r \<Rightarrow> do { (v, r') \<leftarrow> read_le n r; Some (uint b + 256 * v, r') })"

definition read_i64 :: "int reader" where
  "read_i64 bs = do { (v, r) \<leftarrow> read_le 8 bs; Some (if v < 2 ^ 63 then v else v - 2 ^ 64, r) }"

definition read_bytes :: "nat \<Rightarrow> u8 list reader" where
  "read_bytes n bs = (if n \<le> length bs then Some (take n bs, drop n bs) else None)"

primrec read_list :: "nat \<Rightarrow> 'a reader \<Rightarrow> 'a list reader" where
  "read_list 0 rd bs = Some ([], bs)"
| "read_list (Suc n) rd bs =
     do { (x, r) \<leftarrow> rd bs; (xs, r') \<leftarrow> read_list n rd r; Some (x # xs, r') }"

definition read_vec :: "'a reader \<Rightarrow> 'a list reader" where
  "read_vec rd bs = do { (n, r) \<leftarrow> read_le 4 bs; read_list (nat n) rd r }"

definition read_small_vec :: "'a reader \<Rightarrow> 'a list reader" where
  "read_small_vec rd bs = do { (n, r) \<leftarrow> read_le 1 bs; read_list (nat n) rd r }"

definition read_option :: "'a reader \<Rightarrow> 'a option reader" where
  "read_option rd bs =
     do { (t, r) \<leftarrow> read_le 1 bs;
          if t = 0 then Some (None, r)
          else if t = 1 then do { (x, r') \<leftarrow> rd r; Some (Some x, r') }
          else None }"

section \<open>The contract of a writer and a reader\<close>

locale codec =
  fixes enc :: "'a \<Rightarrow> writer"
    and dec :: "'a reader"
    and wf :: "'a \<Rightarrow> bool"
  assumes roundtrip:
    "wf x \<Longrightarrow> \<exists>bs. (\<forall>e. enc x e = Inr (e @ bs)) \<and> (\<forall>r. dec (bs @ r) = Some (x, r))"
begin

lemma enc_appends:
  assumes "wf x"
  obtains bs where "\<And>e. enc x e = Inr (e @ bs)" and "\<And>r. dec (bs @ r) = Some (x, r)"
  using roundtrip [OF assms] by blast

lemma enc_total: "wf x \<Longrightarrow> \<exists>bs. enc x e = Inr bs"
  using roundtrip by blast

lemma dec_enc: "wf x \<Longrightarrow> enc x [] = Inr bs \<Longrightarrow> dec bs = Some (x, [])"
  by (metis append_Nil append_Nil2 enc_appends sum.inject(2))

lemma enc_inject: "wf x \<Longrightarrow> wf y \<Longrightarrow> enc x [] = enc y [] \<Longrightarrow> x = y"
  by (metis dec_enc enc_total option.inject prod.inject)

lemma for_roundtrip:
  "\<forall>x \<in> set xs. wf x \<Longrightarrow>
   \<exists>bs. (\<forall>e. w_for xs enc e = Inr (e @ bs)) \<and>
        (\<forall>r. read_list (length xs) dec (bs @ r) = Some (xs, r))"
proof (induction xs)
  case Nil
  show ?case by (rule exI [of _ "[]"]) (simp add: w_for_def)
next
  case (Cons x xs)
  from Cons.prems obtain b where b: "\<And>e. enc x e = Inr (e @ b)" "\<And>r. dec (b @ r) = Some (x, r)"
    by (auto elim: enc_appends)
  from Cons obtain bs where bs: "\<And>e. w_for xs enc e = Inr (e @ bs)"
    "\<And>r. read_list (length xs) dec (bs @ r) = Some (xs, r)" by auto
  show ?case by (rule exI [of _ "b @ bs"]) (use b bs in \<open>simp add: w_for_def\<close>)
qed

end

section \<open>Bytes of an integer\<close>

lemma bit_255: "bit (255 :: int) i \<longleftrightarrow> i < 8"
proof -
  have "(255 :: int) = mask 8" by (simp add: mask_eq_exp_minus_1)
  then show ?thesis by (simp only: bit_mask_iff) simp
qed

lemma byte_at_eq:
  assumes "n + 8 \<le> 32"
  shows "byte_at n v = word_of_int (v div 2 ^ n)"
proof (rule bit_word_eqI)
  fix i assume "i < LENGTH(8)"
  then have "i < 8" by simp
  with assms have "i < 32 - n" by simp
  with \<open>i < 8\<close> assms show "bit (byte_at n v) i = bit (word_of_int (v div 2 ^ n) :: u8) i"
    by (simp add: byte_at_def toInt32_def bit_simps bit_signed_drop_bit_iff bit_255 not_le
        flip: drop_bit_eq_div)
qed

lemma uint_byte_at:
  "n + 8 \<le> 32 \<Longrightarrow> uint (byte_at n v) = v div 2 ^ n mod 256"
  by (simp add: byte_at_eq uint_word_of_int)

lemma writer_evals [writer_simps]:
  "pushU8 v e = Inr (e @ [byte_at 0 v])"
  "pushU16 v e = Inr (e @ [byte_at 0 v, byte_at 8 v])"
  "pushU32 v e = Inr (e @ [byte_at 0 v, byte_at 8 v, byte_at 16 v, byte_at 24 v])"
  "pushBytes bs e = Inr (e @ bs)"
  "pushPubkey k e = Inr (e @ k)"
  by (simp_all add: pushU8_def pushU16_def pushU32_def pushBytes_def pushPubkey_def emit_def)

primrec le_bytes :: "nat \<Rightarrow> int \<Rightarrow> u8 list" where
  "le_bytes 0 v = []"
| "le_bytes (Suc n) v = word_of_int v # le_bytes n (v div 256)"

lemma length_le_bytes [simp]: "length (le_bytes n v) = n"
  by (induction n arbitrary: v) auto

lemma read_le_bytes [decode_simps]:
  "0 \<le> v \<Longrightarrow> v < 256 ^ n \<Longrightarrow> read_le n (le_bytes n v @ r) = Some (v, r)"
proof (induction n arbitrary: v)
  case (Suc n)
  then have "v div 256 < 256 ^ n" by (simp add: div_less_iff_less_mult)
  with Suc have "read_le n (le_bytes n (v div 256) @ r) = Some (v div 256, r)"
    by (simp add: pos_imp_zdiv_nonneg_iff)
  then show ?case by (simp add: uint_word_of_int)
qed simp

lemma byte_at_0_mod: "byte_at 0 (v AND 255) = word_of_int v"
proof -
  have "v AND 255 = v mod 256" using take_bit_eq_mask [of 8 v]
    by (simp add: take_bit_eq_mod mask_eq_exp_minus_1)
  then show ?thesis by (simp add: byte_at_eq word_uint_eq_iff uint_word_of_int)
qed

lemma pushU64_loop_bytes: "pushU64_loop n v e = Inr (e @ le_bytes n v)"
  by (induction n arbitrary: v e)
    (simp_all add: writer_evals byte_at_0_mod drop_bit_eq_div)

lemma pushU8_bytes: "pushU8 v e = Inr (e @ le_bytes 1 v)"
  by (simp add: writer_evals byte_at_eq)

lemma pushU16_bytes: "pushU16 v e = Inr (e @ le_bytes 2 v)"
  by (simp add: writer_evals byte_at_eq numeral_2_eq_2)

lemma pushU32_bytes: "pushU32 v e = Inr (e @ le_bytes 4 v)"
  by (simp add: writer_evals byte_at_eq eval_nat_numeral zdiv_zmult2_eq [symmetric])

lemma pushU64_bytes: "pushU64 v e = Inr (e @ le_bytes 8 v)"
  by (simp add: pushU64_def pushU64_loop_bytes)

lemma pushI64_bytes:
  "pushI64 v e = Inr (e @ le_bytes 8 (if v < 0 then 2 ^ 64 + v else v))"
  by (simp add: pushI64_def pushU64_bytes push_bit_eq_mult)

definition wf_u :: "nat \<Rightarrow> int \<Rightarrow> bool" where
  "wf_u n v \<longleftrightarrow> 0 \<le> v \<and> v < 256 ^ n"

definition wf_i64 :: "int \<Rightarrow> bool" where
  "wf_i64 v \<longleftrightarrow> - (2 ^ 63) \<le> v \<and> v < 2 ^ 63"

definition wf_pubkey :: "pubkey \<Rightarrow> bool" where
  "wf_pubkey k \<longleftrightarrow> length k = 32"

interpretation u8c: codec pushU8 "read_le 1" "wf_u 1"
  by unfold_locales (use pushU8_bytes read_le_bytes [of _ 1] in \<open>auto simp: wf_u_def simp del: le_bytes.simps\<close>)

interpretation u16c: codec pushU16 "read_le 2" "wf_u 2"
  by unfold_locales (use pushU16_bytes read_le_bytes [of _ 2] in \<open>auto simp: wf_u_def simp del: le_bytes.simps\<close>)

interpretation u32c: codec pushU32 "read_le 4" "wf_u 4"
  by unfold_locales (use pushU32_bytes read_le_bytes [of _ 4] in \<open>auto simp: wf_u_def simp del: le_bytes.simps\<close>)

interpretation u64c: codec pushU64 "read_le 8" "wf_u 8"
  by unfold_locales (use pushU64_bytes read_le_bytes [of _ 8] in \<open>auto simp: wf_u_def simp del: le_bytes.simps\<close>)

lemma read_i64_bytes:
  "wf_i64 v \<Longrightarrow> read_i64 (le_bytes 8 (if v < 0 then 2 ^ 64 + v else v) @ r) = Some (v, r)"
  by (auto simp: wf_i64_def read_i64_def read_le_bytes simp del: le_bytes.simps)

interpretation i64c: codec pushI64 read_i64 wf_i64
  by unfold_locales (use pushI64_bytes read_i64_bytes in blast)

interpretation pubkeyc: codec pushPubkey "read_bytes 32" wf_pubkey
  by unfold_locales (auto simp: writer_evals wf_pubkey_def read_bytes_def)

section \<open>Vectors and options\<close>

locale vec_codec = item: codec enc dec wf
  for enc :: "'a \<Rightarrow> writer" and dec :: "'a reader" and wf :: "'a \<Rightarrow> bool"

sublocale vec_codec \<subseteq> vec: codec "\<lambda>xs. pushVec xs enc" "read_vec dec"
  "\<lambda>xs. length xs < 2 ^ 32 \<and> (\<forall>x \<in> set xs. wf x)"
proof
  fix xs assume a: "length xs < 2 ^ 32 \<and> (\<forall>x \<in> set xs. wf x)"
  then obtain bs where bs: "\<And>e. w_for xs enc e = Inr (e @ bs)"
    "\<And>r. read_list (length xs) dec (bs @ r) = Some (xs, r)"
    using item.for_roundtrip by blast
  let ?p = "le_bytes 4 (int (length xs))"
  have "read_le 4 (?p @ r) = Some (int (length xs), r)" for r
    using a by (simp add: read_le_bytes del: le_bytes.simps)
  then have "\<forall>r. read_vec dec ((?p @ bs) @ r) = Some (xs, r)"
    by (simp add: read_vec_def bs(2) del: le_bytes.simps)
  moreover have "\<forall>e. pushVec xs enc e = Inr (e @ ?p @ bs)"
    by (simp add: pushVec_def pushU32_bytes bs(1) del: le_bytes.simps)
  ultimately show "\<exists>b. (\<forall>e. pushVec xs enc e = Inr (e @ b)) \<and>
      (\<forall>r. read_vec dec (b @ r) = Some (xs, r))" by blast
qed

locale small_vec_codec = item: codec enc dec wf
  for enc :: "'a \<Rightarrow> writer" and dec :: "'a reader" and wf :: "'a \<Rightarrow> bool"

sublocale small_vec_codec \<subseteq> small_vec: codec "\<lambda>xs. pushSmallVec xs enc" "read_small_vec dec"
  "\<lambda>xs. length xs \<le> 255 \<and> (\<forall>x \<in> set xs. wf x)"
proof
  fix xs assume a: "length xs \<le> 255 \<and> (\<forall>x \<in> set xs. wf x)"
  then obtain bs where bs: "\<And>e. w_for xs enc e = Inr (e @ bs)"
    "\<And>r. read_list (length xs) dec (bs @ r) = Some (xs, r)"
    using item.for_roundtrip by blast
  let ?p = "le_bytes 1 (int (length xs))"
  have "read_le 1 (?p @ r) = Some (int (length xs), r)" for r
    using a by (simp add: read_le_bytes del: le_bytes.simps read_le.simps One_nat_def)
  then have "\<forall>r. read_small_vec dec ((?p @ bs) @ r) = Some (xs, r)"
    by (simp add: read_small_vec_def bs(2) del: le_bytes.simps read_le.simps One_nat_def)
  moreover have "\<forall>e. pushSmallVec xs enc e = Inr (e @ ?p @ bs)"
    using a by (simp add: pushSmallVec_def pushU8_bytes bs(1) del: le_bytes.simps One_nat_def)
  ultimately show "\<exists>b. (\<forall>e. pushSmallVec xs enc e = Inr (e @ b)) \<and>
      (\<forall>r. read_small_vec dec (b @ r) = Some (xs, r))" by blast
qed

locale option_codec = item: codec enc dec wf
  for enc :: "'a \<Rightarrow> writer" and dec :: "'a reader" and wf :: "'a \<Rightarrow> bool"

sublocale option_codec \<subseteq> opt: codec "\<lambda>x. pushOption x enc" "read_option dec"
  "\<lambda>x. \<forall>v. x = Some v \<longrightarrow> wf v"
proof
  fix x assume a: "\<forall>v. x = Some v \<longrightarrow> wf v"
  show "\<exists>b. (\<forall>e. pushOption x enc e = Inr (e @ b)) \<and>
      (\<forall>r. read_option dec (b @ r) = Some (x, r))"
  proof (cases x)
    case None
    then show ?thesis
      by (intro exI [of _ "[0]"]) (simp add: pushOption_def pushU8_bytes read_option_def)
  next
    case (Some v)
    with a obtain bs where "\<And>e. enc v e = Inr (e @ bs)" "\<And>r. dec (bs @ r) = Some (v, r)"
      by (auto elim: item.enc_appends)
    with Some show ?thesis
      by (intro exI [of _ "1 # bs"]) (simp add: pushOption_def pushU8_bytes read_option_def)
  qed
qed

text \<open>The empty option and the one-element vector appear as literal calls in the code.\<close>

lemma pushOption_None [writer_simps]: "pushOption None f e = Inr (e @ [0])"
  by (simp add: pushOption_def pushU8_bytes)

lemma pushVec_single [writer_simps]:
  "pushVec [x] f e = f x (e @ [1, 0, 0, 0])"
  by (cases "f x (e @ [1, 0, 0, 0])")
    (simp_all add: pushVec_def w_for_def pushU32_bytes eval_nat_numeral)

lemma read_le_literal [decode_simps]:
  "read_le (Suc 0) (b # r) = Some (uint b, r)"
  by simp

section \<open>Length limits\<close>

lemma pushSmallVec_overflow:
  "length items > 255 \<Longrightarrow> pushSmallVec items f e = Inl Squads_small_vec_overflow"
  by (simp add: pushSmallVec_def)

end
