(* ===== verification/Js_Values.thy ===== *)
theory Js_Values
  imports Prelude Complex_Main
begin

text \<open>
  JavaScript values the components share: numbers, strings with \<open>trim\<close>, and the values \<open>JSON.parse\<close>
  returns.  An object is an insertion-ordered map, and reading an absent property gives \<open>undefined\<close>
  (\<open>None\<close>).
\<close>

text \<open>A JavaScript number is a finite (rational) value, an infinity or NaN.\<close>

datatype js_number = Finite rat | Non_finite

datatype js_integer = Number js_number | Bigint int

definition isInteger :: "js_number \<Rightarrow> bool" where
  "isInteger n = (case n of Non_finite \<Rightarrow> False | Finite q \<Rightarrow> of_int \<lfloor>q\<rfloor> = q)"

definition isSafeInteger :: "js_number \<Rightarrow> bool" where
  "isSafeInteger n =
     (case n of Non_finite \<Rightarrow> False
      | Finite q \<Rightarrow> of_int \<lfloor>q\<rfloor> = q \<and> \<bar>\<lfloor>q\<rfloor>\<bar> \<le> 2 ^ 53 - 1)"

text \<open>\<open>int_value\<close> reads a number that \<open>isInteger\<close> has accepted.\<close>

definition int_value :: "js_number \<Rightarrow> int" where
  "int_value n = (case n of Finite q \<Rightarrow> \<lfloor>q\<rfloor> | Non_finite \<Rightarrow> 0)"

text \<open>\<open>String.prototype.trim\<close> removes white space and line terminators at both ends.\<close>

definition js_space :: "char \<Rightarrow> bool" where
  "js_space c \<longleftrightarrow> of_char c \<in> {9, 10, 11, 12, 13, 32, 160 :: nat}"

definition js_trim :: "string \<Rightarrow> string" where
  "js_trim s = rev (dropWhile js_space (rev (dropWhile js_space s)))"

text \<open>\<open>String.prototype.includes\<close>.\<close>

fun js_includes :: "string \<Rightarrow> string \<Rightarrow> bool" where
  "js_includes pat [] \<longleftrightarrow> pat = []"
| "js_includes pat (c # s) \<longleftrightarrow> take (length pat) (c # s) = pat \<or> js_includes pat s"

datatype json =
    JNull
  | JBool bool
  | JNumber js_number
  | JString string
  | JArray "json list"
  | JObject "(string, json) jsmap"

text \<open>\<open>typeof value === "object" && value !== null\<close>, property access and \<open>typeof value === "string"\<close>.\<close>

definition isObject :: "json \<Rightarrow> bool" where
  "isObject v = (case v of JArray _ \<Rightarrow> True | JObject _ \<Rightarrow> True | _ \<Rightarrow> False)"

definition get_prop :: "json \<Rightarrow> string \<Rightarrow> json option" where
  "get_prop v k = (case v of JObject kvs \<Rightarrow> jm_get kvs k | _ \<Rightarrow> None)"

definition string_prop :: "json \<Rightarrow> string \<Rightarrow> string option" where
  "string_prop v k = (case get_prop v k of Some (JString s) \<Rightarrow> Some s | _ \<Rightarrow> None)"

text \<open>An optional string is truthy when it is present and not empty.\<close>

definition truthy :: "string option \<Rightarrow> bool" where
  "truthy s = (case s of None \<Rightarrow> False | Some t \<Rightarrow> t \<noteq> [])"

lemma truthy_Some: "truthy s \<longleftrightarrow> (\<exists>t. s = Some t \<and> t \<noteq> [])"
  by (auto simp: truthy_def split: option.splits)

end
