(* ===== verification/Sdk_Types.thy ===== *)
theory Sdk_Types
  imports Bytes Js_Values
begin

text \<open>
  The data types of \<open>packages/loyal-actions/src/types.ts\<close> and what the package takes from outside.

  The record \<open>web3\<close> holds the operations of \<open>@solana/web3.js\<close> the code calls: the parser of a base58
  key, the program-address derivation (its first component), the base58 printer, the system
  program's id and the default key.  A run-time test of an argument's class or of membership in an
  enum (\<open>requirePublicKey\<close>, \<open>Object.values(LoyalCluster).includes\<close>) is true for every value of the
  model's types and has no branch of its own.
\<close>

section \<open>Third-party operations\<close>

record web3 =
  newPublicKey :: "string \<Rightarrow> pubkey"
  findProgramAddressSync :: "u8 list list \<Rightarrow> pubkey \<Rightarrow> pubkey"
  toBase58 :: "pubkey \<Rightarrow> string"
  systemProgramId :: pubkey
  defaultPublicKey :: pubkey

definition utf8_bytes :: "string \<Rightarrow> u8 list" where
  "utf8_bytes s = map of_char s"

section \<open>Enumerations\<close>

datatype loyal_cluster = Devnet | MainnetBeta

datatype risk_basket = Safe | Medium | Aggressive

datatype swap_lane = Jupiter | Loyal

datatype source_shard = Classic | Token2022

datatype max_fee_bps = Bps50 | Bps75 | Bps100 | Bps125 | Bps150

primrec max_fee_bps_value :: "max_fee_bps \<Rightarrow> int" where
  "max_fee_bps_value Bps50 = 50"
| "max_fee_bps_value Bps75 = 75"
| "max_fee_bps_value Bps100 = 100"
| "max_fee_bps_value Bps125 = 125"
| "max_fee_bps_value Bps150 = 150"

datatype stablecoin = CASH | USDG | PYUSD | USDC | USDT | USDS

section \<open>Inputs\<close>

record smart_account_config =
  sa_settings :: pubkey
  sa_authority :: pubkey
  sa_delegatedSigner :: pubkey

record squads_input =
  sq_settings :: pubkey
  sq_authority :: pubkey
  sq_delegatedSigner :: pubkey
  sq_accountIndex :: js_number
  sq_vault :: pubkey

record recurring_delegation_input =
  rd_nonce :: js_integer
  rd_amountPerPeriodRaw :: js_integer
  rd_periodLengthSeconds :: js_integer
  rd_startTimestamp :: js_integer
  rd_expiryTimestamp :: js_integer
  rd_expectedSubscriptionAuthorityInitId :: js_integer

record transfer_recurring_input =
  tr_amountRaw :: js_integer
  tr_delegator :: pubkey
  tr_mint :: pubkey

text \<open>\<open>policySeed\<close> is \<open>None\<close> when the caller leaves it undefined.\<close>

record yield_route_input =
  yr_cluster :: loyal_cluster
  yr_policySeed :: "js_integer option"
  yr_risk :: risk_basket
  yr_swapLanes :: "swap_lane list"
  yr_maxFeeBps :: "int option"
  yr_squads :: squads_input

record yield_route_setup_input =
  ys_cluster :: loyal_cluster
  ys_policySeed :: "js_integer option"
  ys_risk :: risk_basket
  ys_squads :: squads_input

record vault_yield_routing_input =
  vy_cluster :: loyal_cluster
  vy_smartAccount :: "smart_account_config option"
  vy_policySeed :: "js_integer option"
  vy_risk :: risk_basket
  vy_vaultIndex :: js_number
  vy_maxFeeBps :: "int option"

record cross_mint_input =
  cm_cluster :: loyal_cluster
  cm_policySeed :: "js_integer option"
  cm_sourceShard :: source_shard
  cm_maxSlippageBps :: js_number
  cm_dailySourceMintSpendingCap :: js_integer
  cm_squads :: squads_input

record cross_mint_set_input =
  cs_cluster :: loyal_cluster
  cs_classicSeed :: "js_integer option"
  cs_token2022Seed :: "js_integer option"
  cs_maxSlippageBps :: js_number
  cs_dailySourceMintSpendingCap :: js_integer
  cs_squads :: squads_input

record sweep_input =
  sw_cluster :: loyal_cluster
  sw_policySeed :: "js_integer option"
  sw_squads :: squads_input
  sw_delegator :: pubkey
  sw_maxAmountPerPeriodRaw :: js_integer
  sw_minimumDelegatorBalanceRaw :: "js_integer option"
  sw_delegatorUsdcAta :: "pubkey option"
  sw_vaultUsdcAta :: "pubkey option"

record vault_sweep_input =
  vs_cluster :: loyal_cluster
  vs_smartAccount :: "smart_account_config option"
  vs_policySeed :: "js_integer option"
  vs_vaultIndex :: js_number
  vs_delegator :: pubkey
  vs_maxAmountPerPeriodRaw :: js_integer
  vs_minimumDelegatorBalanceRaw :: "js_integer option"
  vs_delegatorUsdcAta :: "pubkey option"
  vs_vaultUsdcAta :: "pubkey option"

section \<open>Instructions and plans\<close>

record account_meta =
  am_pubkey :: pubkey
  am_isSigner :: bool
  am_isWritable :: bool

record transaction_instruction =
  ix_programId :: pubkey
  ix_keys :: "account_meta list"
  ix_data :: "u8 list"

record action_route =
  ar_actionAccount :: pubkey
  ar_instructionConstraintIndexes :: "nat list"

record yield_routes =
  rt_sameMint :: action_route
  rt_jupiter :: "action_route option"
  rt_loyal :: "action_route option"

record yield_spec =
  sp_risk :: risk_basket
  sp_stablecoins :: "stablecoin list"
  sp_stableMints :: "pubkey list"
  sp_kaminoMarkets :: "pubkey list"
  sp_kaminoLiquidityMints :: "pubkey list"
  sp_swapLanes :: "swap_lane list"
  sp_maxFeeBps :: int

record plan_metadata =
  md_policySeed :: int
  md_vaultIndex :: js_number
  md_vault :: pubkey
  md_lockKey :: string

record persisted_lane =
  pl_lane :: swap_lane
  pl_actionAccount :: string
  pl_instructionConstraintIndexes :: "nat list"

record yield_persistence =
  pe_riskProfile :: risk_basket
  pe_universePreset :: string
  pe_routeModes :: "string list"
  pe_stableMints :: "string list"
  pe_kaminoMarkets :: "string list"
  pe_kaminoLiquidityMints :: "string list"
  pe_swapLanes :: "persisted_lane list"
  pe_threshold :: int

record 'r policy_plan =
  pp_instructions :: "transaction_instruction list"
  pp_actionAccount :: pubkey
  pp_routes :: 'r
  pp_spec :: yield_spec
  pp_metadata :: plan_metadata
  pp_persistence :: yield_persistence

record cross_mint_routes =
  cr_routeV2 :: action_route
  cr_sharedAccountsRouteV2 :: action_route

record cross_mint_spec =
  cp_sourceShard :: source_shard
  cp_sourceMints :: "pubkey list"
  cp_destinationMints :: "pubkey list"
  cp_maxSlippageBps :: js_number
  cp_dailySourceMintSpendingCap :: int

record cross_mint_persistence =
  ce_sourceShard :: source_shard
  ce_maxSlippageBps :: js_number
  ce_dailySourceMintSpendingCap :: string

record cross_mint_plan =
  xp_instructions :: "transaction_instruction list"
  xp_actionAccount :: pubkey
  xp_routes :: cross_mint_routes
  xp_spec :: cross_mint_spec
  xp_metadata :: plan_metadata
  xp_persistence :: cross_mint_persistence

record sweep_metadata =
  sm_policySeed :: int
  sm_vaultIndex :: js_number
  sm_vault :: pubkey
  sm_delegator :: pubkey
  sm_mint :: pubkey
  sm_subscriptionAuthority :: pubkey
  sm_eventAuthority :: pubkey
  sm_delegatorUsdcAta :: pubkey
  sm_vaultUsdcAta :: pubkey
  sm_lockKey :: string

record sweep_plan =
  wp_instructions :: "transaction_instruction list"
  wp_actionAccount :: pubkey
  wp_metadata :: sweep_metadata

end
