(* ===== verification/Sdk_Constants.thy ===== *)
theory Sdk_Constants
  imports Sdk_Types
begin

text \<open>
  The registries of \<open>packages/loyal-actions/src/constants.ts\<close>, the cluster configuration of
  \<open>cluster.ts\<close> and the hub's interface constants of \<open>generated/loyal-hub-abi.ts\<close>.  Every key is a
  base58 literal given to \<open>new PublicKey\<close>, so each constant takes the \<open>web3\<close> record; an instruction
  discriminator is the list of its byte values.
\<close>

section \<open>Constants\<close>

definition KAMINO_MAIN_MARKET :: "web3 \<Rightarrow> pubkey" where
  "KAMINO_MAIN_MARKET w = newPublicKey w ''7u3HeHxYDLhnCoErrtycNokbQYbWGzLs6JSDqGAv5PfF''"

definition KAMINO_MAIN_USDC_RESERVE :: "web3 \<Rightarrow> pubkey" where
  "KAMINO_MAIN_USDC_RESERVE w = newPublicKey w ''D6q6wuQSrifJKZYpR1M8R4YawnLDtDsMmWM1NbBmgJ59''"

definition KAMINO_DEVNET_MAIN_MARKET :: "web3 \<Rightarrow> pubkey" where
  "KAMINO_DEVNET_MAIN_MARKET w = newPublicKey w ''27MKCQo5qP7ijrwWSMKX2Jeb3PhK2NZmHQ9befWVRS4J''"

definition KAMINO_DEVNET_USDC_RESERVE :: "web3 \<Rightarrow> pubkey" where
  "KAMINO_DEVNET_USDC_RESERVE w = newPublicKey w ''9uKMtFU9UJ9DfbwzCReGENb31appi79KTEeDGdCnvMjy''"

definition KAMINO_FIGURE_MARKET :: "web3 \<Rightarrow> pubkey" where
  "KAMINO_FIGURE_MARKET w = newPublicKey w ''CqAoLuqWtavaVE8deBjMKe8ZfSt9ghR6Vb8nfsyabyHA''"

definition KAMINO_MAPLE_MARKET :: "web3 \<Rightarrow> pubkey" where
  "KAMINO_MAPLE_MARKET w = newPublicKey w ''6WEGfej9B9wjxRs6t4BYpb9iCXd8CpTpJ8fVSNzHCC5y''"

definition KAMINO_ONRE_MARKET :: "web3 \<Rightarrow> pubkey" where
  "KAMINO_ONRE_MARKET w = newPublicKey w ''47tfyEG9SsdEnUm9cw5kY9BXngQGqu3LBoop9j5uTAv8''"

definition KAMINO_ETHENA_MARKET :: "web3 \<Rightarrow> pubkey" where
  "KAMINO_ETHENA_MARKET w = newPublicKey w ''BJnbcRHqvppTyGesLzWASGKnmnF1wq9jZu6ExrjT7wvF''"

definition KAMINO_JLP_MARKET :: "web3 \<Rightarrow> pubkey" where
  "KAMINO_JLP_MARKET w = newPublicKey w ''DxXdAyU3kCjnyggvHmY5nAwg5cRbbmdyX3npfDMjjMek''"

definition KAMINO_BITCOIN_MARKET :: "web3 \<Rightarrow> pubkey" where
  "KAMINO_BITCOIN_MARKET w = newPublicKey w ''GMqmFygF5iSm5nkckYU6tieggFcR42SyjkkhK5rswFRs''"

definition KAMINO_SUPERSTATE_OPENING_BELL_MARKET :: "web3 \<Rightarrow> pubkey" where
  "KAMINO_SUPERSTATE_OPENING_BELL_MARKET w = newPublicKey w ''CF32kn7AY8X1bW7ZkGcHc4X9ZWTxqKGCJk6QwrQkDcdw''"

definition KAMINO_HUMA_MARKET :: "web3 \<Rightarrow> pubkey" where
  "KAMINO_HUMA_MARKET w = newPublicKey w ''52FSGeeokLpgvgAMdqxyt5Hoc2TbUYj5b8yxrEdZ37Vf''"

definition KAMINO_SOLSTICE_MARKET :: "web3 \<Rightarrow> pubkey" where
  "KAMINO_SOLSTICE_MARKET w = newPublicKey w ''9Y7uwXgQ68mGqRtZfuFaP4hc4fxeJ7cE9zTtqTxVhfGU''"

definition KAMINO_XSTOCKS_MARKET :: "web3 \<Rightarrow> pubkey" where
  "KAMINO_XSTOCKS_MARKET w = newPublicKey w ''5wJeMrUYECGq41fxRESKALVcHnNX26TAWy4W98yULsua''"

definition KAMINO_ALTCOINS_MARKET :: "web3 \<Rightarrow> pubkey" where
  "KAMINO_ALTCOINS_MARKET w = newPublicKey w ''ByYiZxp8QrdN9qbdtaAiePN8AAr3qvTPppNJDpf5DVJ5''"

definition KAMINO_LEND_PROGRAM_ID :: "web3 \<Rightarrow> pubkey" where
  "KAMINO_LEND_PROGRAM_ID w = newPublicKey w ''KLend2g3cP87fffoy8q1mQqGKjrxjC8boSyAYavgmjD''"

definition KAMINO_DEVNET_LEND_PROGRAM_ID :: "web3 \<Rightarrow> pubkey" where
  "KAMINO_DEVNET_LEND_PROGRAM_ID w = newPublicKey w ''KLend2g3cP87fffoy8q1mQqGKjrxjC8boSyAYavgmjD''"

definition KAMINO_FARMS_PROGRAM_ID :: "web3 \<Rightarrow> pubkey" where
  "KAMINO_FARMS_PROGRAM_ID w = newPublicKey w ''FarmsPZpWu9i7Kky8tPN37rs2TpmMrAZrC7S7vJa91Hr''"

definition SMART_ACCOUNTS_PROGRAM_ID :: "web3 \<Rightarrow> pubkey" where
  "SMART_ACCOUNTS_PROGRAM_ID w = newPublicKey w ''SMRTzfY6DfH5ik3TKiyLFfXexV8uSG3d2UksSCYdunG''"

definition TOKEN_2022_PROGRAM_ID :: "web3 \<Rightarrow> pubkey" where
  "TOKEN_2022_PROGRAM_ID w = newPublicKey w ''TokenzQdBNbLqP5VEhdkAS6EPFLC1PHnBqCXEpPxuEb''"

definition SUBSCRIPTIONS_PROGRAM_ID :: "web3 \<Rightarrow> pubkey" where
  "SUBSCRIPTIONS_PROGRAM_ID w = newPublicKey w ''De1egAFMkMWZSN5rYXRj9CAdheBamobVNubTsi9avR44''"

definition KAMINO_DEPOSIT_RESERVE_LIQUIDITY_DISCRIMINATOR :: "int list" where
  "KAMINO_DEPOSIT_RESERVE_LIQUIDITY_DISCRIMINATOR = [216, 224, 191, 27, 204, 151, 102, 175]"

definition KAMINO_WITHDRAW_RESERVE_LIQUIDITY_DISCRIMINATOR :: "int list" where
  "KAMINO_WITHDRAW_RESERVE_LIQUIDITY_DISCRIMINATOR = [235, 52, 119, 152, 149, 197, 20, 7]"

definition KAMINO_DEVNET_DEPOSIT_RESERVE_LIQUIDITY_DISCRIMINATOR :: "int list" where
  "KAMINO_DEVNET_DEPOSIT_RESERVE_LIQUIDITY_DISCRIMINATOR = [169, 201, 30, 126, 6, 205, 102, 68]"

definition KAMINO_DEVNET_WITHDRAW_RESERVE_LIQUIDITY_DISCRIMINATOR :: "int list" where
  "KAMINO_DEVNET_WITHDRAW_RESERVE_LIQUIDITY_DISCRIMINATOR = [234, 117, 181, 125, 185, 142, 220, 29]"

definition KAMINO_INIT_OBLIGATION_DISCRIMINATOR :: "int list" where
  "KAMINO_INIT_OBLIGATION_DISCRIMINATOR = [251, 10, 231, 76, 27, 11, 159, 96]"

definition JUPITER_SWAP_DISCRIMINATOR :: "int list" where
  "JUPITER_SWAP_DISCRIMINATOR = [187, 100, 250, 204, 49, 196, 175, 20]"

definition JUPITER_SHARED_ACCOUNTS_ROUTE_V2_DISCRIMINATOR :: "int list" where
  "JUPITER_SHARED_ACCOUNTS_ROUTE_V2_DISCRIMINATOR = [209, 152, 83, 147, 124, 254, 216, 233]"

definition KAMINO_VANILLA_OBLIGATION_TAG :: int where "KAMINO_VANILLA_OBLIGATION_TAG = 0"

definition KAMINO_VANILLA_OBLIGATION_ID :: int where "KAMINO_VANILLA_OBLIGATION_ID = 0"

definition JUPITER_SWAP_SLIPPAGE_BPS_OFFSET :: int where "JUPITER_SWAP_SLIPPAGE_BPS_OFFSET = 24"

definition JUPITER_SWAP_PLATFORM_FEE_BPS_OFFSET :: int where "JUPITER_SWAP_PLATFORM_FEE_BPS_OFFSET = 26"

definition JUPITER_SHARED_ACCOUNTS_ROUTE_V2_SLIPPAGE_BPS_OFFSET :: int where "JUPITER_SHARED_ACCOUNTS_ROUTE_V2_SLIPPAGE_BPS_OFFSET = 25"

definition JUPITER_SHARED_ACCOUNTS_ROUTE_V2_PLATFORM_FEE_BPS_OFFSET :: int where "JUPITER_SHARED_ACCOUNTS_ROUTE_V2_PLATFORM_FEE_BPS_OFFSET = 27"

definition SUBSCRIPTIONS_INIT_AUTHORITY :: int where "SUBSCRIPTIONS_INIT_AUTHORITY = 0"

definition SUBSCRIPTIONS_CREATE_RECURRING_DELEGATION :: int where "SUBSCRIPTIONS_CREATE_RECURRING_DELEGATION = 2"

definition SUBSCRIPTIONS_REVOKE_DELEGATION :: int where "SUBSCRIPTIONS_REVOKE_DELEGATION = 3"

definition SUBSCRIPTIONS_TRANSFER_RECURRING :: int where "SUBSCRIPTIONS_TRANSFER_RECURRING = 5"

definition SUBSCRIPTION_TRANSFER_AMOUNT_OFFSET :: int where "SUBSCRIPTION_TRANSFER_AMOUNT_OFFSET = 1"

definition SUBSCRIPTION_TRANSFER_DELEGATOR_OFFSET :: int where "SUBSCRIPTION_TRANSFER_DELEGATOR_OFFSET = 9"

definition SUBSCRIPTION_TRANSFER_MINT_OFFSET :: int where "SUBSCRIPTION_TRANSFER_MINT_OFFSET = 41"

definition SUBSCRIPTION_AUTHORITY_DATA_LEN :: int where "SUBSCRIPTION_AUTHORITY_DATA_LEN = 106"

definition SUBSCRIPTION_RECURRING_DELEGATION_DISCRIMINATOR :: int where "SUBSCRIPTION_RECURRING_DELEGATION_DISCRIMINATOR = 3"

definition SUBSCRIPTION_RECURRING_DELEGATION_DATA_LEN :: int where "SUBSCRIPTION_RECURRING_DELEGATION_DATA_LEN = 211"

definition SUBSCRIPTION_RECURRING_DELEGATION_DISCRIMINATOR_OFFSET :: int where "SUBSCRIPTION_RECURRING_DELEGATION_DISCRIMINATOR_OFFSET = 0"

definition SUBSCRIPTION_RECURRING_DELEGATION_DELEGATOR_OFFSET :: int where "SUBSCRIPTION_RECURRING_DELEGATION_DELEGATOR_OFFSET = 3"

definition SUBSCRIPTION_RECURRING_DELEGATION_DELEGATEE_OFFSET :: int where "SUBSCRIPTION_RECURRING_DELEGATION_DELEGATEE_OFFSET = 35"

definition SUBSCRIPTION_RECURRING_DELEGATION_AUTHORITY_OFFSET :: int where "SUBSCRIPTION_RECURRING_DELEGATION_AUTHORITY_OFFSET = 107"

definition SUBSCRIPTION_RECURRING_DELEGATION_MINT_OFFSET :: int where "SUBSCRIPTION_RECURRING_DELEGATION_MINT_OFFSET = 139"

definition SUBSCRIPTION_RECURRING_DELEGATION_AMOUNT_PER_PERIOD_OFFSET :: int where "SUBSCRIPTION_RECURRING_DELEGATION_AMOUNT_PER_PERIOD_OFFSET = 195"

definition SUBSCRIPTION_RECURRING_DELEGATION_AMOUNT_PULLED_OFFSET :: int where "SUBSCRIPTION_RECURRING_DELEGATION_AMOUNT_PULLED_OFFSET = 203"

definition KAMINO_USER_METADATA_SEED :: "u8 list" where "KAMINO_USER_METADATA_SEED = utf8_bytes ''user_meta''"

definition SUBSCRIPTION_AUTHORITY_SEED :: "u8 list" where "SUBSCRIPTION_AUTHORITY_SEED = utf8_bytes ''SubscriptionAuthority''"

definition SUBSCRIPTION_DELEGATION_SEED :: "u8 list" where "SUBSCRIPTION_DELEGATION_SEED = utf8_bytes ''delegation''"

definition SUBSCRIPTION_EVENT_AUTHORITY_SEED :: "u8 list" where "SUBSCRIPTION_EVENT_AUTHORITY_SEED = utf8_bytes ''event_authority''"

definition YIELD_ROUTE_STANDALONE_ACTION_SEED :: int where "YIELD_ROUTE_STANDALONE_ACTION_SEED = 1"

definition EARN_VAULT_INDEX :: int where "EARN_VAULT_INDEX = 1"

definition DEFAULT_MAX_FEE_BPS :: int where "DEFAULT_MAX_FEE_BPS = max_fee_bps_value Bps100"
section \<open>Registries\<close>

primrec STABLECOIN_MINTS :: "stablecoin \<Rightarrow> web3 \<Rightarrow> pubkey" where
  "STABLECOIN_MINTS CASH = (\<lambda>w. newPublicKey w ''CASHx9KJUStyftLFWGvEVf59SGeG9sh5FfcnZMVPCASH'')"
| "STABLECOIN_MINTS USDG = (\<lambda>w. newPublicKey w ''2u1tszSeqZ3qBWF3uNGPFc8TzMk2tdiwknnRMWGWjGWH'')"
| "STABLECOIN_MINTS PYUSD = (\<lambda>w. newPublicKey w ''2b1kV6DkPAnxd5ixfnxCpjxmKwqjjaYmCZfHsFu24GXo'')"
| "STABLECOIN_MINTS USDC = (\<lambda>w. newPublicKey w ''EPjFWdd5AufqSSqeM2qN1xzybapC8G4wEGGkZwyTDt1v'')"
| "STABLECOIN_MINTS USDT = (\<lambda>w. newPublicKey w ''Es9vMFrzaCERmJfrF4H2FYD4KCoNkY11McCe8BenwNYB'')"
| "STABLECOIN_MINTS USDS = (\<lambda>w. newPublicKey w ''USDSwr9ApdHk5bvJKMjzff41FfuX8bSxdKcR81vTwcA'')"

primrec STABLECOIN_MINTS_BY_CLUSTER :: "loyal_cluster \<Rightarrow> web3 \<Rightarrow> stablecoin \<Rightarrow> pubkey option" where
  "STABLECOIN_MINTS_BY_CLUSTER MainnetBeta = (\<lambda>w c. Some (STABLECOIN_MINTS c w))"
| "STABLECOIN_MINTS_BY_CLUSTER Devnet = (\<lambda>w c.
     if c = USDC then Some (newPublicKey w ''4zMMC9srt5Ri5X14GAgXhaHii3GnPAEERYPJgZJDncDU'') else None)"

definition STABLECOINS :: "stablecoin list" where
  "STABLECOINS = [CASH, USDG, PYUSD, USDC, USDT, USDS]"

definition safeMarkets :: "web3 \<Rightarrow> pubkey list" where
  "safeMarkets w =
     [KAMINO_MAIN_MARKET w, KAMINO_FIGURE_MARKET w, KAMINO_MAPLE_MARKET w, KAMINO_ONRE_MARKET w,
      KAMINO_ETHENA_MARKET w]"

definition mediumMarkets :: "web3 \<Rightarrow> pubkey list" where
  "mediumMarkets w =
     safeMarkets w @ [KAMINO_JLP_MARKET w, KAMINO_BITCOIN_MARKET w, KAMINO_SUPERSTATE_OPENING_BELL_MARKET w]"

primrec RISK_BASKET_MARKETS :: "risk_basket \<Rightarrow> web3 \<Rightarrow> pubkey list" where
  "RISK_BASKET_MARKETS Safe = safeMarkets"
| "RISK_BASKET_MARKETS Medium = mediumMarkets"
| "RISK_BASKET_MARKETS Aggressive = (\<lambda>w.
     mediumMarkets w @ [KAMINO_HUMA_MARKET w, KAMINO_SOLSTICE_MARKET w, KAMINO_XSTOCKS_MARKET w,
       KAMINO_ALTCOINS_MARKET w])"

primrec RISK_BASKET_MARKETS_BY_CLUSTER :: "loyal_cluster \<Rightarrow> risk_basket \<Rightarrow> web3 \<Rightarrow> pubkey list" where
  "RISK_BASKET_MARKETS_BY_CLUSTER MainnetBeta = RISK_BASKET_MARKETS"
| "RISK_BASKET_MARKETS_BY_CLUSTER Devnet = (\<lambda>risk w. [KAMINO_DEVNET_MAIN_MARKET w])"

definition getStablecoinMintForCluster :: "web3 \<Rightarrow> loyal_cluster \<Rightarrow> stablecoin \<Rightarrow> sdk_error + pubkey" where
  "getStablecoinMintForCluster w cluster stablecoin =
     (case STABLECOIN_MINTS_BY_CLUSTER cluster w stablecoin of
        None \<Rightarrow> Inl Unsupported_stablecoin
      | Some mint \<Rightarrow> Inr mint)"

definition getStablecoinMintsForCluster :: "web3 \<Rightarrow> loyal_cluster \<Rightarrow> pubkey list" where
  "getStablecoinMintsForCluster w cluster =
     concat (map (\<lambda>stablecoin. case STABLECOIN_MINTS_BY_CLUSTER cluster w stablecoin of
                    Some mint \<Rightarrow> [mint] | None \<Rightarrow> []) STABLECOINS)"

definition getStablecoinsForCluster :: "web3 \<Rightarrow> loyal_cluster \<Rightarrow> stablecoin list" where
  "getStablecoinsForCluster w cluster =
     filter (\<lambda>stablecoin. STABLECOIN_MINTS_BY_CLUSTER cluster w stablecoin \<noteq> None) STABLECOINS"

definition getRiskBasketMarketsForCluster :: "web3 \<Rightarrow> loyal_cluster \<Rightarrow> risk_basket \<Rightarrow> pubkey list" where
  "getRiskBasketMarketsForCluster w cluster risk = RISK_BASKET_MARKETS_BY_CLUSTER cluster risk w"

record kamino_earn_target =
  kt_depositDiscriminator :: "int list"
  kt_initObligationDiscriminator :: "int list"
  kt_liquidityMint :: pubkey
  kt_lendProgramId :: pubkey
  kt_market :: pubkey
  kt_reserve :: pubkey
  kt_withdrawDiscriminator :: "int list"

definition getKaminoUsdcEarnTargetForCluster :: "web3 \<Rightarrow> loyal_cluster \<Rightarrow> sdk_error + kamino_earn_target" where
  "getKaminoUsdcEarnTargetForCluster w cluster =
     (if cluster = Devnet then
        rbind (getStablecoinMintForCluster w cluster USDC) (\<lambda>mint.
          Inr \<lparr>kt_depositDiscriminator = KAMINO_DEVNET_DEPOSIT_RESERVE_LIQUIDITY_DISCRIMINATOR,
               kt_initObligationDiscriminator = KAMINO_INIT_OBLIGATION_DISCRIMINATOR,
               kt_liquidityMint = mint, kt_lendProgramId = KAMINO_DEVNET_LEND_PROGRAM_ID w,
               kt_market = KAMINO_DEVNET_MAIN_MARKET w, kt_reserve = KAMINO_DEVNET_USDC_RESERVE w,
               kt_withdrawDiscriminator = KAMINO_DEVNET_WITHDRAW_RESERVE_LIQUIDITY_DISCRIMINATOR\<rparr>)
      else
        rbind (getStablecoinMintForCluster w cluster USDC) (\<lambda>mint.
          Inr \<lparr>kt_depositDiscriminator = KAMINO_DEPOSIT_RESERVE_LIQUIDITY_DISCRIMINATOR,
               kt_initObligationDiscriminator = KAMINO_INIT_OBLIGATION_DISCRIMINATOR,
               kt_liquidityMint = mint, kt_lendProgramId = KAMINO_LEND_PROGRAM_ID w,
               kt_market = KAMINO_MAIN_MARKET w, kt_reserve = KAMINO_MAIN_USDC_RESERVE w,
               kt_withdrawDiscriminator = KAMINO_WITHDRAW_RESERVE_LIQUIDITY_DISCRIMINATOR\<rparr>))"

primrec STABLECOIN_TOKEN_PROGRAMS :: "stablecoin \<Rightarrow> web3 \<Rightarrow> pubkey" where
  "STABLECOIN_TOKEN_PROGRAMS CASH = TOKEN_2022_PROGRAM_ID"
| "STABLECOIN_TOKEN_PROGRAMS USDG = TOKEN_2022_PROGRAM_ID"
| "STABLECOIN_TOKEN_PROGRAMS PYUSD = TOKEN_2022_PROGRAM_ID"
| "STABLECOIN_TOKEN_PROGRAMS USDC = (\<lambda>w. newPublicKey w ''TokenkegQfeZyiNwAJbNbGKPFXCWuBvf9Ss623VQ5DA'')"
| "STABLECOIN_TOKEN_PROGRAMS USDT = (\<lambda>w. newPublicKey w ''TokenkegQfeZyiNwAJbNbGKPFXCWuBvf9Ss623VQ5DA'')"
| "STABLECOIN_TOKEN_PROGRAMS USDS = (\<lambda>w. newPublicKey w ''TokenkegQfeZyiNwAJbNbGKPFXCWuBvf9Ss623VQ5DA'')"

definition getStablecoinTokenProgramForCluster ::
    "web3 \<Rightarrow> loyal_cluster \<Rightarrow> stablecoin \<Rightarrow> sdk_error + pubkey" where
  "getStablecoinTokenProgramForCluster w cluster stablecoin =
     rbind (getStablecoinMintForCluster w cluster stablecoin)
       (\<lambda>_. Inr (STABLECOIN_TOKEN_PROGRAMS stablecoin w))"

section \<open>Cluster configuration\<close>

record cluster_config =
  cc_squadsSmartAccountProgramId :: pubkey
  cc_jupiterV6ProgramId :: pubkey
  cc_loyalHubSwapProgramId :: pubkey
  cc_loyalHubAuthorizer :: pubkey
  cc_tokenProgramId :: pubkey
  cc_associatedTokenProgramId :: pubkey

definition sharedConfig :: "web3 \<Rightarrow> cluster_config" where
  "sharedConfig w =
     \<lparr>cc_squadsSmartAccountProgramId = SMART_ACCOUNTS_PROGRAM_ID w,
      cc_jupiterV6ProgramId = newPublicKey w ''JUP6LkbZbjS1jKKwapdHNy74zcZ3tLUZoi5QNyVTaV4'',
      cc_loyalHubSwapProgramId = newPublicKey w ''3qbR1eZRqXUWroWKKYhbDmR3FfqTHfqSU8zZSxtANzYh'',
      cc_loyalHubAuthorizer = newPublicKey w ''3uWi9x2SRpmjztkpkr2WWeBoVq3exjXG2YfDWLvm8KsQ'',
      cc_tokenProgramId = newPublicKey w ''TokenkegQfeZyiNwAJbNbGKPFXCWuBvf9Ss623VQ5DA'',
      cc_associatedTokenProgramId = newPublicKey w ''ATokenGPvbdGVxr1b2hvZbsiqW5xWH25efTNsLJA8knL''\<rparr>"

primrec LOYAL_CLUSTER_CONFIGS :: "loyal_cluster \<Rightarrow> web3 \<Rightarrow> cluster_config" where
  "LOYAL_CLUSTER_CONFIGS Devnet = sharedConfig"
| "LOYAL_CLUSTER_CONFIGS MainnetBeta = sharedConfig"

definition clusterConfigFor :: "web3 \<Rightarrow> loyal_cluster \<Rightarrow> cluster_config" where
  "clusterConfigFor w cluster = LOYAL_CLUSTER_CONFIGS cluster w"

primrec cluster_name :: "loyal_cluster \<Rightarrow> string" where
  "cluster_name Devnet = ''devnet''"
| "cluster_name MainnetBeta = ''mainnet-beta''"

definition normalizeLoyalCluster :: "string \<Rightarrow> sdk_error + loyal_cluster" where
  "normalizeLoyalCluster v =
     (let normalizedValue = js_trim v in
      if normalizedValue = cluster_name Devnet then Inr Devnet
      else if normalizedValue = cluster_name MainnetBeta \<or> normalizedValue = ''mainnet'' then Inr MainnetBeta
      else Inl (Unsupported_loyal_cluster v))"

definition resolveLoyalClusterForSolanaEnv :: "string \<Rightarrow> sdk_error + loyal_cluster" where
  "resolveLoyalClusterForSolanaEnv env =
     (if env = ''devnet'' then Inr Devnet
      else if env = ''mainnet'' then Inr MainnetBeta
      else Inl (Unsupported_solana_env env))"

section \<open>Hub interface\<close>

definition CONFIG_SEED :: "u8 list" where "CONFIG_SEED = [99, 111, 110, 102, 105, 103]"
definition SWAP_EXACT_IN :: int where "SWAP_EXACT_IN = 1"
definition SWAP_EXACT_IN_TAG_OFFSET :: int where "SWAP_EXACT_IN_TAG_OFFSET = 0"
definition SWAP_EXACT_IN_MAX_FEE_BPS_DATA_OFFSET :: int where "SWAP_EXACT_IN_MAX_FEE_BPS_DATA_OFFSET = 25"

record swap_exact_in_accounts =
  A_CONFIG :: int
  A_USER_VAULT :: int
  A_USER_INPUT :: int
  A_USER_OUTPUT :: int
  A_HUB_INPUT :: int
  A_HUB_OUTPUT :: int
  A_INPUT_MINT :: int
  A_OUTPUT_MINT :: int
  A_HUB_AUTHORITY :: int
  A_HUB_AUTHORIZER :: int
  A_TOKEN_PROGRAM :: int

definition swapExactInAccounts :: swap_exact_in_accounts where
  "swapExactInAccounts =
     \<lparr>A_CONFIG = 0, A_USER_VAULT = 1, A_USER_INPUT = 2, A_USER_OUTPUT = 3, A_HUB_INPUT = 4,
      A_HUB_OUTPUT = 5, A_INPUT_MINT = 6, A_OUTPUT_MINT = 7, A_HUB_AUTHORITY = 8,
      A_HUB_AUTHORIZER = 9, A_TOKEN_PROGRAM = 10\<rparr>"

section \<open>The registry's keys\<close>

text \<open>
  \<open>well_formed_keys\<close> is what the code relies on of \<open>new PublicKey\<close> and \<open>findProgramAddressSync\<close>: a key has 32
  bytes (the code parses only literals, on which the parser does not throw), and different keys print
  differently.
\<close>

definition well_formed_keys :: "web3 \<Rightarrow> bool" where
  "well_formed_keys w \<longleftrightarrow>
     (\<forall>s. wf_pubkey (newPublicKey w s)) \<and> (\<forall>seeds p. wf_pubkey (findProgramAddressSync w seeds p)) \<and>
     wf_pubkey (systemProgramId w) \<and> wf_pubkey (defaultPublicKey w) \<and>
     inj_on (toBase58 w) {k. wf_pubkey k}"

end
