(* ===== verification/Subscriptions.thy ===== *)
theory Subscriptions
  imports Sdk_Constants
begin

text \<open>
  The recurring-delegation instructions of \<open>packages/loyal-actions/src/subscriptions.ts\<close>: the
  normalisation of integers, the instruction data and the derived addresses.
\<close>

section \<open>Integers\<close>

definition normalizeInteger :: "js_integer \<Rightarrow> string \<Rightarrow> sdk_error + int" where
  "normalizeInteger v name =
     (case v of
        Bigint i \<Rightarrow> Inr i
      | Number n \<Rightarrow>
          if \<not> isSafeInteger n then Inl (Must_be_integer name)
          else (case n of Finite q \<Rightarrow> Inr \<lfloor>q\<rfloor> | Non_finite \<Rightarrow> Inl (Must_be_integer name)))"

definition U64_MAX :: int where "U64_MAX = push_bit 64 1 - 1"
definition I64_MIN :: int where "I64_MIN = - (push_bit 63 1)"
definition I64_MAX :: int where "I64_MAX = push_bit 63 1 - 1"

definition normalizeU64 :: "js_integer \<Rightarrow> string \<Rightarrow> sdk_error + int" where
  "normalizeU64 v name =
     rbind (normalizeInteger v name) (\<lambda>normalized.
       if normalized < 0 \<or> normalized > U64_MAX then Inl (Must_be_u64 name) else Inr normalized)"

definition normalizeI64 :: "js_integer \<Rightarrow> string \<Rightarrow> sdk_error + int" where
  "normalizeI64 v name =
     rbind (normalizeInteger v name) (\<lambda>normalized.
       if normalized < I64_MIN \<or> normalized > I64_MAX then Inl (Must_be_i64 name) else Inr normalized)"

section \<open>Instruction data\<close>

definition subscriptionInitAuthorityData :: "u8 list" where
  "subscriptionInitAuthorityData = [word_of_int SUBSCRIPTIONS_INIT_AUTHORITY]"

text \<open>\<open>push_normalized\<close> is the argument evaluation \<open>encoder.pushX(normalizeX(value, name))\<close>.\<close>

definition push_normalized :: "sdk_error + int \<Rightarrow> (int \<Rightarrow> writer) \<Rightarrow> writer" where
  "push_normalized r push = (\<lambda>e. rbind r (\<lambda>v. push v e))"

definition subscriptionCreateRecurringDelegationData ::
    "recurring_delegation_input \<Rightarrow> sdk_error + u8 list" where
  "subscriptionCreateRecurringDelegationData input =
     finish (w_seq
       [pushU8 SUBSCRIPTIONS_CREATE_RECURRING_DELEGATION,
        push_normalized (normalizeU64 (rd_nonce input) ''nonce'') pushU64,
        push_normalized (normalizeU64 (rd_amountPerPeriodRaw input) ''amountPerPeriodRaw'') pushU64,
        push_normalized (normalizeU64 (rd_periodLengthSeconds input) ''periodLengthSeconds'') pushU64,
        push_normalized (normalizeI64 (rd_startTimestamp input) ''startTimestamp'') pushI64,
        push_normalized (normalizeI64 (rd_expiryTimestamp input) ''expiryTimestamp'') pushI64,
        push_normalized (normalizeI64 (rd_expectedSubscriptionAuthorityInitId input)
          ''expectedSubscriptionAuthorityInitId'') pushI64])"

definition subscriptionTransferRecurringData ::
    "transfer_recurring_input \<Rightarrow> sdk_error + u8 list" where
  "subscriptionTransferRecurringData input =
     finish (w_seq
       [pushU8 SUBSCRIPTIONS_TRANSFER_RECURRING,
        push_normalized (normalizeU64 (tr_amountRaw input) ''amountRaw'') pushU64,
        pushPubkey (tr_delegator input),
        pushPubkey (tr_mint input)])"

definition subscriptionRevokeDelegationData :: "u8 list" where
  "subscriptionRevokeDelegationData = [word_of_int SUBSCRIPTIONS_REVOKE_DELEGATION]"

section \<open>Derived addresses\<close>

definition u64ToLeBytes :: "js_integer \<Rightarrow> string \<Rightarrow> sdk_error + u8 list" where
  "u64ToLeBytes v name = rbind (normalizeU64 v name) (\<lambda>normalized. Inr (le_bytes 8 normalized))"

definition deriveSubscriptionAuthority :: "web3 \<Rightarrow> pubkey \<Rightarrow> pubkey \<Rightarrow> pubkey" where
  "deriveSubscriptionAuthority w user mint =
     findProgramAddressSync w [SUBSCRIPTION_AUTHORITY_SEED, user, mint] (SUBSCRIPTIONS_PROGRAM_ID w)"

definition deriveRecurringDelegation ::
    "web3 \<Rightarrow> pubkey \<Rightarrow> pubkey \<Rightarrow> pubkey \<Rightarrow> js_integer \<Rightarrow> sdk_error + pubkey" where
  "deriveRecurringDelegation w subscriptionAuthority delegator delegatee nonce =
     rbind (u64ToLeBytes nonce ''nonce'') (\<lambda>nonceBytes.
       Inr (findProgramAddressSync w
         [SUBSCRIPTION_DELEGATION_SEED, subscriptionAuthority, delegator, delegatee, nonceBytes]
         (SUBSCRIPTIONS_PROGRAM_ID w)))"

definition deriveSubscriptionEventAuthority :: "web3 \<Rightarrow> pubkey" where
  "deriveSubscriptionEventAuthority w =
     findProgramAddressSync w [SUBSCRIPTION_EVENT_AUTHORITY_SEED] (SUBSCRIPTIONS_PROGRAM_ID w)"

section \<open>Lemmas\<close>

lemma normalizeU64_wf: "normalizeU64 v name = Inr n \<Longrightarrow> wf_u 8 n"
  by (auto simp: normalizeU64_def wf_u_def U64_MAX_def rbind_eq_Inr push_bit_eq_mult split: if_splits)

lemma normalizeI64_wf: "normalizeI64 v name = Inr n \<Longrightarrow> wf_i64 n"
  by (auto simp: normalizeI64_def wf_i64_def I64_MAX_def I64_MIN_def rbind_eq_Inr push_bit_eq_mult
      split: if_splits)

lemma normalizeU64_bigint:
  "normalizeU64 (Bigint v) name = (if wf_u 8 v then Inr v else Inl (Must_be_u64 name))"
  by (auto simp: normalizeU64_def normalizeInteger_def wf_u_def U64_MAX_def push_bit_eq_mult)

lemma push_normalized_Inr:
  "push_normalized r push e = Inr bs \<longleftrightarrow> (\<exists>v. r = Inr v \<and> push v e = Inr bs)"
  by (auto simp: push_normalized_def rbind_eq_Inr)

lemma i64_two_complement:
  "wf_i64 v \<Longrightarrow> 0 \<le> (if v < 0 then 2 ^ 64 + v else v) \<and> (if v < 0 then 2 ^ 64 + v else v) < 256 ^ 8"
  by (auto simp: wf_i64_def)

section \<open>Reading a recurring delegation\<close>

record recurring_delegation =
  d_nonce :: int
  d_amountPerPeriod :: int
  d_periodLengthSeconds :: int
  d_start :: int
  d_expiry :: int
  d_initId :: int

definition read_recurring_delegation :: "u8 list \<Rightarrow> recurring_delegation option" where
  "read_recurring_delegation bs = do {
     (t, r) \<leftarrow> read_le 1 bs;
     (nonce, r) \<leftarrow> read_le 8 r;
     (amount, r) \<leftarrow> read_le 8 r;
     (period, r) \<leftarrow> read_le 8 r;
     (start, r) \<leftarrow> read_i64 r;
     (expiry, r) \<leftarrow> read_i64 r;
     (initId, r) \<leftarrow> read_i64 r;
     if t = SUBSCRIPTIONS_CREATE_RECURRING_DELEGATION \<and> r = [] then
       Some \<lparr>d_nonce = nonce, d_amountPerPeriod = amount, d_periodLengthSeconds = period, d_start = start,
             d_expiry = expiry, d_initId = initId\<rparr>
     else None }"

lemma recurring_delegation_bytes:
  assumes "subscriptionCreateRecurringDelegationData input = Inr bs"
  obtains n a p s e i where
    "normalizeU64 (rd_nonce input) ''nonce'' = Inr n"
    "normalizeU64 (rd_amountPerPeriodRaw input) ''amountPerPeriodRaw'' = Inr a"
    "normalizeU64 (rd_periodLengthSeconds input) ''periodLengthSeconds'' = Inr p"
    "normalizeI64 (rd_startTimestamp input) ''startTimestamp'' = Inr s"
    "normalizeI64 (rd_expiryTimestamp input) ''expiryTimestamp'' = Inr e"
    "normalizeI64 (rd_expectedSubscriptionAuthorityInitId input) ''expectedSubscriptionAuthorityInitId'' = Inr i"
    "bs = le_bytes 1 2 @ le_bytes 8 n @ le_bytes 8 a @ le_bytes 8 p @ le_bytes 8 (if s < 0 then 2 ^ 64 + s else s) @
       le_bytes 8 (if e < 0 then 2 ^ 64 + e else e) @ le_bytes 8 (if i < 0 then 2 ^ 64 + i else i)"
  using assms
  by (auto simp: subscriptionCreateRecurringDelegationData_def finish_def push_normalized_Inr rbind_eq_Inr
      pushU8_bytes pushU64_bytes pushI64_bytes SUBSCRIPTIONS_CREATE_RECURRING_DELEGATION_def
      simp del: le_bytes.simps One_nat_def if_split)

section \<open>Properties\<close>

text \<open>
  C11.  The data of a create-recurring-delegation instruction is 49 bytes and reads back, field by
  field, as the normalised input: unsigned nonce, amount and period, and signed start, expiry and
  authority id, also when those are negative.
\<close>

theorem recurring_delegation_roundtrip:
  assumes "subscriptionCreateRecurringDelegationData input = Inr bs"
  shows "length bs = 49 \<and> (\<exists>d. read_recurring_delegation bs = Some d \<and>
    normalizeU64 (rd_nonce input) ''nonce'' = Inr (d_nonce d) \<and>
    normalizeU64 (rd_amountPerPeriodRaw input) ''amountPerPeriodRaw'' = Inr (d_amountPerPeriod d) \<and>
    normalizeU64 (rd_periodLengthSeconds input) ''periodLengthSeconds'' = Inr (d_periodLengthSeconds d) \<and>
    normalizeI64 (rd_startTimestamp input) ''startTimestamp'' = Inr (d_start d) \<and>
    normalizeI64 (rd_expiryTimestamp input) ''expiryTimestamp'' = Inr (d_expiry d) \<and>
    normalizeI64 (rd_expectedSubscriptionAuthorityInitId input) ''expectedSubscriptionAuthorityInitId'' =
      Inr (d_initId d))"
proof -
  obtain n a p s e i where f:
    "normalizeU64 (rd_nonce input) ''nonce'' = Inr n"
    "normalizeU64 (rd_amountPerPeriodRaw input) ''amountPerPeriodRaw'' = Inr a"
    "normalizeU64 (rd_periodLengthSeconds input) ''periodLengthSeconds'' = Inr p"
    "normalizeI64 (rd_startTimestamp input) ''startTimestamp'' = Inr s"
    "normalizeI64 (rd_expiryTimestamp input) ''expiryTimestamp'' = Inr e"
    "normalizeI64 (rd_expectedSubscriptionAuthorityInitId input) ''expectedSubscriptionAuthorityInitId'' = Inr i"
    and bs: "bs = le_bytes 1 2 @ le_bytes 8 n @ le_bytes 8 a @ le_bytes 8 p @ le_bytes 8 (if s < 0 then 2 ^ 64 + s else s) @
       le_bytes 8 (if e < 0 then 2 ^ 64 + e else e) @ le_bytes 8 (if i < 0 then 2 ^ 64 + i else i)"
    using recurring_delegation_bytes [OF assms] by metis
  have u: "read_le 8 (le_bytes 8 v @ r) = Some (v, r)" if "wf_u 8 v" for v r
    using that read_le_bytes [of v 8 r] by (simp add: wf_u_def)
  have "read_le 1 (le_bytes 1 2 @ r) = Some (2, r)" for r using read_le_bytes [of 2 1 r] by simp
  moreover have "read_i64 (le_bytes 8 (if i < 0 then 2 ^ 64 + i else i)) = Some (i, [])"
    using read_i64_bytes [OF normalizeI64_wf [OF f(6)], of "[]"] by (simp only: append_Nil2)
  ultimately have "read_recurring_delegation bs = Some \<lparr>d_nonce = n, d_amountPerPeriod = a, d_periodLengthSeconds = p,
      d_start = s, d_expiry = e, d_initId = i\<rparr>"
    unfolding read_recurring_delegation_def bs
    using u normalizeU64_wf [OF f(1)] normalizeU64_wf [OF f(2)] normalizeU64_wf [OF f(3)]
      read_i64_bytes [OF normalizeI64_wf [OF f(4)]] read_i64_bytes [OF normalizeI64_wf [OF f(5)]]
    by (simp add: SUBSCRIPTIONS_CREATE_RECURRING_DELEGATION_def del: le_bytes.simps read_le.simps One_nat_def if_split)
  moreover have "length bs = 49" by (simp add: bs)
  ultimately show ?thesis using f by simp
qed

theorem recurring_delegation_roundtrip_witness:
  "\<exists>bs d. subscriptionCreateRecurringDelegationData
      \<lparr>rd_nonce = Number (Finite 3), rd_amountPerPeriodRaw = Bigint 5000000, rd_periodLengthSeconds = Number (Finite 86400),
       rd_startTimestamp = Bigint (- 1), rd_expiryTimestamp = Bigint 0,
       rd_expectedSubscriptionAuthorityInitId = Bigint 9\<rparr> = Inr bs \<and>
     read_recurring_delegation bs = Some d"
proof -
  let ?input = "\<lparr>rd_nonce = Number (Finite 3), rd_amountPerPeriodRaw = Bigint 5000000,
       rd_periodLengthSeconds = Number (Finite 86400), rd_startTimestamp = Bigint (- 1), rd_expiryTimestamp = Bigint 0,
       rd_expectedSubscriptionAuthorityInitId = Bigint 9\<rparr>"
  have "case subscriptionCreateRecurringDelegationData ?input of Inl _ \<Rightarrow> False | Inr _ \<Rightarrow> True" by code_simp
  then obtain bs where "subscriptionCreateRecurringDelegationData ?input = Inr bs" by (auto split: sum.splits)
  with recurring_delegation_roundtrip [OF this] show ?thesis by blast
qed

end
