(* ===== verification/Squads_Policy.thy ===== *)
theory Squads_Policy
  imports Subscriptions
begin

text \<open>
  The serialisation of Squads program-interaction policies,
  \<open>packages/loyal-actions/src/internal/squads.ts\<close>: the constraint types, the compilation of constraints
  against a shared table of public keys, and the compact and legacy encodings of the
  policy-creation instruction.
\<close>

section \<open>Constraints\<close>

datatype data_value =
    DV_u8 int | DV_u16Le int | DV_u32Le int | DV_u64Le int | DV_u128Le int | DV_u8Slice "int list"

datatype data_operator =
    Equals | NotEquals | GreaterThan | GreaterThanOrEqualTo | LessThan | LessThanOrEqualTo

record data_constraint =
  dc_dataOffset :: int
  dc_dataValue :: data_value
  dc_operator :: data_operator

datatype account_kind =
    AK_pubkey "pubkey list"
  | AK_accountData "data_constraint list"

record account_constraint =
  ac_accountIndex :: int
  ac_kind :: account_kind
  ac_owner :: "pubkey option"

record instruction_constraint =
  ic_programId :: pubkey
  ic_accountConstraints :: "account_constraint list"
  ic_dataConstraints :: "data_constraint list"

record daily_spending_limit =
  sl_mint :: pubkey
  sl_maxPerPeriod :: int

record squads_context =
  ctx_settings :: pubkey
  ctx_authority :: pubkey
  ctx_delegatedSigner :: pubkey
  ctx_accountIndex :: int
  ctx_vault :: pubkey

section \<open>Compilation against the key table\<close>

datatype compiled_account_kind =
    CK_pubkey "nat list"
  | CK_accountData "data_constraint list"

record compiled_account_constraint =
  c_accountIndex :: int
  c_kind :: compiled_account_kind
  c_ownerIndex :: "nat option"

record compiled_instruction_constraint =
  c_programIdIndex :: nat
  c_accountConstraints :: "compiled_account_constraint list"
  c_dataConstraints :: "data_constraint list"

record compiled_payload =
  p_accountIndex :: int
  p_pubkeyTable :: "pubkey list"
  p_instructionConstraints :: "compiled_instruction_constraint list"
  p_spendingLimits :: "daily_spending_limit list"

definition pubkeyTableIndex :: "web3 \<Rightarrow> pubkey \<Rightarrow> pubkey list \<Rightarrow> sdk_error + (nat \<times> pubkey list)" where
  "pubkeyTableIndex w k pubkeyTable =
     (let key = toBase58 w k in
      case findIndex (\<lambda>candidate. toBase58 w candidate = key) pubkeyTable of
        Some existing \<Rightarrow> Inr (existing, pubkeyTable)
      | None \<Rightarrow>
          if length pubkeyTable \<ge> 240 then Inl Squads_pubkey_table_overflow
          else Inr (length (pubkeyTable @ [k]) - 1, pubkeyTable @ [k]))"

definition compileAccountConstraint ::
    "web3 \<Rightarrow> account_constraint \<Rightarrow> pubkey list \<Rightarrow> sdk_error + (compiled_account_constraint \<times> pubkey list)" where
  "compileAccountConstraint w c table =
     rbind (case ac_kind c of
              AK_pubkey ks \<Rightarrow>
                rbind (tmap (pubkeyTableIndex w) ks table) (\<lambda>(ixs, t). Inr (CK_pubkey ixs, t))
            | AK_accountData dcs \<Rightarrow> Inr (CK_accountData dcs, table))
       (\<lambda>(k, t1).
          rbind (case ac_owner c of
                   None \<Rightarrow> Inr (None, t1)
                 | Some own \<Rightarrow> rbind (pubkeyTableIndex w own t1) (\<lambda>(i, t). Inr (Some i, t)))
            (\<lambda>(own, t2). Inr (\<lparr>c_accountIndex = ac_accountIndex c, c_kind = k, c_ownerIndex = own\<rparr>, t2)))"

definition compileInstructionConstraint ::
    "web3 \<Rightarrow> instruction_constraint \<Rightarrow> pubkey list \<Rightarrow>
     sdk_error + (compiled_instruction_constraint \<times> pubkey list)" where
  "compileInstructionConstraint w c table =
     rbind (pubkeyTableIndex w (ic_programId c) table) (\<lambda>(p, t1).
     rbind (tmap (compileAccountConstraint w) (ic_accountConstraints c) t1) (\<lambda>(as, t2).
       Inr (\<lparr>c_programIdIndex = p, c_accountConstraints = as, c_dataConstraints = ic_dataConstraints c\<rparr>, t2)))"

definition compileProgramInteractionPayload ::
    "web3 \<Rightarrow> int \<Rightarrow> instruction_constraint list \<Rightarrow> daily_spending_limit list \<Rightarrow> sdk_error + compiled_payload" where
  "compileProgramInteractionPayload w ai constraints spendingLimits =
     rbind (tmap (compileInstructionConstraint w) constraints []) (\<lambda>(cs, table).
       Inr \<lparr>p_accountIndex = ai, p_pubkeyTable = table, p_instructionConstraints = cs,
            p_spendingLimits = spendingLimits\<rparr>)"

section \<open>Encodings\<close>

definition SQUADS_PERIOD_V2_DAILY :: int where "SQUADS_PERIOD_V2_DAILY = 1"
definition SQUADS_FULL_PERMISSIONS_MASK :: int where "SQUADS_FULL_PERMISSIONS_MASK = 7"
definition SQUADS_SYNC_SIGNER_COUNT :: int where "SQUADS_SYNC_SIGNER_COUNT = 1"
definition POLICY_CREATION_PAYLOAD_LEGACY_PROGRAM_INTERACTION :: int where
  "POLICY_CREATION_PAYLOAD_LEGACY_PROGRAM_INTERACTION = 3"
definition POLICY_CREATION_PAYLOAD_PROGRAM_INTERACTION :: int where
  "POLICY_CREATION_PAYLOAD_PROGRAM_INTERACTION = 4"
definition EXECUTE_SETTINGS_TRANSACTION_SYNC_DISCRIMINATOR :: "u8 list" where
  "EXECUTE_SETTINGS_TRANSACTION_SYNC_DISCRIMINATOR = [138, 209, 64, 163, 79, 67, 233, 76]"

lemmas squads_constants =
  SQUADS_PERIOD_V2_DAILY_def SQUADS_FULL_PERMISSIONS_MASK_def SQUADS_SYNC_SIGNER_COUNT_def
  POLICY_CREATION_PAYLOAD_LEGACY_PROGRAM_INTERACTION_def
  POLICY_CREATION_PAYLOAD_PROGRAM_INTERACTION_def

primrec operatorTag :: "data_operator \<Rightarrow> int" where
  "operatorTag Equals = 0"
| "operatorTag NotEquals = 1"
| "operatorTag GreaterThan = 2"
| "operatorTag GreaterThanOrEqualTo = 3"
| "operatorTag LessThan = 4"
| "operatorTag LessThanOrEqualTo = 5"

primrec encodeDataValue :: "data_value \<Rightarrow> writer" where
  "encodeDataValue (DV_u8 v) = w_seq [pushU8 0, pushU8 v]"
| "encodeDataValue (DV_u16Le v) = w_seq [pushU8 1, pushU16 v]"
| "encodeDataValue (DV_u32Le v) = w_seq [pushU8 2, pushU32 v]"
| "encodeDataValue (DV_u64Le v) = w_seq [pushU8 3, pushU64 v]"
| "encodeDataValue (DV_u128Le v) =
     w_seq [pushU8 4, pushU64 (and v 0xffffffffffffffff), pushU64 (drop_bit 64 v)]"
| "encodeDataValue (DV_u8Slice bs) = w_seq [pushU8 5, pushVec bs pushU8]"

definition encodeDataConstraint :: "data_constraint \<Rightarrow> writer" where
  "encodeDataConstraint c =
     w_seq [pushU64 (dc_dataOffset c), encodeDataValue (dc_dataValue c), pushU8 (operatorTag (dc_operator c))]"

text \<open>The spending-limit entry, written by the same statements in both encodings.\<close>

definition encodeSpendingLimit :: "daily_spending_limit \<Rightarrow> writer" where
  "encodeSpendingLimit l =
     w_seq [pushPubkey (sl_mint l), pushI64 0, pushOption None pushI64, pushU8 SQUADS_PERIOD_V2_DAILY,
            pushU64 (sl_maxPerPeriod l)]"

primrec encodeCompiledAccountKind :: "compiled_account_kind \<Rightarrow> writer" where
  "encodeCompiledAccountKind (CK_pubkey pubkeyIndexes) =
     w_seq [pushU8 0, pushSmallVec pubkeyIndexes (\<lambda>i. pushU8 (int i))]"
| "encodeCompiledAccountKind (CK_accountData dcs) =
     w_seq [pushU8 1, pushSmallVec dcs encodeDataConstraint]"

definition encodeCompiledAccountConstraint :: "compiled_account_constraint \<Rightarrow> writer" where
  "encodeCompiledAccountConstraint c =
     w_seq [pushU8 (c_accountIndex c),
       encodeCompiledAccountKind (c_kind c),
       pushOption (c_ownerIndex c) (\<lambda>i. pushU8 (int i))]"

definition encodeCompiledInstructionConstraint :: "compiled_instruction_constraint \<Rightarrow> writer" where
  "encodeCompiledInstructionConstraint c =
     w_seq [pushU8 (int (c_programIdIndex c)),
       pushSmallVec (c_accountConstraints c) encodeCompiledAccountConstraint,
       pushSmallVec (c_dataConstraints c) encodeDataConstraint]"

definition encodeProgramInteractionPayload :: "compiled_payload \<Rightarrow> writer" where
  "encodeProgramInteractionPayload p =
     w_seq [pushU8 (p_accountIndex p),
       pushSmallVec (p_pubkeyTable p) pushPubkey,
       pushSmallVec (p_instructionConstraints p) encodeCompiledInstructionConstraint,
       pushOption (None :: unit option) (\<lambda>_. Inr),
       pushOption (None :: unit option) (\<lambda>_. Inr),
       pushSmallVec (p_spendingLimits p) encodeSpendingLimit]"

definition encodePolicyCreateAction :: "pubkey \<Rightarrow> int \<Rightarrow> compiled_payload \<Rightarrow> writer" where
  "encodePolicyCreateAction delegatedSigner seed payload =
     w_seq [pushU8 7, pushU64 seed, pushU8 POLICY_CREATION_PAYLOAD_PROGRAM_INTERACTION,
       encodeProgramInteractionPayload payload,
       pushVec [delegatedSigner] (\<lambda>s. w_seq [pushPubkey s, pushU8 SQUADS_FULL_PERMISSIONS_MASK]),
       pushU16 1, pushU32 0, pushOption None pushU64, pushOption (None :: unit option) (\<lambda>_. Inr)]"

definition encodeMemo :: "u8 list \<Rightarrow> writer" where
  "encodeMemo bs = w_seq [pushU32 (int (length bs)), pushBytes bs]"

definition serializeSettingsActions :: "pubkey \<Rightarrow> int \<Rightarrow> compiled_payload \<Rightarrow> sdk_error + u8 list" where
  "serializeSettingsActions delegatedSigner seed payload =
     finish (w_seq [pushBytes EXECUTE_SETTINGS_TRANSACTION_SYNC_DISCRIMINATOR,
       pushU8 SQUADS_SYNC_SIGNER_COUNT,
       pushVec [()] (\<lambda>_. encodePolicyCreateAction delegatedSigner seed payload),
       pushOption None encodeMemo])"

primrec encodeLegacyAccountKind :: "account_kind \<Rightarrow> writer" where
  "encodeLegacyAccountKind (AK_pubkey pubkeys) = w_seq [pushU8 0, pushVec pubkeys pushPubkey]"
| "encodeLegacyAccountKind (AK_accountData dcs) = w_seq [pushU8 1, pushVec dcs encodeDataConstraint]"

definition encodeLegacyAccountConstraint :: "account_constraint \<Rightarrow> writer" where
  "encodeLegacyAccountConstraint c =
     w_seq [pushU8 (ac_accountIndex c),
       encodeLegacyAccountKind (ac_kind c),
       pushOption (ac_owner c) pushPubkey]"

definition encodeLegacyInstructionConstraint :: "instruction_constraint \<Rightarrow> writer" where
  "encodeLegacyInstructionConstraint c =
     w_seq [pushPubkey (ic_programId c),
       pushVec (ic_accountConstraints c) encodeLegacyAccountConstraint,
       pushVec (ic_dataConstraints c) encodeDataConstraint]"

definition encodeLegacyProgramInteractionPayload ::
    "int \<Rightarrow> instruction_constraint list \<Rightarrow> daily_spending_limit list \<Rightarrow> writer" where
  "encodeLegacyProgramInteractionPayload ai constraints spendingLimits =
     w_seq [pushU8 ai, pushVec constraints encodeLegacyInstructionConstraint,
       pushOption (None :: unit option) (\<lambda>_. Inr),
       pushOption (None :: unit option) (\<lambda>_. Inr),
       pushVec spendingLimits encodeSpendingLimit]"

definition serializeLegacySettingsActions ::
    "pubkey \<Rightarrow> int \<Rightarrow> int \<Rightarrow> instruction_constraint list \<Rightarrow> daily_spending_limit list \<Rightarrow>
     sdk_error + u8 list" where
  "serializeLegacySettingsActions delegatedSigner seed ai constraints spendingLimits =
     finish (w_seq [pushBytes EXECUTE_SETTINGS_TRANSACTION_SYNC_DISCRIMINATOR,
       pushU8 SQUADS_SYNC_SIGNER_COUNT,
       pushVec [()] (\<lambda>_. w_seq
         [pushU8 7, pushU64 seed, pushU8 POLICY_CREATION_PAYLOAD_LEGACY_PROGRAM_INTERACTION,
          encodeLegacyProgramInteractionPayload ai constraints spendingLimits,
          pushVec [delegatedSigner] (\<lambda>s. w_seq [pushPubkey s, pushU8 SQUADS_FULL_PERMISSIONS_MASK]),
          pushU16 1, pushU32 0, pushOption None pushU64, pushOption (None :: unit option) (\<lambda>_. Inr)]),
       pushOption None encodeMemo])"

section \<open>Instructions\<close>

definition SQUADS_SEED_PREFIX :: "u8 list" where "SQUADS_SEED_PREFIX = utf8_bytes ''smart_account''"
definition SQUADS_SEED_POLICY :: "u8 list" where "SQUADS_SEED_POLICY = utf8_bytes ''policy''"

definition deriveActionAccount :: "web3 \<Rightarrow> cluster_config \<Rightarrow> pubkey \<Rightarrow> js_integer \<Rightarrow> sdk_error + pubkey" where
  "deriveActionAccount w config settings policySeed =
     rbind (normalizeU64 policySeed ''policySeed'') (\<lambda>normalizedSeed.
       Inr (findProgramAddressSync w
         [SQUADS_SEED_PREFIX, SQUADS_SEED_POLICY, settings, le_bytes 8 normalizedSeed]
         (cc_squadsSmartAccountProgramId config)))"

definition policy_account_metas :: "web3 \<Rightarrow> cluster_config \<Rightarrow> squads_context \<Rightarrow> pubkey \<Rightarrow> account_meta list" where
  "policy_account_metas w config ctx policy =
     [\<lparr>am_pubkey = ctx_settings ctx, am_isSigner = False, am_isWritable = True\<rparr>,
      \<lparr>am_pubkey = ctx_authority ctx, am_isSigner = True, am_isWritable = True\<rparr>,
      \<lparr>am_pubkey = systemProgramId w, am_isSigner = False, am_isWritable = False\<rparr>,
      \<lparr>am_pubkey = cc_squadsSmartAccountProgramId config, am_isSigner = False, am_isWritable = False\<rparr>,
      \<lparr>am_pubkey = ctx_authority ctx, am_isSigner = True, am_isWritable = False\<rparr>,
      \<lparr>am_pubkey = policy, am_isSigner = False, am_isWritable = True\<rparr>]"

datatype creation_encoding = Compact | Legacy

definition createProgramInteractionPolicyInstruction ::
    "web3 \<Rightarrow> cluster_config \<Rightarrow> squads_context \<Rightarrow> instruction_constraint list \<Rightarrow> js_integer \<Rightarrow>
     daily_spending_limit list \<Rightarrow> creation_encoding \<Rightarrow> sdk_error + transaction_instruction" where
  "createProgramInteractionPolicyInstruction w config ctx constraints policySeed spendingLimits creationEncoding =
     rbind (normalizeU64 policySeed ''policySeed'') (\<lambda>normalizedSeed.
     rbind (deriveActionAccount w config (ctx_settings ctx) (Bigint normalizedSeed)) (\<lambda>actionAccount.
     rbind (if creationEncoding = Legacy
            then serializeLegacySettingsActions (ctx_delegatedSigner ctx) normalizedSeed
                   (ctx_accountIndex ctx) constraints spendingLimits
            else rbind (compileProgramInteractionPayload w (ctx_accountIndex ctx) constraints spendingLimits)
                   (\<lambda>payload. serializeSettingsActions (ctx_delegatedSigner ctx) normalizedSeed payload))
       (\<lambda>data. Inr \<lparr>ix_programId = cc_squadsSmartAccountProgramId config,
                 ix_keys = policy_account_metas w config ctx actionAccount, ix_data = data\<rparr>)))"

definition updateProgramInteractionPolicyInstruction ::
    "web3 \<Rightarrow> cluster_config \<Rightarrow> squads_context \<Rightarrow> instruction_constraint list \<Rightarrow> pubkey \<Rightarrow>
     daily_spending_limit list \<Rightarrow> sdk_error + transaction_instruction" where
  "updateProgramInteractionPolicyInstruction w config ctx constraints policy spendingLimits =
     rbind (compileProgramInteractionPayload w (ctx_accountIndex ctx) constraints spendingLimits) (\<lambda>payload.
     rbind (finish (w_seq [pushBytes EXECUTE_SETTINGS_TRANSACTION_SYNC_DISCRIMINATOR,
              pushU8 SQUADS_SYNC_SIGNER_COUNT,
              pushVec [()] (\<lambda>_. w_seq
                [pushU8 8, pushPubkey policy,
                 pushVec [ctx_delegatedSigner ctx]
                   (\<lambda>s. w_seq [pushPubkey s, pushU8 SQUADS_FULL_PERMISSIONS_MASK]),
                 pushU16 1, pushU32 0, pushU8 POLICY_CREATION_PAYLOAD_PROGRAM_INTERACTION,
                 encodeProgramInteractionPayload payload,
                 pushOption (None :: unit option) (\<lambda>_. Inr)]),
              pushOption None encodeMemo]))
       (\<lambda>data. Inr \<lparr>ix_programId = cc_squadsSmartAccountProgramId config,
                 ix_keys = policy_account_metas w config ctx policy, ix_data = data\<rparr>))"

section \<open>Readers of the two encodings\<close>

definition expect :: "u8 list \<Rightarrow> unit reader" where
  "expect lit bs = (if take (length lit) bs = lit then Some ((), drop (length lit) bs) else None)"

definition tag_operator :: "int \<Rightarrow> data_operator option" where
  "tag_operator t = map_of [(0, Equals), (1, NotEquals), (2, GreaterThan), (3, GreaterThanOrEqualTo),
     (4, LessThan), (5, LessThanOrEqualTo)] t"

definition read_data_value :: "data_value reader" where
  "read_data_value bs = do {
     (t, r) \<leftarrow> read_le 1 bs;
     if t = 0 then do { (v, r) \<leftarrow> read_le 1 r; Some (DV_u8 v, r) }
     else if t = 1 then do { (v, r) \<leftarrow> read_le 2 r; Some (DV_u16Le v, r) }
     else if t = 2 then do { (v, r) \<leftarrow> read_le 4 r; Some (DV_u32Le v, r) }
     else if t = 3 then do { (v, r) \<leftarrow> read_le 8 r; Some (DV_u64Le v, r) }
     else if t = 4 then do { (v, r) \<leftarrow> read_le 16 r; Some (DV_u128Le v, r) }
     else if t = 5 then do { (vs, r) \<leftarrow> read_vec (read_le 1) r; Some (DV_u8Slice vs, r) }
     else None }"

definition read_data_constraint :: "data_constraint reader" where
  "read_data_constraint bs = do {
     (off, r) \<leftarrow> read_le 8 bs;
     (v, r) \<leftarrow> read_data_value r;
     (t, r) \<leftarrow> read_le 1 r;
     op \<leftarrow> tag_operator t;
     Some (\<lparr>dc_dataOffset = off, dc_dataValue = v, dc_operator = op\<rparr>, r) }"

definition read_index :: "nat reader" where
  "read_index bs = do { (i, r) \<leftarrow> read_le 1 bs; Some (nat i, r) }"

definition read_spending_limit :: "daily_spending_limit reader" where
  "read_spending_limit bs = do {
     (k, r) \<leftarrow> read_bytes 32 bs;
     (_, r) \<leftarrow> expect (le_bytes 8 0 @ [0, 1]) r;
     (m, r) \<leftarrow> read_le 8 r;
     Some (\<lparr>sl_mint = k, sl_maxPerPeriod = m\<rparr>, r) }"

definition read_compiled_account_kind :: "compiled_account_kind reader" where
  "read_compiled_account_kind bs = do {
     (t, r) \<leftarrow> read_le 1 bs;
     if t = 0 then do { (ixs, r) \<leftarrow> read_small_vec read_index r; Some (CK_pubkey ixs, r) }
     else if t = 1 then do { (d, r) \<leftarrow> read_small_vec read_data_constraint r; Some (CK_accountData d, r) }
     else None }"

definition read_compiled_account_constraint :: "compiled_account_constraint reader" where
  "read_compiled_account_constraint bs = do {
     (ai, r) \<leftarrow> read_le 1 bs;
     (k, r) \<leftarrow> read_compiled_account_kind r;
     (own, r) \<leftarrow> read_option read_index r;
     Some (\<lparr>c_accountIndex = ai, c_kind = k, c_ownerIndex = own\<rparr>, r) }"

definition read_compiled_instruction_constraint :: "compiled_instruction_constraint reader" where
  "read_compiled_instruction_constraint bs = do {
     (p, r) \<leftarrow> read_index bs;
     (as, r) \<leftarrow> read_small_vec read_compiled_account_constraint r;
     (ds, r) \<leftarrow> read_small_vec read_data_constraint r;
     Some (\<lparr>c_programIdIndex = p, c_accountConstraints = as, c_dataConstraints = ds\<rparr>, r) }"

definition read_compiled_payload :: "compiled_payload reader" where
  "read_compiled_payload bs = do {
     (ai, r) \<leftarrow> read_le 1 bs;
     (tab, r) \<leftarrow> read_small_vec (read_bytes 32) r;
     (cs, r) \<leftarrow> read_small_vec read_compiled_instruction_constraint r;
     (_, r) \<leftarrow> expect [0, 0] r;
     (ls, r) \<leftarrow> read_small_vec read_spending_limit r;
     Some (\<lparr>p_accountIndex = ai, p_pubkeyTable = tab, p_instructionConstraints = cs, p_spendingLimits = ls\<rparr>, r) }"

definition read_legacy_account_kind :: "account_kind reader" where
  "read_legacy_account_kind bs = do {
     (t, r) \<leftarrow> read_le 1 bs;
     if t = 0 then do { (ks, r) \<leftarrow> read_vec (read_bytes 32) r; Some (AK_pubkey ks, r) }
     else if t = 1 then do { (d, r) \<leftarrow> read_vec read_data_constraint r; Some (AK_accountData d, r) }
     else None }"

definition read_legacy_account_constraint :: "account_constraint reader" where
  "read_legacy_account_constraint bs = do {
     (ai, r) \<leftarrow> read_le 1 bs;
     (k, r) \<leftarrow> read_legacy_account_kind r;
     (own, r) \<leftarrow> read_option (read_bytes 32) r;
     Some (\<lparr>ac_accountIndex = ai, ac_kind = k, ac_owner = own\<rparr>, r) }"

definition read_legacy_instruction_constraint :: "instruction_constraint reader" where
  "read_legacy_instruction_constraint bs = do {
     (p, r) \<leftarrow> read_bytes 32 bs;
     (as, r) \<leftarrow> read_vec read_legacy_account_constraint r;
     (ds, r) \<leftarrow> read_vec read_data_constraint r;
     Some (\<lparr>ic_programId = p, ic_accountConstraints = as, ic_dataConstraints = ds\<rparr>, r) }"

end
