(* ===== verification/Protocols.thy ===== *)
theory Protocols
  imports Squads_Policy
begin

text \<open>
  The instruction constraints of \<open>packages/loyal-actions/src/internal/protocols.ts\<close>: what a policy lets
  the delegated signer call on Kamino, Jupiter, the Loyal hub and the subscriptions program.
\<close>

section \<open>Data constraints\<close>

definition dataSliceEquals :: "int \<Rightarrow> int list \<Rightarrow> data_constraint" where
  "dataSliceEquals offset bytes =
     \<lparr>dc_dataOffset = offset, dc_dataValue = DV_u8Slice bytes, dc_operator = Equals\<rparr>"

definition dataU8Equals :: "int \<Rightarrow> int \<Rightarrow> data_constraint" where
  "dataU8Equals offset v = \<lparr>dc_dataOffset = offset, dc_dataValue = DV_u8 v, dc_operator = Equals\<rparr>"

definition dataU16LeLessThanOrEqualTo :: "int \<Rightarrow> int \<Rightarrow> data_constraint" where
  "dataU16LeLessThanOrEqualTo offset v =
     \<lparr>dc_dataOffset = offset, dc_dataValue = DV_u16Le v, dc_operator = LessThanOrEqualTo\<rparr>"

definition dataU64LeGreaterThanOrEqualTo :: "int \<Rightarrow> int \<Rightarrow> data_constraint" where
  "dataU64LeGreaterThanOrEqualTo offset v =
     \<lparr>dc_dataOffset = offset, dc_dataValue = DV_u64Le v, dc_operator = GreaterThanOrEqualTo\<rparr>"

definition dataU64LeLessThanOrEqualTo :: "int \<Rightarrow> int \<Rightarrow> data_constraint" where
  "dataU64LeLessThanOrEqualTo offset v =
     \<lparr>dc_dataOffset = offset, dc_dataValue = DV_u64Le v, dc_operator = LessThanOrEqualTo\<rparr>"

definition discriminatorConstraint :: "int list \<Rightarrow> data_constraint list" where
  "discriminatorConstraint discriminator = [dataSliceEquals 0 discriminator]"

text \<open>\<open>[...key.toBytes()]\<close>: the bytes of a key as numbers.\<close>

definition key_numbers :: "pubkey \<Rightarrow> int list" where
  "key_numbers k = map uint k"

section \<open>Account constraints\<close>

definition SPL_TOKEN_ACCOUNT_AUTHORITY_OFFSET :: int where "SPL_TOKEN_ACCOUNT_AUTHORITY_OFFSET = 32"
definition SPL_TOKEN_ACCOUNT_AMOUNT_OFFSET :: int where "SPL_TOKEN_ACCOUNT_AMOUNT_OFFSET = 64"

definition SYSVAR_RENT_PUBKEY :: "web3 \<Rightarrow> pubkey" where
  "SYSVAR_RENT_PUBKEY w = newPublicKey w ''SysvarRent111111111111111111111111111111111''"

definition DEFAULT_PUBKEY :: "web3 \<Rightarrow> pubkey" where
  "DEFAULT_PUBKEY w = defaultPublicKey w"

definition pubkeyConstraint :: "int \<Rightarrow> pubkey list \<Rightarrow> pubkey option \<Rightarrow> account_constraint" where
  "pubkeyConstraint accountIndex pubkeys owner =
     \<lparr>ac_accountIndex = accountIndex, ac_kind = AK_pubkey pubkeys, ac_owner = owner\<rparr>"

definition accountDataConstraint :: "int \<Rightarrow> pubkey option \<Rightarrow> account_constraint" where
  "accountDataConstraint accountIndex owner =
     \<lparr>ac_accountIndex = accountIndex, ac_kind = AK_accountData [], ac_owner = owner\<rparr>"

definition splTokenAuthorityConstraint :: "int \<Rightarrow> pubkey \<Rightarrow> pubkey \<Rightarrow> account_constraint" where
  "splTokenAuthorityConstraint accountIndex authority tokenProgramId =
     \<lparr>ac_accountIndex = accountIndex,
      ac_kind = AK_accountData [dataSliceEquals SPL_TOKEN_ACCOUNT_AUTHORITY_OFFSET (key_numbers authority)],
      ac_owner = Some tokenProgramId\<rparr>"

definition delegatorTokenBalanceConstraints ::
    "pubkey \<Rightarrow> js_integer option \<Rightarrow> sdk_error + account_constraint list" where
  "delegatorTokenBalanceConstraints tokenProgramId minimumBalanceRaw =
     (case minimumBalanceRaw of
        None \<Rightarrow> Inr []
      | Some raw \<Rightarrow>
          rbind (normalizeU64 raw ''minimumDelegatorBalanceRaw'') (\<lambda>minimumBalance.
            if minimumBalance = 0 then Inr []
            else Inr [\<lparr>ac_accountIndex = 2,
                       ac_kind = AK_accountData
                         [dataU64LeGreaterThanOrEqualTo SPL_TOKEN_ACCOUNT_AMOUNT_OFFSET minimumBalance],
                       ac_owner = Some tokenProgramId\<rparr>]))"

definition recurringDelegationAccountConstraint ::
    "web3 \<Rightarrow> pubkey \<Rightarrow> pubkey \<Rightarrow> pubkey \<Rightarrow> pubkey \<Rightarrow> js_integer \<Rightarrow> sdk_error + account_constraint" where
  "recurringDelegationAccountConstraint w delegator vault subscriptionAuthority mint maxAmountPerPeriodRaw =
     rbind (normalizeU64 maxAmountPerPeriodRaw ''maxAmountPerPeriodRaw'') (\<lambda>maxAmount.
       Inr \<lparr>ac_accountIndex = 0,
            ac_kind = AK_accountData
              [dataU8Equals SUBSCRIPTION_RECURRING_DELEGATION_DISCRIMINATOR_OFFSET
                 SUBSCRIPTION_RECURRING_DELEGATION_DISCRIMINATOR,
               dataSliceEquals SUBSCRIPTION_RECURRING_DELEGATION_DELEGATOR_OFFSET (key_numbers delegator),
               dataSliceEquals SUBSCRIPTION_RECURRING_DELEGATION_DELEGATEE_OFFSET (key_numbers vault),
               dataSliceEquals SUBSCRIPTION_RECURRING_DELEGATION_AUTHORITY_OFFSET
                 (key_numbers subscriptionAuthority),
               dataSliceEquals SUBSCRIPTION_RECURRING_DELEGATION_MINT_OFFSET (key_numbers mint),
               dataU64LeLessThanOrEqualTo SUBSCRIPTION_RECURRING_DELEGATION_AMOUNT_PER_PERIOD_OFFSET maxAmount],
            ac_owner = Some (SUBSCRIPTIONS_PROGRAM_ID w)\<rparr>)"

text \<open>The loop of \<open>uniquePubkeys\<close>, with the set of printed keys seen so far.\<close>

primrec uniquePubkeys_loop :: "web3 \<Rightarrow> pubkey list \<Rightarrow> string list \<Rightarrow> pubkey list \<Rightarrow> pubkey list" where
  "uniquePubkeys_loop w [] seen unique = unique"
| "uniquePubkeys_loop w (k # ks) seen unique =
     (let key = toBase58 w k in
      if key \<in> set seen then uniquePubkeys_loop w ks seen unique
      else uniquePubkeys_loop w ks (seen @ [key]) (unique @ [k]))"

definition uniquePubkeys :: "web3 \<Rightarrow> pubkey list \<Rightarrow> pubkey list" where
  "uniquePubkeys w pubkeys = uniquePubkeys_loop w pubkeys [] []"

section \<open>Derived addresses\<close>

definition deriveLoyalHubConfig :: "web3 \<Rightarrow> pubkey \<Rightarrow> pubkey" where
  "deriveLoyalHubConfig w loyalHubProgramId = findProgramAddressSync w [CONFIG_SEED] loyalHubProgramId"

definition deriveAssociatedTokenAccount :: "web3 \<Rightarrow> cluster_config \<Rightarrow> pubkey \<Rightarrow> pubkey \<Rightarrow> pubkey \<Rightarrow> pubkey" where
  "deriveAssociatedTokenAccount w config own mint tokenProgram =
     findProgramAddressSync w [own, tokenProgram, mint] (cc_associatedTokenProgramId config)"

definition deriveKaminoVanillaObligation :: "web3 \<Rightarrow> pubkey \<Rightarrow> pubkey \<Rightarrow> pubkey \<Rightarrow> pubkey" where
  "deriveKaminoVanillaObligation w vault lendingMarket lendProgramId =
     findProgramAddressSync w
       [[word_of_int KAMINO_VANILLA_OBLIGATION_TAG], [word_of_int KAMINO_VANILLA_OBLIGATION_ID], vault,
        lendingMarket, DEFAULT_PUBKEY w, DEFAULT_PUBKEY w] lendProgramId"

definition deriveKaminoUserMetadata :: "web3 \<Rightarrow> pubkey \<Rightarrow> pubkey \<Rightarrow> pubkey" where
  "deriveKaminoUserMetadata w vault lendProgramId =
     findProgramAddressSync w [KAMINO_USER_METADATA_SEED, vault] lendProgramId"

section \<open>Instruction constraints\<close>

definition kaminoWithdrawConstraint ::
    "web3 \<Rightarrow> pubkey \<Rightarrow> pubkey list \<Rightarrow> pubkey list \<Rightarrow> pubkey \<Rightarrow> int list \<Rightarrow> instruction_constraint" where
  "kaminoWithdrawConstraint w vault markets liquidityMints lendProgramId discriminator =
     \<lparr>ic_programId = lendProgramId,
      ic_accountConstraints =
        [pubkeyConstraint 0 [vault] None,
         pubkeyConstraint 2 (uniquePubkeys w markets) None,
         pubkeyConstraint 5 (uniquePubkeys w liquidityMints) None],
      ic_dataConstraints = discriminatorConstraint discriminator\<rparr>"

definition kaminoDepositConstraint ::
    "web3 \<Rightarrow> pubkey \<Rightarrow> pubkey list \<Rightarrow> pubkey list \<Rightarrow> pubkey \<Rightarrow> int list \<Rightarrow> instruction_constraint" where
  "kaminoDepositConstraint w vault markets liquidityMints lendProgramId discriminator =
     \<lparr>ic_programId = lendProgramId,
      ic_accountConstraints =
        [pubkeyConstraint 0 [vault] None,
         pubkeyConstraint 2 (uniquePubkeys w markets) None,
         pubkeyConstraint 5 (uniquePubkeys w liquidityMints) None],
      ic_dataConstraints = discriminatorConstraint discriminator\<rparr>"

definition kaminoInitObligationConstraint ::
    "web3 \<Rightarrow> pubkey \<Rightarrow> pubkey list \<Rightarrow> pubkey \<Rightarrow> int list \<Rightarrow> instruction_constraint" where
  "kaminoInitObligationConstraint w vault markets lendProgramId discriminator =
     (let marketList = uniquePubkeys w markets;
          dataPrefix = discriminator @ [KAMINO_VANILLA_OBLIGATION_TAG, KAMINO_VANILLA_OBLIGATION_ID] in
      \<lparr>ic_programId = lendProgramId,
       ic_accountConstraints =
         [pubkeyConstraint 0 [vault] None,
          pubkeyConstraint 1 [vault] None,
          pubkeyConstraint 3 marketList None,
          pubkeyConstraint 4 [DEFAULT_PUBKEY w] None,
          pubkeyConstraint 5 [DEFAULT_PUBKEY w] None,
          pubkeyConstraint 6 [deriveKaminoUserMetadata w vault lendProgramId] None,
          pubkeyConstraint 7 [SYSVAR_RENT_PUBKEY w] None,
          pubkeyConstraint 8 [systemProgramId w] None],
       ic_dataConstraints = [dataSliceEquals 0 dataPrefix]\<rparr>)"

definition jupiterConstraint ::
    "web3 \<Rightarrow> cluster_config \<Rightarrow> pubkey \<Rightarrow> pubkey list \<Rightarrow> int \<Rightarrow> instruction_constraint" where
  "jupiterConstraint w config vault allowedMints maxSlippageBps =
     (let mints = uniquePubkeys w allowedMints in
      \<lparr>ic_programId = cc_jupiterV6ProgramId config,
       ic_accountConstraints =
         [pubkeyConstraint 0 [vault] None,
          splTokenAuthorityConstraint 1 vault (cc_tokenProgramId config),
          splTokenAuthorityConstraint 2 vault (cc_tokenProgramId config),
          pubkeyConstraint 3 mints (Some (cc_tokenProgramId config)),
          pubkeyConstraint 4 mints (Some (cc_tokenProgramId config)),
          pubkeyConstraint 5 [cc_tokenProgramId config] None],
       ic_dataConstraints =
         [dataSliceEquals 0 JUPITER_SWAP_DISCRIMINATOR,
          dataU16LeLessThanOrEqualTo JUPITER_SWAP_SLIPPAGE_BPS_OFFSET maxSlippageBps]\<rparr>)"

datatype jupiter_v2_dialect = Route_v2 | Shared_accounts_route_v2

record dialect_layout =
  dl_authority :: int
  dl_outputTokenAccount :: int
  dl_discriminator :: "int list"
  dl_slippageOffset :: int
  dl_platformFeeOffset :: int

definition jupiterCrossMint_layout :: "jupiter_v2_dialect \<Rightarrow> dialect_layout" where
  "jupiterCrossMint_layout dialect =
     (if dialect = Route_v2 then
        \<lparr>dl_authority = 0, dl_outputTokenAccount = 2, dl_discriminator = JUPITER_SWAP_DISCRIMINATOR,
         dl_slippageOffset = JUPITER_SWAP_SLIPPAGE_BPS_OFFSET,
         dl_platformFeeOffset = JUPITER_SWAP_PLATFORM_FEE_BPS_OFFSET\<rparr>
      else
        \<lparr>dl_authority = 1, dl_outputTokenAccount = 5,
         dl_discriminator = JUPITER_SHARED_ACCOUNTS_ROUTE_V2_DISCRIMINATOR,
         dl_slippageOffset = JUPITER_SHARED_ACCOUNTS_ROUTE_V2_SLIPPAGE_BPS_OFFSET,
         dl_platformFeeOffset = JUPITER_SHARED_ACCOUNTS_ROUTE_V2_PLATFORM_FEE_BPS_OFFSET\<rparr>)"

text \<open>A destination is a mint with its token program.\<close>

definition jupiterCrossMintConstraint ::
    "web3 \<Rightarrow> cluster_config \<Rightarrow> pubkey \<Rightarrow> (pubkey \<times> pubkey) list \<Rightarrow> jupiter_v2_dialect \<Rightarrow> int \<Rightarrow>
     instruction_constraint" where
  "jupiterCrossMintConstraint w config vault destinationMints dialect maxSlippageBps =
     (let layout = jupiterCrossMint_layout dialect;
          canonicalVaultAtas = uniquePubkeys w
            (map (\<lambda>(mint, tokenProgram). deriveAssociatedTokenAccount w config vault mint tokenProgram)
              destinationMints) in
      \<lparr>ic_programId = cc_jupiterV6ProgramId config,
       ic_accountConstraints =
         [pubkeyConstraint (dl_authority layout) [vault] None,
          pubkeyConstraint (dl_outputTokenAccount layout) canonicalVaultAtas None],
       ic_dataConstraints =
         [dataSliceEquals 0 (dl_discriminator layout),
          dataU16LeLessThanOrEqualTo (dl_slippageOffset layout) maxSlippageBps,
          dataU8Equals (dl_platformFeeOffset layout) 0]\<rparr>)"

definition loyalHubConstraint ::
    "web3 \<Rightarrow> cluster_config \<Rightarrow> pubkey \<Rightarrow> pubkey list \<Rightarrow> int \<Rightarrow> instruction_constraint" where
  "loyalHubConstraint w config vault allowedMints maxFeeBps =
     (let mints = uniquePubkeys w allowedMints; A = swapExactInAccounts in
      \<lparr>ic_programId = cc_loyalHubSwapProgramId config,
       ic_accountConstraints =
         [pubkeyConstraint (A_CONFIG A) [deriveLoyalHubConfig w (cc_loyalHubSwapProgramId config)]
            (Some (cc_loyalHubSwapProgramId config)),
          pubkeyConstraint (A_USER_VAULT A) [vault] None,
          accountDataConstraint (A_HUB_INPUT A) (Some (cc_tokenProgramId config)),
          accountDataConstraint (A_HUB_OUTPUT A) (Some (cc_tokenProgramId config)),
          splTokenAuthorityConstraint (A_USER_INPUT A) vault (cc_tokenProgramId config),
          splTokenAuthorityConstraint (A_USER_OUTPUT A) vault (cc_tokenProgramId config),
          pubkeyConstraint (A_INPUT_MINT A) mints (Some (cc_tokenProgramId config)),
          pubkeyConstraint (A_OUTPUT_MINT A) mints (Some (cc_tokenProgramId config)),
          pubkeyConstraint (A_HUB_AUTHORIZER A) [cc_loyalHubAuthorizer config] None,
          pubkeyConstraint (A_TOKEN_PROGRAM A) [cc_tokenProgramId config] None],
       ic_dataConstraints =
         [dataU8Equals SWAP_EXACT_IN_TAG_OFFSET SWAP_EXACT_IN,
          dataU16LeLessThanOrEqualTo SWAP_EXACT_IN_MAX_FEE_BPS_DATA_OFFSET maxFeeBps]\<rparr>)"

definition subscriptionSweepConstraint ::
    "web3 \<Rightarrow> cluster_config \<Rightarrow> pubkey \<Rightarrow> pubkey \<Rightarrow> pubkey \<Rightarrow> pubkey \<Rightarrow> pubkey \<Rightarrow> js_integer \<Rightarrow> js_integer option \<Rightarrow>
     sdk_error + instruction_constraint" where
  "subscriptionSweepConstraint w config delegator vault mint delegatorUsdcAta vaultUsdcAta
     maxAmountPerPeriodRaw minimumDelegatorBalanceRaw =
     (let subscriptionAuthority = deriveSubscriptionAuthority w delegator mint;
          eventAuthority = deriveSubscriptionEventAuthority w;
          tokenProgram = cc_tokenProgramId config in
      rbind (recurringDelegationAccountConstraint w delegator vault subscriptionAuthority mint
               maxAmountPerPeriodRaw) (\<lambda>recurring.
      rbind (delegatorTokenBalanceConstraints tokenProgram minimumDelegatorBalanceRaw) (\<lambda>balance.
        Inr \<lparr>ic_programId = SUBSCRIPTIONS_PROGRAM_ID w,
             ic_accountConstraints =
               [recurring,
                pubkeyConstraint 1 [subscriptionAuthority] (Some (SUBSCRIPTIONS_PROGRAM_ID w)),
                pubkeyConstraint 2 [delegatorUsdcAta] (Some tokenProgram)] @ balance @
               [pubkeyConstraint 3 [vaultUsdcAta] (Some tokenProgram),
                pubkeyConstraint 4 [mint] (Some tokenProgram),
                pubkeyConstraint 5 [tokenProgram] None,
                pubkeyConstraint 6 [vault] None,
                pubkeyConstraint 7 [eventAuthority] None,
                pubkeyConstraint 8 [SUBSCRIPTIONS_PROGRAM_ID w] None],
             ic_dataConstraints =
               [dataU8Equals 0 SUBSCRIPTIONS_TRANSFER_RECURRING,
                dataSliceEquals SUBSCRIPTION_TRANSFER_DELEGATOR_OFFSET (key_numbers delegator),
                dataSliceEquals SUBSCRIPTION_TRANSFER_MINT_OFFSET (key_numbers mint)]\<rparr>)))"

end
