(* ===== verification/Sdk.thy ===== *)
theory Sdk
  imports Protocols
begin

text \<open>
  The policy plans of \<open>packages/loyal-actions/src/sdk.ts\<close>: validation of the input, the constraints of
  each policy, the instruction that creates it, and the routes and metadata handed to the caller.
  \<open>createLoyalActionsSdk\<close> only binds the configured cluster and smart account to these functions, which
  take them as fields of their input.
\<close>

section \<open>Validation\<close>

definition requirePolicySeed :: "js_integer option \<Rightarrow> sdk_error + int" where
  "requirePolicySeed policySeed =
     (case policySeed of None \<Rightarrow> Inl Policy_seed_is_required
      | Some s \<Rightarrow> normalizeU64 s ''policySeed'')"

definition validateVaultIndex :: "js_number \<Rightarrow> string \<Rightarrow> sdk_error + unit" where
  "validateVaultIndex vaultIndex name =
     (if \<not> isInteger vaultIndex \<or> int_value vaultIndex < 0 \<or> int_value vaultIndex > 255
      then Inl (Must_be_u8 name) else Inr ())"

definition VALID_MAX_FEE_BPS :: "int list" where
  "VALID_MAX_FEE_BPS = map max_fee_bps_value [Bps50, Bps75, Bps100, Bps125, Bps150]"

definition requireSmartAccountConfig :: "smart_account_config option \<Rightarrow> sdk_error + smart_account_config" where
  "requireSmartAccountConfig smartAccount =
     (case smartAccount of None \<Rightarrow> Inl Smart_account_config_is_required | Some c \<Rightarrow> Inr c)"

primrec validate_lanes :: "swap_lane list \<Rightarrow> swap_lane list \<Rightarrow> sdk_error + unit" where
  "validate_lanes [] seen = Inr ()"
| "validate_lanes (lane # lanes) seen =
     (if lane \<in> set seen then Inl Duplicate_swap_lane else validate_lanes lanes (seen @ [lane]))"

definition validate_maxFeeBps :: "int option \<Rightarrow> sdk_error + unit" where
  "validate_maxFeeBps m =
     (let maxFeeBps = (case m of None \<Rightarrow> DEFAULT_MAX_FEE_BPS | Some b \<Rightarrow> b) in
      if maxFeeBps \<notin> set VALID_MAX_FEE_BPS then Inl (Unsupported_max_fee_bps maxFeeBps) else Inr ())"

definition validateInput :: "yield_route_input \<Rightarrow> sdk_error + unit" where
  "validateInput input =
     rbind (validate_lanes (yr_swapLanes input) []) (\<lambda>_.
     rbind (validate_maxFeeBps (yr_maxFeeBps input)) (\<lambda>_.
     rbind (requirePolicySeed (yr_policySeed input)) (\<lambda>_.
       let i = sq_accountIndex (yr_squads input) in
       if \<not> isInteger i \<or> int_value i < 0 \<or> int_value i > 255
       then Inl (Must_be_u8 ''squads.accountIndex'') else Inr ())))"

definition validateJupiterCrossMintPolicyInput :: "cross_mint_input \<Rightarrow> sdk_error + unit" where
  "validateJupiterCrossMintPolicyInput input =
     (let m = cm_maxSlippageBps input in
      if \<not> isInteger m \<or> int_value m \<le> 0 \<or> int_value m > 10000 then Inl Max_slippage_bps_out_of_range
      else
        rbind (normalizeU64 (cm_dailySourceMintSpendingCap input) ''dailySourceMintSpendingCap'') (\<lambda>dailyCap.
        if dailyCap = 0 then Inl Daily_source_mint_spending_cap_must_be_positive
        else
          rbind (requirePolicySeed (cm_policySeed input)) (\<lambda>_.
            validateVaultIndex (sq_accountIndex (cm_squads input)) ''squads.accountIndex'')))"

definition validateSetupInput :: "yield_route_setup_input \<Rightarrow> sdk_error + unit" where
  "validateSetupInput input =
     rbind (requirePolicySeed (ys_policySeed input)) (\<lambda>_.
       validateVaultIndex (sq_accountIndex (ys_squads input)) ''squads.accountIndex'')"

definition validateYieldRoutingInput :: "vault_yield_routing_input \<Rightarrow> sdk_error + unit" where
  "validateYieldRoutingInput input =
     rbind (validate_maxFeeBps (vy_maxFeeBps input)) (\<lambda>_.
     rbind (requirePolicySeed (vy_policySeed input)) (\<lambda>_.
       validateVaultIndex (vy_vaultIndex input) ''vaultIndex''))"

definition validate_optional_u64 :: "js_integer option \<Rightarrow> string \<Rightarrow> sdk_error + unit" where
  "validate_optional_u64 v name =
     (case v of None \<Rightarrow> Inr () | Some x \<Rightarrow> rbind (normalizeU64 x name) (\<lambda>_. Inr ()))"

definition validateSubscriptionSweepInput :: "sweep_input \<Rightarrow> sdk_error + unit" where
  "validateSubscriptionSweepInput input =
     rbind (requirePolicySeed (sw_policySeed input)) (\<lambda>_.
     rbind (validateVaultIndex (sq_accountIndex (sw_squads input)) ''squads.accountIndex'') (\<lambda>_.
     rbind (normalizeU64 (sw_maxAmountPerPeriodRaw input) ''maxAmountPerPeriodRaw'') (\<lambda>_.
       validate_optional_u64 (sw_minimumDelegatorBalanceRaw input) ''minimumDelegatorBalanceRaw'')))"

definition validateVaultSubscriptionSweepInput :: "vault_sweep_input \<Rightarrow> sdk_error + unit" where
  "validateVaultSubscriptionSweepInput input =
     rbind (requirePolicySeed (vs_policySeed input)) (\<lambda>_.
     rbind (validateVaultIndex (vs_vaultIndex input) ''vaultIndex'') (\<lambda>_.
     rbind (normalizeU64 (vs_maxAmountPerPeriodRaw input) ''maxAmountPerPeriodRaw'') (\<lambda>_.
       validate_optional_u64 (vs_minimumDelegatorBalanceRaw input) ''minimumDelegatorBalanceRaw'')))"

section \<open>Shared parts of the plans\<close>

text \<open>
  \<open>context_of\<close> is the argument \<open>input.squads\<close> as the encoder reads it: a validated account index is
  the integer it denotes.
\<close>

definition context_of :: "squads_input \<Rightarrow> squads_context" where
  "context_of s =
     \<lparr>ctx_settings = sq_settings s, ctx_authority = sq_authority s,
      ctx_delegatedSigner = sq_delegatedSigner s, ctx_accountIndex = int_value (sq_accountIndex s),
      ctx_vault = sq_vault s\<rparr>"

definition lock_key :: "web3 \<Rightarrow> squads_input \<Rightarrow> string" where
  "lock_key w s = toBase58 w (sq_settings s) @ '':'' @ show_dec (nat (int_value (sq_accountIndex s)))"

definition deriveSquadsVault :: "web3 \<Rightarrow> pubkey \<Rightarrow> pubkey \<Rightarrow> js_number \<Rightarrow> sdk_error + pubkey" where
  "deriveSquadsVault w programId settings vaultIndex =
     rbind (validateVaultIndex vaultIndex ''vaultIndex'') (\<lambda>_.
       Inr (findProgramAddressSync w
         [SQUADS_SEED_PREFIX, settings, SQUADS_SEED_PREFIX, [word_of_int (int_value vaultIndex)]] programId))"

definition deriveUsdcTokenAccount :: "web3 \<Rightarrow> cluster_config \<Rightarrow> pubkey \<Rightarrow> pubkey \<Rightarrow> pubkey" where
  "deriveUsdcTokenAccount w config own mint =
     findProgramAddressSync w [own, cc_tokenProgramId config, mint] (cc_associatedTokenProgramId config)"

definition YIELD_ROUTE_UNIVERSE_PRESET :: string where
  "YIELD_ROUTE_UNIVERSE_PRESET = ''canonical_stable_kamino''"
definition YIELD_ROUTE_POLICY_THRESHOLD :: int where "YIELD_ROUTE_POLICY_THRESHOLD = 1"
definition YIELD_ROUTE_SETUP_MODES :: "string list" where
  "YIELD_ROUTE_SETUP_MODES = [''kamino_init_obligation'']"
definition DEFAULT_YIELD_ROUTING_SWAP_LANES :: "swap_lane list" where
  "DEFAULT_YIELD_ROUTING_SWAP_LANES = [Jupiter]"

definition yieldRouteModesForSwapLanes :: "swap_lane list \<Rightarrow> string list" where
  "yieldRouteModesForSwapLanes swapLanes =
     ''same_mint_kamino'' # map (\<lambda>lane. if lane = Jupiter then ''jupiter'' else ''loyal'') swapLanes"

section \<open>The yield-route policy\<close>

definition lane_constraint ::
    "web3 \<Rightarrow> cluster_config \<Rightarrow> pubkey \<Rightarrow> pubkey list \<Rightarrow> int \<Rightarrow> swap_lane \<Rightarrow> instruction_constraint" where
  "lane_constraint w config vault stableMints maxFeeBps lane =
     (if lane = Jupiter then jupiterConstraint w config vault stableMints maxFeeBps
      else loyalHubConstraint w config vault stableMints maxFeeBps)"

definition yield_route_constraints ::
    "web3 \<Rightarrow> cluster_config \<Rightarrow> pubkey \<Rightarrow> pubkey list \<Rightarrow> pubkey list \<Rightarrow> kamino_earn_target \<Rightarrow> swap_lane list \<Rightarrow> int \<Rightarrow>
     instruction_constraint list" where
  "yield_route_constraints w config vault markets stableMints target lanes maxFeeBps =
     [kaminoWithdrawConstraint w vault markets stableMints (kt_lendProgramId target)
        (kt_withdrawDiscriminator target)] @
     map (lane_constraint w config vault stableMints maxFeeBps) lanes @
     [kaminoDepositConstraint w vault markets stableMints (kt_lendProgramId target)
        (kt_depositDiscriminator target)]"

text \<open>The loop over \<open>input.swapLanes.entries()\<close>, with the lane's offset.\<close>

primrec lane_routes ::
    "web3 \<Rightarrow> pubkey \<Rightarrow> nat \<Rightarrow> nat \<Rightarrow> swap_lane list \<Rightarrow> yield_routes \<times> persisted_lane list \<Rightarrow>
     yield_routes \<times> persisted_lane list" where
  "lane_routes w actionAccount depositIndex offset [] acc = acc"
| "lane_routes w actionAccount depositIndex offset (lane # lanes) acc =
     (let route = \<lparr>ar_actionAccount = actionAccount,
                   ar_instructionConstraintIndexes = [0, offset + 1, depositIndex]\<rparr>;
          routes = (if lane = Jupiter then (fst acc)\<lparr>rt_jupiter := Some route\<rparr>
                    else (fst acc)\<lparr>rt_loyal := Some route\<rparr>);
          persisted = snd acc @ [\<lparr>pl_lane = lane, pl_actionAccount = toBase58 w actionAccount,
                                 pl_instructionConstraintIndexes = ar_instructionConstraintIndexes route\<rparr>] in
      lane_routes w actionAccount depositIndex (offset + 1) lanes (routes, persisted))"

definition createYieldRoutePolicyPlan :: "web3 \<Rightarrow> yield_route_input \<Rightarrow> sdk_error + yield_routes policy_plan" where
  "createYieldRoutePolicyPlan w input =
     (let config = clusterConfigFor w (yr_cluster input); squads = yr_squads input in
      rbind (validateInput input) (\<lambda>_.
      let maxFeeBps = (case yr_maxFeeBps input of None \<Rightarrow> DEFAULT_MAX_FEE_BPS | Some b \<Rightarrow> b);
          stableMints = getStablecoinMintsForCluster w (yr_cluster input) in
      if length (uniquePubkeys w stableMints) \<noteq> length stableMints
      then Inl Stablecoin_mint_registry_contains_duplicates
      else
        let kaminoMarkets = getRiskBasketMarketsForCluster w (yr_cluster input) (yr_risk input) in
        rbind (getKaminoUsdcEarnTargetForCluster w (yr_cluster input)) (\<lambda>target.
        rbind (requirePolicySeed (yr_policySeed input)) (\<lambda>policySeed.
        rbind (deriveActionAccount w config (sq_settings squads) (Bigint policySeed)) (\<lambda>actionAccount.
        let constraints = yield_route_constraints w config (sq_vault squads) kaminoMarkets stableMints target
              (yr_swapLanes input) maxFeeBps in
        rbind (createProgramInteractionPolicyInstruction w config (context_of squads) constraints
                 (Bigint policySeed) [] Compact) (\<lambda>instruction.
        let depositIndex = 1 + length (yr_swapLanes input);
            sameMint = \<lparr>ar_actionAccount = actionAccount, ar_instructionConstraintIndexes = [0, depositIndex]\<rparr>;
            (routes, persistenceSwapLanes) =
              lane_routes w actionAccount depositIndex 0 (yr_swapLanes input)
                (\<lparr>rt_sameMint = sameMint, rt_jupiter = None, rt_loyal = None\<rparr>, []) in
        Inr \<lparr>pp_instructions = [instruction], pp_actionAccount = actionAccount, pp_routes = routes,
             pp_spec = \<lparr>sp_risk = yr_risk input,
                        sp_stablecoins = getStablecoinsForCluster w (yr_cluster input),
                        sp_stableMints = stableMints, sp_kaminoMarkets = kaminoMarkets,
                        sp_kaminoLiquidityMints = stableMints, sp_swapLanes = yr_swapLanes input,
                        sp_maxFeeBps = maxFeeBps\<rparr>,
             pp_metadata = \<lparr>md_policySeed = policySeed, md_vaultIndex = sq_accountIndex squads,
                            md_vault = sq_vault squads, md_lockKey = lock_key w squads\<rparr>,
             pp_persistence = \<lparr>pe_riskProfile = yr_risk input,
                               pe_universePreset = YIELD_ROUTE_UNIVERSE_PRESET,
                               pe_routeModes = yieldRouteModesForSwapLanes (yr_swapLanes input),
                               pe_stableMints = map (toBase58 w) stableMints,
                               pe_kaminoMarkets = map (toBase58 w) kaminoMarkets,
                               pe_kaminoLiquidityMints = map (toBase58 w) stableMints,
                               pe_swapLanes = persistenceSwapLanes,
                               pe_threshold = YIELD_ROUTE_POLICY_THRESHOLD\<rparr>\<rparr>))))))"

definition createVaultYieldRoutingPolicyPlan ::
    "web3 \<Rightarrow> vault_yield_routing_input \<Rightarrow> sdk_error + yield_routes policy_plan" where
  "createVaultYieldRoutingPolicyPlan w input =
     (let config = clusterConfigFor w (vy_cluster input) in
      rbind (validateYieldRoutingInput input) (\<lambda>_.
      rbind (requireSmartAccountConfig (vy_smartAccount input)) (\<lambda>smartAccount.
      rbind (deriveSquadsVault w (cc_squadsSmartAccountProgramId config) (sa_settings smartAccount)
               (vy_vaultIndex input)) (\<lambda>vault.
        createYieldRoutePolicyPlan w
          \<lparr>yr_cluster = vy_cluster input, yr_policySeed = vy_policySeed input, yr_risk = vy_risk input,
           yr_swapLanes = DEFAULT_YIELD_ROUTING_SWAP_LANES, yr_maxFeeBps = vy_maxFeeBps input,
           yr_squads = \<lparr>sq_settings = sa_settings smartAccount, sq_authority = sa_authority smartAccount,
                        sq_delegatedSigner = sa_delegatedSigner smartAccount,
                        sq_accountIndex = vy_vaultIndex input, sq_vault = vault\<rparr>\<rparr>))))"

section \<open>The setup policy\<close>

record setup_routes =
  sr_initObligation :: action_route

definition createYieldRouteSetupPolicyPlan ::
    "web3 \<Rightarrow> yield_route_setup_input \<Rightarrow> sdk_error + setup_routes policy_plan" where
  "createYieldRouteSetupPolicyPlan w input =
     (let config = clusterConfigFor w (ys_cluster input); squads = ys_squads input in
      rbind (validateSetupInput input) (\<lambda>_.
      let stableMints = getStablecoinMintsForCluster w (ys_cluster input) in
      if length (uniquePubkeys w stableMints) \<noteq> length stableMints
      then Inl Stablecoin_mint_registry_contains_duplicates
      else
        let kaminoMarkets = getRiskBasketMarketsForCluster w (ys_cluster input) (ys_risk input) in
        rbind (getKaminoUsdcEarnTargetForCluster w (ys_cluster input)) (\<lambda>target.
        rbind (requirePolicySeed (ys_policySeed input)) (\<lambda>policySeed.
        rbind (deriveActionAccount w config (sq_settings squads) (Bigint policySeed)) (\<lambda>actionAccount.
        rbind (createProgramInteractionPolicyInstruction w config (context_of squads)
                 [kaminoInitObligationConstraint w (sq_vault squads) kaminoMarkets
                    (kt_lendProgramId target) (kt_initObligationDiscriminator target)]
                 (Bigint policySeed) [] Compact) (\<lambda>instruction.
        Inr \<lparr>pp_instructions = [instruction], pp_actionAccount = actionAccount,
             pp_routes = \<lparr>sr_initObligation =
               \<lparr>ar_actionAccount = actionAccount, ar_instructionConstraintIndexes = [0]\<rparr>\<rparr>,
             pp_spec = \<lparr>sp_risk = ys_risk input,
                        sp_stablecoins = getStablecoinsForCluster w (ys_cluster input),
                        sp_stableMints = stableMints, sp_kaminoMarkets = kaminoMarkets,
                        sp_kaminoLiquidityMints = stableMints, sp_swapLanes = [],
                        sp_maxFeeBps = DEFAULT_MAX_FEE_BPS\<rparr>,
             pp_metadata = \<lparr>md_policySeed = policySeed, md_vaultIndex = sq_accountIndex squads,
                            md_vault = sq_vault squads, md_lockKey = lock_key w squads\<rparr>,
             pp_persistence = \<lparr>pe_riskProfile = ys_risk input,
                               pe_universePreset = YIELD_ROUTE_UNIVERSE_PRESET,
                               pe_routeModes = YIELD_ROUTE_SETUP_MODES,
                               pe_stableMints = map (toBase58 w) stableMints,
                               pe_kaminoMarkets = map (toBase58 w) kaminoMarkets,
                               pe_kaminoLiquidityMints = map (toBase58 w) stableMints,
                               pe_swapLanes = [], pe_threshold = YIELD_ROUTE_POLICY_THRESHOLD\<rparr>\<rparr>))))))"

section \<open>Cross-mint policies\<close>

definition cross_mint_destinations ::
    "web3 \<Rightarrow> loyal_cluster \<Rightarrow> stablecoin list \<Rightarrow> sdk_error + (pubkey \<times> pubkey) list" where
  "cross_mint_destinations w cluster stablecoins =
     rmap_list (\<lambda>stablecoin.
       rbind (getStablecoinMintForCluster w cluster stablecoin) (\<lambda>mint.
       rbind (getStablecoinTokenProgramForCluster w cluster stablecoin) (\<lambda>tokenProgram.
         Inr (mint, tokenProgram)))) stablecoins"

definition cross_mint_sources ::
    "cluster_config \<Rightarrow> source_shard \<Rightarrow> (pubkey \<times> pubkey) list \<Rightarrow> pubkey list" where
  "cross_mint_sources config shard destinations =
     map fst (filter (\<lambda>(mint, tokenProgram).
       if shard = Classic then tokenProgram = cc_tokenProgramId config
       else tokenProgram \<noteq> cc_tokenProgramId config) destinations)"

definition createJupiterCrossMintPolicyPlan :: "web3 \<Rightarrow> cross_mint_input \<Rightarrow> sdk_error + cross_mint_plan" where
  "createJupiterCrossMintPolicyPlan w input =
     rbind (validateJupiterCrossMintPolicyInput input) (\<lambda>_.
     let config = clusterConfigFor w (cm_cluster input); squads = cm_squads input in
     rbind (requirePolicySeed (cm_policySeed input)) (\<lambda>policySeed.
     rbind (normalizeU64 (cm_dailySourceMintSpendingCap input) ''dailySourceMintSpendingCap'') (\<lambda>cap.
     let stablecoins = getStablecoinsForCluster w (cm_cluster input) in
     if length stablecoins \<noteq> 6 then Inl Cross_mint_requires_six_mint_registry
     else
       rbind (cross_mint_destinations w (cm_cluster input) stablecoins) (\<lambda>destinations.
       let sourceMints = cross_mint_sources config (cm_sourceShard input) destinations in
       if length sourceMints \<noteq> 3 then Inl Cross_mint_source_shard_must_contain_three_mints
       else
         rbind (deriveActionAccount w config (sq_settings squads) (Bigint policySeed)) (\<lambda>actionAccount.
         let slippage = int_value (cm_maxSlippageBps input);
             constraints =
               [jupiterCrossMintConstraint w config (sq_vault squads) destinations Route_v2 slippage,
                jupiterCrossMintConstraint w config (sq_vault squads) destinations Shared_accounts_route_v2
                  slippage] in
         rbind (createProgramInteractionPolicyInstruction w config (context_of squads) constraints
                  (Bigint policySeed)
                  (map (\<lambda>mint. \<lparr>sl_mint = mint, sl_maxPerPeriod = cap\<rparr>) sourceMints) Compact) (\<lambda>instruction.
         Inr \<lparr>xp_instructions = [instruction], xp_actionAccount = actionAccount,
              xp_routes =
                \<lparr>cr_routeV2 = \<lparr>ar_actionAccount = actionAccount, ar_instructionConstraintIndexes = [0]\<rparr>,
                 cr_sharedAccountsRouteV2 =
                   \<lparr>ar_actionAccount = actionAccount, ar_instructionConstraintIndexes = [1]\<rparr>\<rparr>,
              xp_spec =
                \<lparr>cp_sourceShard = cm_sourceShard input, cp_sourceMints = sourceMints,
                 cp_destinationMints = map fst destinations, cp_maxSlippageBps = cm_maxSlippageBps input,
                 cp_dailySourceMintSpendingCap = cap\<rparr>,
              xp_metadata =
                \<lparr>md_policySeed = policySeed, md_vaultIndex = sq_accountIndex squads,
                 md_vault = sq_vault squads, md_lockKey = lock_key w squads\<rparr>,
              xp_persistence =
                \<lparr>ce_sourceShard = cm_sourceShard input, ce_maxSlippageBps = cm_maxSlippageBps input,
                 ce_dailySourceMintSpendingCap = show_dec (nat cap)\<rparr>\<rparr>))))))"

definition createJupiterCrossMintPolicySet ::
    "web3 \<Rightarrow> cross_mint_set_input \<Rightarrow> sdk_error + (cross_mint_plan \<times> cross_mint_plan)" where
  "createJupiterCrossMintPolicySet w input =
     rbind (requirePolicySeed (cs_classicSeed input)) (\<lambda>classicSeed.
     rbind (requirePolicySeed (cs_token2022Seed input)) (\<lambda>token2022Seed.
     if classicSeed = token2022Seed then Inl Cross_mint_policy_seeds_must_be_distinct
     else
       let common = (\<lambda>seed shard.
             \<lparr>cm_cluster = cs_cluster input, cm_policySeed = Some (Bigint seed), cm_sourceShard = shard,
              cm_maxSlippageBps = cs_maxSlippageBps input,
              cm_dailySourceMintSpendingCap = cs_dailySourceMintSpendingCap input,
              cm_squads = cs_squads input\<rparr>) in
       rbind (createJupiterCrossMintPolicyPlan w (common classicSeed Classic)) (\<lambda>classic.
       rbind (createJupiterCrossMintPolicyPlan w (common token2022Seed Token2022)) (\<lambda>token2022.
         Inr (classic, token2022)))))"

section \<open>Subscription sweep policies\<close>

definition createSubscriptionSweepPolicyPlan :: "web3 \<Rightarrow> sweep_input \<Rightarrow> sdk_error + sweep_plan" where
  "createSubscriptionSweepPolicyPlan w input =
     (let config = clusterConfigFor w (sw_cluster input); squads = sw_squads input in
      rbind (validateSubscriptionSweepInput input) (\<lambda>_.
      rbind (requirePolicySeed (sw_policySeed input)) (\<lambda>policySeed.
      rbind (getStablecoinMintForCluster w (sw_cluster input) USDC) (\<lambda>mint.
      let delegatorUsdcAta = (case sw_delegatorUsdcAta input of Some a \<Rightarrow> a
            | None \<Rightarrow> deriveUsdcTokenAccount w config (sw_delegator input) mint);
          vaultUsdcAta = (case sw_vaultUsdcAta input of Some a \<Rightarrow> a
            | None \<Rightarrow> deriveUsdcTokenAccount w config (sq_vault squads) mint);
          subscriptionAuthority = deriveSubscriptionAuthority w (sw_delegator input) mint;
          eventAuthority = deriveSubscriptionEventAuthority w in
      rbind (deriveActionAccount w config (sq_settings squads) (Bigint policySeed)) (\<lambda>actionAccount.
      rbind (subscriptionSweepConstraint w config (sw_delegator input) (sq_vault squads) mint
               delegatorUsdcAta vaultUsdcAta (sw_maxAmountPerPeriodRaw input)
               (sw_minimumDelegatorBalanceRaw input)) (\<lambda>constraint.
      rbind (createProgramInteractionPolicyInstruction w config (context_of squads) [constraint]
               (Bigint policySeed) [] Compact) (\<lambda>instruction.
      Inr \<lparr>wp_instructions = [instruction], wp_actionAccount = actionAccount,
           wp_metadata =
             \<lparr>sm_policySeed = policySeed, sm_vaultIndex = sq_accountIndex squads, sm_vault = sq_vault squads,
              sm_delegator = sw_delegator input, sm_mint = mint,
              sm_subscriptionAuthority = subscriptionAuthority, sm_eventAuthority = eventAuthority,
              sm_delegatorUsdcAta = delegatorUsdcAta, sm_vaultUsdcAta = vaultUsdcAta,
              sm_lockKey = lock_key w squads\<rparr>\<rparr>)))))))"

definition createVaultSubscriptionSweepPolicyPlan :: "web3 \<Rightarrow> vault_sweep_input \<Rightarrow> sdk_error + sweep_plan" where
  "createVaultSubscriptionSweepPolicyPlan w input =
     (let config = clusterConfigFor w (vs_cluster input) in
      rbind (validateVaultSubscriptionSweepInput input) (\<lambda>_.
      rbind (requireSmartAccountConfig (vs_smartAccount input)) (\<lambda>smartAccount.
      rbind (deriveSquadsVault w (cc_squadsSmartAccountProgramId config) (sa_settings smartAccount)
               (vs_vaultIndex input)) (\<lambda>vault.
        createSubscriptionSweepPolicyPlan w
          \<lparr>sw_cluster = vs_cluster input, sw_policySeed = vs_policySeed input,
           sw_squads = \<lparr>sq_settings = sa_settings smartAccount, sq_authority = sa_authority smartAccount,
                        sq_delegatedSigner = sa_delegatedSigner smartAccount,
                        sq_accountIndex = vs_vaultIndex input, sq_vault = vault\<rparr>,
           sw_delegator = vs_delegator input, sw_maxAmountPerPeriodRaw = vs_maxAmountPerPeriodRaw input,
           sw_minimumDelegatorBalanceRaw = vs_minimumDelegatorBalanceRaw input,
           sw_delegatorUsdcAta = vs_delegatorUsdcAta input, sw_vaultUsdcAta = vs_vaultUsdcAta input\<rparr>))))"

end
