(* ===== verification/Squads_Codec.thy ===== *)
theory Squads_Codec
  imports Squads_Policy
begin

text \<open>
  Every encoder of \<open>internal/squads.ts\<close> satisfies the \<open>codec\<close> contract on values that fit their
  fields: it does not throw, and the reader of the format returns exactly the value written.  The
  \<open>wf\<close> predicates say what fits.
\<close>

section \<open>Values that fit their fields\<close>

primrec wf_data_value :: "data_value \<Rightarrow> bool" where
  "wf_data_value (DV_u8 v) = wf_u 1 v"
| "wf_data_value (DV_u16Le v) = wf_u 2 v"
| "wf_data_value (DV_u32Le v) = wf_u 4 v"
| "wf_data_value (DV_u64Le v) = wf_u 8 v"
| "wf_data_value (DV_u128Le v) = wf_u 16 v"
| "wf_data_value (DV_u8Slice vs) = (length vs < 2 ^ 32 \<and> (\<forall>v \<in> set vs. wf_u 1 v))"

definition wf_data_constraint :: "data_constraint \<Rightarrow> bool" where
  "wf_data_constraint c \<longleftrightarrow> wf_u 8 (dc_dataOffset c) \<and> wf_data_value (dc_dataValue c)"

definition wf_spending_limit :: "daily_spending_limit \<Rightarrow> bool" where
  "wf_spending_limit l \<longleftrightarrow> wf_pubkey (sl_mint l) \<and> wf_u 8 (sl_maxPerPeriod l)"

definition wf_index :: "nat \<Rightarrow> bool" where
  "wf_index i \<longleftrightarrow> i \<le> 255"

primrec wf_compiled_kind :: "compiled_account_kind \<Rightarrow> bool" where
  "wf_compiled_kind (CK_pubkey ixs) = (length ixs \<le> 255 \<and> (\<forall>i \<in> set ixs. wf_index i))"
| "wf_compiled_kind (CK_accountData ds) = (length ds \<le> 255 \<and> (\<forall>d \<in> set ds. wf_data_constraint d))"

primrec wf_account_kind :: "account_kind \<Rightarrow> bool" where
  "wf_account_kind (AK_pubkey ks) = (length ks \<le> 255 \<and> (\<forall>k \<in> set ks. wf_pubkey k))"
| "wf_account_kind (AK_accountData ds) = (length ds \<le> 255 \<and> (\<forall>d \<in> set ds. wf_data_constraint d))"

definition wf_compiled_account :: "compiled_account_constraint \<Rightarrow> bool" where
  "wf_compiled_account c \<longleftrightarrow>
     wf_u 1 (c_accountIndex c) \<and> (\<forall>i. c_ownerIndex c = Some i \<longrightarrow> wf_index i) \<and>
     wf_compiled_kind (c_kind c)"

definition wf_compiled_instruction :: "compiled_instruction_constraint \<Rightarrow> bool" where
  "wf_compiled_instruction c \<longleftrightarrow>
     wf_index (c_programIdIndex c) \<and>
     length (c_accountConstraints c) \<le> 255 \<and> (\<forall>a \<in> set (c_accountConstraints c). wf_compiled_account a) \<and>
     length (c_dataConstraints c) \<le> 255 \<and> (\<forall>d \<in> set (c_dataConstraints c). wf_data_constraint d)"

definition wf_compiled_payload :: "compiled_payload \<Rightarrow> bool" where
  "wf_compiled_payload p \<longleftrightarrow>
     wf_u 1 (p_accountIndex p) \<and>
     length (p_pubkeyTable p) \<le> 255 \<and> (\<forall>k \<in> set (p_pubkeyTable p). wf_pubkey k) \<and>
     length (p_instructionConstraints p) \<le> 255 \<and>
     (\<forall>c \<in> set (p_instructionConstraints p). wf_compiled_instruction c) \<and>
     length (p_spendingLimits p) \<le> 255 \<and> (\<forall>l \<in> set (p_spendingLimits p). wf_spending_limit l)"

definition wf_account_constraint :: "account_constraint \<Rightarrow> bool" where
  "wf_account_constraint c \<longleftrightarrow>
     wf_u 1 (ac_accountIndex c) \<and> (\<forall>k. ac_owner c = Some k \<longrightarrow> wf_pubkey k) \<and>
     wf_account_kind (ac_kind c)"

definition wf_instruction_constraint :: "instruction_constraint \<Rightarrow> bool" where
  "wf_instruction_constraint c \<longleftrightarrow>
     wf_pubkey (ic_programId c) \<and>
     length (ic_accountConstraints c) \<le> 255 \<and> (\<forall>a \<in> set (ic_accountConstraints c). wf_account_constraint a) \<and>
     length (ic_dataConstraints c) \<le> 255 \<and> (\<forall>d \<in> set (ic_dataConstraints c). wf_data_constraint d)"

section \<open>Data constraints\<close>

lemma le_bytes_append: "le_bytes (m + n) v = le_bytes m v @ le_bytes n (v div 256 ^ m)"
  by (induction m arbitrary: v) (simp_all add: zdiv_zmult2_eq)

lemma le_bytes_mask: "le_bytes n (v mod 256 ^ n) = le_bytes n v"
proof (induction n arbitrary: v)
  case (Suc n)
  have "v mod (256 * 256 ^ n) div 256 = v div 256 mod 256 ^ n"
    by (simp add: zmod_zmult2_eq)
  moreover have "(word_of_int (v mod (256 * 256 ^ n)) :: u8) = word_of_int v"
    by (simp add: word_uint_eq_iff uint_word_of_int mod_mod_cancel)
  ultimately show ?case using Suc by simp
qed simp

lemma u128_bytes:
  "le_bytes 8 (and v 0xffffffffffffffff) @ le_bytes 8 (drop_bit 64 v) = le_bytes 16 v"
proof -
  have "and v 0xffffffffffffffff = v mod 256 ^ 8"
    using take_bit_eq_mask [of 64 v] by (simp add: take_bit_eq_mod mask_eq_exp_minus_1)
  moreover have "drop_bit 64 v = v div 256 ^ 8" by (simp add: drop_bit_eq_div)
  ultimately show ?thesis
    using le_bytes_append [of 8 8 v] le_bytes_mask [of 8 v] by (simp del: le_bytes.simps)
qed

interpretation byte_vecc: vec_codec pushU8 "read_le 1" "wf_u 1"
  by unfold_locales

interpretation data_valuec: codec encodeDataValue read_data_value wf_data_value
proof
  fix v assume wf: "wf_data_value v"
  have "\<exists>bs. (\<forall>e. encodeDataValue v e = Inr (e @ bs)) \<and> (\<forall>r. read_data_value (bs @ r) = Some (v, r))"
    (is "\<exists>bs. ?E bs \<and> ?D bs")
  proof (cases v)
    case (DV_u8 x)
    with wf show ?thesis
      by (intro exI [of _ "0 # le_bytes 1 x"])
        (simp add: pushU8_bytes read_data_value_def wf_u_def uint_word_of_int)
  next
    case (DV_u16Le x)
    with wf show ?thesis
      by (intro exI [of _ "1 # le_bytes 2 x"])
        (simp add: pushU8_bytes pushU16_bytes read_data_value_def wf_u_def read_le_bytes)
  next
    case (DV_u32Le x)
    with wf show ?thesis
      by (intro exI [of _ "2 # le_bytes 4 x"])
        (simp add: pushU8_bytes pushU32_bytes read_data_value_def wf_u_def read_le_bytes)
  next
    case (DV_u64Le x)
    with wf show ?thesis
      by (intro exI [of _ "3 # le_bytes 8 x"])
        (simp add: pushU8_bytes pushU64_bytes read_data_value_def wf_u_def read_le_bytes)
  next
    case (DV_u128Le x)
    with wf show ?thesis
      by (intro exI [of _ "4 # le_bytes 16 x"])
        (simp add: pushU8_bytes pushU64_bytes read_data_value_def wf_u_def read_le_bytes u128_bytes)
  next
    case (DV_u8Slice xs)
    with wf obtain bs where "\<And>e. pushVec xs pushU8 e = Inr (e @ bs)"
      "\<And>r. read_vec (read_le 1) (bs @ r) = Some (xs, r)"
      using byte_vecc.vec.enc_appends [of xs] by auto
    with DV_u8Slice show ?thesis
      by (intro exI [of _ "5 # bs"]) (simp add: pushU8_bytes read_data_value_def)
  qed
  then show "\<exists>bs. ?E bs \<and> ?D bs" .
qed

lemma read_operatorTag:
  "read_le 1 (le_bytes 1 (operatorTag op) @ r) = Some (operatorTag op, r)"
  "tag_operator (operatorTag op) = Some op"
  by (cases op; simp add: tag_operator_def)+

interpretation data_constraintc: codec encodeDataConstraint read_data_constraint wf_data_constraint
proof
  fix c assume "wf_data_constraint c"
  then obtain o_bs v_bs where
      "\<And>e. pushU64 (dc_dataOffset c) e = Inr (e @ o_bs)" "\<And>r. read_le 8 (o_bs @ r) = Some (dc_dataOffset c, r)"
      "\<And>e. encodeDataValue (dc_dataValue c) e = Inr (e @ v_bs)"
      "\<And>r. read_data_value (v_bs @ r) = Some (dc_dataValue c, r)"
    unfolding wf_data_constraint_def by (metis u64c.roundtrip data_valuec.roundtrip)
  then show "\<exists>bs. (\<forall>e. encodeDataConstraint c e = Inr (e @ bs)) \<and>
      (\<forall>r. read_data_constraint (bs @ r) = Some (c, r))"
    by (intro exI [of _ "o_bs @ v_bs @ le_bytes 1 (operatorTag (dc_operator c))"])
      (simp add: encodeDataConstraint_def read_data_constraint_def pushU8_bytes read_operatorTag
        del: le_bytes.simps read_le.simps One_nat_def)
qed

section \<open>Compact encoding\<close>

lemma expect_append [decode_simps]: "expect lit (lit @ r) = Some ((), r)"
  by (simp add: expect_def)

interpretation spending_limitc: codec encodeSpendingLimit read_spending_limit wf_spending_limit
proof
  fix l assume "wf_spending_limit l"
  then obtain k_bs m_bs where
      "\<And>e. pushPubkey (sl_mint l) e = Inr (e @ k_bs)" "\<And>r. read_bytes 32 (k_bs @ r) = Some (sl_mint l, r)"
      "\<And>e. pushU64 (sl_maxPerPeriod l) e = Inr (e @ m_bs)" "\<And>r. read_le 8 (m_bs @ r) = Some (sl_maxPerPeriod l, r)"
    unfolding wf_spending_limit_def by (metis u64c.roundtrip pubkeyc.roundtrip)
  moreover have "expect (le_bytes 8 0 @ [0, 1]) (le_bytes 8 0 @ 0 # 1 # r) = Some ((), r)" for r
    using expect_append [of "le_bytes 8 0 @ [0, 1]" r] by simp
  moreover have "pushU8 SQUADS_PERIOD_V2_DAILY e = Inr (e @ [1])" for e
    by (simp add: pushU8_bytes squads_constants)
  moreover have "pushI64 0 e = Inr (e @ le_bytes 8 0)" for e
    by (simp add: pushI64_bytes)
  ultimately show "\<exists>bs. (\<forall>e. encodeSpendingLimit l e = Inr (e @ bs)) \<and>
      (\<forall>r. read_spending_limit (bs @ r) = Some (l, r))"
    by (intro exI [of _ "k_bs @ le_bytes 8 0 @ [0, 1] @ m_bs"])
      (simp add: encodeSpendingLimit_def read_spending_limit_def pushOption_None del: le_bytes.simps)
qed

interpretation indexc: codec "\<lambda>i. pushU8 (int i)" read_index wf_index
  by unfold_locales
    (auto simp: wf_index_def read_index_def pushU8_bytes unat_of_nat intro!: exI)

interpretation key_svecc: small_vec_codec pushPubkey "read_bytes 32" wf_pubkey
  by unfold_locales

interpretation index_svecc: small_vec_codec "\<lambda>i. pushU8 (int i)" read_index wf_index
  by unfold_locales

interpretation index_optc: option_codec "\<lambda>i. pushU8 (int i)" read_index wf_index
  by unfold_locales

interpretation data_svecc: small_vec_codec encodeDataConstraint read_data_constraint wf_data_constraint
  by unfold_locales

interpretation limit_svecc: small_vec_codec encodeSpendingLimit read_spending_limit wf_spending_limit
  by unfold_locales

interpretation compiled_kindc:
  codec encodeCompiledAccountKind read_compiled_account_kind wf_compiled_kind
proof
  fix k assume wf: "wf_compiled_kind k"
  show "\<exists>bs. (\<forall>e. encodeCompiledAccountKind k e = Inr (e @ bs)) \<and>
      (\<forall>r. read_compiled_account_kind (bs @ r) = Some (k, r))"
  proof (cases k)
    case (CK_pubkey ixs)
    with wf have "length ixs \<le> 255 \<and> (\<forall>i \<in> set ixs. wf_index i)" by simp
    then obtain bs where "\<And>e. pushSmallVec ixs (\<lambda>i. pushU8 (int i)) e = Inr (e @ bs)"
      "\<And>r. read_small_vec read_index (bs @ r) = Some (ixs, r)"
      by (elim index_svecc.small_vec.enc_appends) blast
    with CK_pubkey show ?thesis
      by (intro exI [of _ "0 # bs"]) (simp add: pushU8_bytes read_compiled_account_kind_def)
  next
    case (CK_accountData ds)
    with wf have "length ds \<le> 255 \<and> (\<forall>d \<in> set ds. wf_data_constraint d)" by simp
    then obtain bs where "\<And>e. pushSmallVec ds encodeDataConstraint e = Inr (e @ bs)"
      "\<And>r. read_small_vec read_data_constraint (bs @ r) = Some (ds, r)"
      by (elim data_svecc.small_vec.enc_appends) blast
    with CK_accountData show ?thesis
      by (intro exI [of _ "1 # bs"]) (simp add: pushU8_bytes read_compiled_account_kind_def)
  qed
qed

interpretation compiled_accountc:
  codec encodeCompiledAccountConstraint read_compiled_account_constraint wf_compiled_account
proof
  fix c assume "wf_compiled_account c"
  then have "wf_u 1 (c_accountIndex c)" "wf_compiled_kind (c_kind c)"
    "\<forall>i. c_ownerIndex c = Some i \<longrightarrow> wf_index i"
    by (simp_all add: wf_compiled_account_def)
  then obtain a k ow where
      "\<And>e. pushU8 (c_accountIndex c) e = Inr (e @ a)" "\<And>r. read_le 1 (a @ r) = Some (c_accountIndex c, r)"
      "\<And>e. encodeCompiledAccountKind (c_kind c) e = Inr (e @ k)"
      "\<And>r. read_compiled_account_kind (k @ r) = Some (c_kind c, r)"
      "\<And>e. pushOption (c_ownerIndex c) (\<lambda>i. pushU8 (int i)) e = Inr (e @ ow)"
      "\<And>r. read_option read_index (ow @ r) = Some (c_ownerIndex c, r)"
    by (elim u8c.enc_appends compiled_kindc.enc_appends index_optc.opt.enc_appends) blast
  then show "\<exists>bs. (\<forall>e. encodeCompiledAccountConstraint c e = Inr (e @ bs)) \<and>
      (\<forall>r. read_compiled_account_constraint (bs @ r) = Some (c, r))"
    by (intro exI [of _ "a @ k @ ow"])
      (simp add: encodeCompiledAccountConstraint_def read_compiled_account_constraint_def
        del: read_le.simps One_nat_def)
qed

interpretation account_svecc:
  small_vec_codec encodeCompiledAccountConstraint read_compiled_account_constraint wf_compiled_account
  by unfold_locales

interpretation compiled_instructionc:
  codec encodeCompiledInstructionConstraint read_compiled_instruction_constraint wf_compiled_instruction
proof
  fix c assume "wf_compiled_instruction c"
  then have "wf_index (c_programIdIndex c)"
    "length (c_accountConstraints c) \<le> 255 \<and> (\<forall>a \<in> set (c_accountConstraints c). wf_compiled_account a)"
    "length (c_dataConstraints c) \<le> 255 \<and> (\<forall>d \<in> set (c_dataConstraints c). wf_data_constraint d)"
    by (simp_all add: wf_compiled_instruction_def)
  then obtain p as ds where
      "\<And>e. pushU8 (int (c_programIdIndex c)) e = Inr (e @ p)"
      "\<And>r. read_index (p @ r) = Some (c_programIdIndex c, r)"
      "\<And>e. pushSmallVec (c_accountConstraints c) encodeCompiledAccountConstraint e = Inr (e @ as)"
      "\<And>r. read_small_vec read_compiled_account_constraint (as @ r) = Some (c_accountConstraints c, r)"
      "\<And>e. pushSmallVec (c_dataConstraints c) encodeDataConstraint e = Inr (e @ ds)"
      "\<And>r. read_small_vec read_data_constraint (ds @ r) = Some (c_dataConstraints c, r)"
    by (elim indexc.enc_appends account_svecc.small_vec.enc_appends data_svecc.small_vec.enc_appends) blast
  then show "\<exists>bs. (\<forall>e. encodeCompiledInstructionConstraint c e = Inr (e @ bs)) \<and>
      (\<forall>r. read_compiled_instruction_constraint (bs @ r) = Some (c, r))"
    by (intro exI [of _ "p @ as @ ds"])
      (simp add: encodeCompiledInstructionConstraint_def read_compiled_instruction_constraint_def)
qed

interpretation instruction_svecc:
  small_vec_codec encodeCompiledInstructionConstraint read_compiled_instruction_constraint wf_compiled_instruction
  by unfold_locales

interpretation compiled_payloadc: codec encodeProgramInteractionPayload read_compiled_payload wf_compiled_payload
proof
  fix p assume "wf_compiled_payload p"
  then have "wf_u 1 (p_accountIndex p)"
    "length (p_pubkeyTable p) \<le> 255 \<and> (\<forall>k \<in> set (p_pubkeyTable p). wf_pubkey k)"
    "length (p_instructionConstraints p) \<le> 255 \<and>
      (\<forall>c \<in> set (p_instructionConstraints p). wf_compiled_instruction c)"
    "length (p_spendingLimits p) \<le> 255 \<and> (\<forall>l \<in> set (p_spendingLimits p). wf_spending_limit l)"
    by (simp_all add: wf_compiled_payload_def)
  then obtain a t cs ls where
      "\<And>e. pushU8 (p_accountIndex p) e = Inr (e @ a)" "\<And>r. read_le 1 (a @ r) = Some (p_accountIndex p, r)"
      "\<And>e. pushSmallVec (p_pubkeyTable p) pushPubkey e = Inr (e @ t)"
      "\<And>r. read_small_vec (read_bytes 32) (t @ r) = Some (p_pubkeyTable p, r)"
      "\<And>e. pushSmallVec (p_instructionConstraints p) encodeCompiledInstructionConstraint e = Inr (e @ cs)"
      "\<And>r. read_small_vec read_compiled_instruction_constraint (cs @ r) = Some (p_instructionConstraints p, r)"
      "\<And>e. pushSmallVec (p_spendingLimits p) encodeSpendingLimit e = Inr (e @ ls)"
      "\<And>r. read_small_vec read_spending_limit (ls @ r) = Some (p_spendingLimits p, r)"
    by (elim u8c.enc_appends key_svecc.small_vec.enc_appends instruction_svecc.small_vec.enc_appends
        limit_svecc.small_vec.enc_appends) blast
  moreover have "expect [0, 0] (0 # 0 # r) = Some ((), r)" for r
    by (simp add: expect_def)
  ultimately show "\<exists>bs. (\<forall>e. encodeProgramInteractionPayload p e = Inr (e @ bs)) \<and>
      (\<forall>r. read_compiled_payload (bs @ r) = Some (p, r))"
    by (intro exI [of _ "a @ t @ cs @ [0, 0] @ ls"])
      (simp add: encodeProgramInteractionPayload_def read_compiled_payload_def pushOption_None
        del: read_le.simps One_nat_def)
qed

section \<open>Legacy encoding\<close>

interpretation key_vecc: vec_codec pushPubkey "read_bytes 32" wf_pubkey
  by unfold_locales

interpretation key_optc: option_codec pushPubkey "read_bytes 32" wf_pubkey
  by unfold_locales

interpretation data_vecc: vec_codec encodeDataConstraint read_data_constraint wf_data_constraint
  by unfold_locales

interpretation limit_vecc: vec_codec encodeSpendingLimit read_spending_limit wf_spending_limit
  by unfold_locales

interpretation legacy_kindc: codec encodeLegacyAccountKind read_legacy_account_kind wf_account_kind
proof
  fix k assume wf: "wf_account_kind k"
  show "\<exists>bs. (\<forall>e. encodeLegacyAccountKind k e = Inr (e @ bs)) \<and>
      (\<forall>r. read_legacy_account_kind (bs @ r) = Some (k, r))"
  proof (cases k)
    case (AK_pubkey ks)
    with wf have "length ks < 2 ^ 32 \<and> (\<forall>k \<in> set ks. wf_pubkey k)" by simp
    then obtain bs where "\<And>e. pushVec ks pushPubkey e = Inr (e @ bs)"
      "\<And>r. read_vec (read_bytes 32) (bs @ r) = Some (ks, r)"
      by (elim key_vecc.vec.enc_appends) blast
    with AK_pubkey show ?thesis
      by (intro exI [of _ "0 # bs"]) (simp add: pushU8_bytes read_legacy_account_kind_def)
  next
    case (AK_accountData ds)
    with wf have "length ds < 2 ^ 32 \<and> (\<forall>d \<in> set ds. wf_data_constraint d)" by simp
    then obtain bs where "\<And>e. pushVec ds encodeDataConstraint e = Inr (e @ bs)"
      "\<And>r. read_vec read_data_constraint (bs @ r) = Some (ds, r)"
      by (elim data_vecc.vec.enc_appends) blast
    with AK_accountData show ?thesis
      by (intro exI [of _ "1 # bs"]) (simp add: pushU8_bytes read_legacy_account_kind_def)
  qed
qed

interpretation legacy_accountc:
  codec encodeLegacyAccountConstraint read_legacy_account_constraint wf_account_constraint
proof
  fix c assume "wf_account_constraint c"
  then have "wf_u 1 (ac_accountIndex c)" "wf_account_kind (ac_kind c)"
    "\<forall>k. ac_owner c = Some k \<longrightarrow> wf_pubkey k"
    by (simp_all add: wf_account_constraint_def)
  then obtain a k ow where
      "\<And>e. pushU8 (ac_accountIndex c) e = Inr (e @ a)" "\<And>r. read_le 1 (a @ r) = Some (ac_accountIndex c, r)"
      "\<And>e. encodeLegacyAccountKind (ac_kind c) e = Inr (e @ k)"
      "\<And>r. read_legacy_account_kind (k @ r) = Some (ac_kind c, r)"
      "\<And>e. pushOption (ac_owner c) pushPubkey e = Inr (e @ ow)"
      "\<And>r. read_option (read_bytes 32) (ow @ r) = Some (ac_owner c, r)"
    by (elim u8c.enc_appends legacy_kindc.enc_appends key_optc.opt.enc_appends) blast
  then show "\<exists>bs. (\<forall>e. encodeLegacyAccountConstraint c e = Inr (e @ bs)) \<and>
      (\<forall>r. read_legacy_account_constraint (bs @ r) = Some (c, r))"
    by (intro exI [of _ "a @ k @ ow"])
      (simp add: encodeLegacyAccountConstraint_def read_legacy_account_constraint_def
        del: read_le.simps One_nat_def)
qed

interpretation legacy_account_vecc:
  vec_codec encodeLegacyAccountConstraint read_legacy_account_constraint wf_account_constraint
  by unfold_locales

interpretation legacy_instructionc:
  codec encodeLegacyInstructionConstraint read_legacy_instruction_constraint wf_instruction_constraint
proof
  fix c assume "wf_instruction_constraint c"
  then have "wf_pubkey (ic_programId c)"
    "length (ic_accountConstraints c) < 2 ^ 32 \<and> (\<forall>a \<in> set (ic_accountConstraints c). wf_account_constraint a)"
    "length (ic_dataConstraints c) < 2 ^ 32 \<and> (\<forall>d \<in> set (ic_dataConstraints c). wf_data_constraint d)"
    by (simp_all add: wf_instruction_constraint_def)
  then obtain p as ds where
      "\<And>e. pushPubkey (ic_programId c) e = Inr (e @ p)"
      "\<And>r. read_bytes 32 (p @ r) = Some (ic_programId c, r)"
      "\<And>e. pushVec (ic_accountConstraints c) encodeLegacyAccountConstraint e = Inr (e @ as)"
      "\<And>r. read_vec read_legacy_account_constraint (as @ r) = Some (ic_accountConstraints c, r)"
      "\<And>e. pushVec (ic_dataConstraints c) encodeDataConstraint e = Inr (e @ ds)"
      "\<And>r. read_vec read_data_constraint (ds @ r) = Some (ic_dataConstraints c, r)"
    by (elim pubkeyc.enc_appends legacy_account_vecc.vec.enc_appends data_vecc.vec.enc_appends) blast
  then show "\<exists>bs. (\<forall>e. encodeLegacyInstructionConstraint c e = Inr (e @ bs)) \<and>
      (\<forall>r. read_legacy_instruction_constraint (bs @ r) = Some (c, r))"
    by (intro exI [of _ "p @ as @ ds"])
      (simp add: encodeLegacyInstructionConstraint_def read_legacy_instruction_constraint_def)
qed

interpretation legacy_instruction_vecc:
  vec_codec encodeLegacyInstructionConstraint read_legacy_instruction_constraint wf_instruction_constraint
  by unfold_locales

end
