(* ===== verification/Squads_Compile.thy ===== *)
theory Squads_Compile
  imports Squads_Codec
begin

text \<open>
  What the bytes of a policy-creation instruction mean.  \<open>resolve_payload\<close> replaces every index of a
  compiled payload by the key it points to, and \<open>read_policy_creation\<close> reads the instruction data of
  either encoding back into the policy it creates.  The theorems connect the two ends: the policy
  that is read is the policy that was requested.
\<close>

section \<open>The meaning of a compiled payload\<close>

definition lookup_key :: "pubkey list \<Rightarrow> nat \<Rightarrow> pubkey option" where
  "lookup_key t i = (if i < length t then Some (t ! i) else None)"

primrec resolve_kind :: "pubkey list \<Rightarrow> compiled_account_kind \<Rightarrow> account_kind option" where
  "resolve_kind t (CK_pubkey ixs) = map_option AK_pubkey (those (map (lookup_key t) ixs))"
| "resolve_kind t (CK_accountData ds) = Some (AK_accountData ds)"

definition resolve_owner :: "pubkey list \<Rightarrow> nat option \<Rightarrow> pubkey option option" where
  "resolve_owner t oi = (case oi of None \<Rightarrow> Some None | Some i \<Rightarrow> map_option Some (lookup_key t i))"

definition resolve_account :: "pubkey list \<Rightarrow> compiled_account_constraint \<Rightarrow> account_constraint option" where
  "resolve_account t c = do {
     k \<leftarrow> resolve_kind t (c_kind c);
     own \<leftarrow> resolve_owner t (c_ownerIndex c);
     Some \<lparr>ac_accountIndex = c_accountIndex c, ac_kind = k, ac_owner = own\<rparr> }"

definition resolve_instruction ::
    "pubkey list \<Rightarrow> compiled_instruction_constraint \<Rightarrow> instruction_constraint option" where
  "resolve_instruction t c = do {
     p \<leftarrow> lookup_key t (c_programIdIndex c);
     as \<leftarrow> those (map (resolve_account t) (c_accountConstraints c));
     Some \<lparr>ic_programId = p, ic_accountConstraints = as, ic_dataConstraints = c_dataConstraints c\<rparr> }"

definition resolve_payload :: "compiled_payload \<Rightarrow> instruction_constraint list option" where
  "resolve_payload p = those (map (resolve_instruction (p_pubkeyTable p)) (p_instructionConstraints p))"

section \<open>Reading a policy-creation instruction\<close>

record policy_creation =
  pc_seed :: int
  pc_accountIndex :: int
  pc_constraints :: "instruction_constraint list"
  pc_spendingLimits :: "daily_spending_limit list"
  pc_signer :: pubkey

definition read_compact_body ::
    "(int \<times> instruction_constraint list \<times> daily_spending_limit list) reader" where
  "read_compact_body bs = do {
     (p, r) \<leftarrow> read_compiled_payload bs;
     cs \<leftarrow> resolve_payload p;
     Some ((p_accountIndex p, cs, p_spendingLimits p), r) }"

definition read_legacy_body ::
    "(int \<times> instruction_constraint list \<times> daily_spending_limit list) reader" where
  "read_legacy_body bs = do {
     (ai, r) \<leftarrow> read_le 1 bs;
     (cs, r) \<leftarrow> read_vec read_legacy_instruction_constraint r;
     (_, r) \<leftarrow> expect [0, 0] r;
     (ls, r) \<leftarrow> read_vec read_spending_limit r;
     Some ((ai, cs, ls), r) }"

definition creation_header :: "u8 list" where
  "creation_header = EXECUTE_SETTINGS_TRANSACTION_SYNC_DISCRIMINATOR @ [1, 1, 0, 0, 0, 7]"

text \<open>After the signer: all permissions, threshold one, no time lock, no start, no expiration, no memo.\<close>

definition creation_trailer :: "u8 list" where
  "creation_trailer = [7, 1, 0, 0, 0, 0, 0, 0, 0, 0]"

definition read_policy_creation :: "u8 list \<Rightarrow> policy_creation option" where
  "read_policy_creation bs = do {
     (_, r) \<leftarrow> expect creation_header bs;
     (seed, r) \<leftarrow> read_le 8 r;
     (t, r) \<leftarrow> read_le 1 r;
     ((ai, cs, ls), r) \<leftarrow> (if t = 4 then read_compact_body r else if t = 3 then read_legacy_body r else None);
     (_, r) \<leftarrow> expect [1, 0, 0, 0] r;
     (signer, r) \<leftarrow> read_bytes 32 r;
     (_, r) \<leftarrow> expect creation_trailer r;
     if r = [] then
       Some \<lparr>pc_seed = seed, pc_accountIndex = ai, pc_constraints = cs, pc_spendingLimits = ls, pc_signer = signer\<rparr>
     else None }"

section \<open>The key table\<close>

definition table_ok :: "pubkey list \<Rightarrow> bool" where
  "table_ok t \<longleftrightarrow> distinct t \<and> length t \<le> 240 \<and> (\<forall>k \<in> set t. wf_pubkey k)"

lemma lookup_key_mono: "prefix t t' \<Longrightarrow> lookup_key t i = Some k \<Longrightarrow> lookup_key t' i = Some k"
  by (auto simp: lookup_key_def prefix_def nth_append split: if_splits)

lemma lookup_key_index: "table_ok t \<Longrightarrow> lookup_key t i = Some k \<Longrightarrow> wf_index i"
  by (auto simp: lookup_key_def table_ok_def wf_index_def split: if_splits)

lemma pubkeyTableIndex_step:
  assumes inj: "inj_on (toBase58 w) {k. wf_pubkey k}" and k: "wf_pubkey k" and t: "table_ok t"
    and run: "pubkeyTableIndex w k t = Inr (i, t')"
  shows "table_ok t' \<and> prefix t t' \<and> lookup_key t' i = Some k"
proof (cases "findIndex (\<lambda>c. toBase58 w c = toBase58 w k) t")
  case None
  then have "k \<notin> set t" by (auto simp: findIndex_None)
  with None run k t show ?thesis
    by (auto simp: pubkeyTableIndex_def table_ok_def lookup_key_def split: if_splits)
next
  case (Some j)
  then have j: "j < length t" "toBase58 w (t ! j) = toBase58 w k" by (auto dest: findIndex_Some)
  then have "t ! j = k" using inj k t by (auto simp: table_ok_def inj_on_def)
  with Some j run t show ?thesis by (auto simp: pubkeyTableIndex_def lookup_key_def)
qed

lemma those_map_list_all2:
  "those (map f ys) = Some xs \<longleftrightarrow> list_all2 (\<lambda>x y. f y = Some x) xs ys"
proof (induction ys arbitrary: xs)
  case (Cons y ys)
  then show ?case by (cases xs) (auto split: option.splits)
qed auto

lemma those_map_mono:
  "those (map f ys) = Some xs \<Longrightarrow> (\<And>x y. f y = Some x \<Longrightarrow> g y = Some x) \<Longrightarrow> those (map g ys) = Some xs"
  by (auto simp: those_map_list_all2 intro: list_all2_mono)

lemma resolve_kind_mono: "prefix t t' \<Longrightarrow> resolve_kind t k = Some x \<Longrightarrow> resolve_kind t' k = Some x"
  by (cases k) (auto intro: those_map_mono lookup_key_mono)

lemma resolve_owner_mono: "prefix t t' \<Longrightarrow> resolve_owner t oi = Some x \<Longrightarrow> resolve_owner t' oi = Some x"
  by (auto simp: resolve_owner_def intro: lookup_key_mono split: option.splits)

lemma resolve_account_mono: "prefix t t' \<Longrightarrow> resolve_account t c = Some x \<Longrightarrow> resolve_account t' c = Some x"
  by (auto simp: resolve_account_def Option.bind_eq_Some_conv
      dest: resolve_kind_mono resolve_owner_mono)

lemma resolve_instruction_mono:
  "prefix t t' \<Longrightarrow> resolve_instruction t c = Some x \<Longrightarrow> resolve_instruction t' c = Some x"
  by (auto simp: resolve_instruction_def Option.bind_eq_Some_conv
      dest: lookup_key_mono intro: those_map_mono resolve_account_mono)

section \<open>Compilation keeps the meaning\<close>

text \<open>
  The statement each level of compilation satisfies: the table stays well formed and only grows, and
  the compiled value resolves to the source value and fits its fields.
\<close>

definition compiles :: "(pubkey list \<Rightarrow> 'c \<Rightarrow> 'a option) \<Rightarrow> ('c \<Rightarrow> bool) \<Rightarrow> 'a \<Rightarrow> pubkey list \<Rightarrow> 'c \<times> pubkey list \<Rightarrow> bool"
  where
  "compiles res fits x t r \<longleftrightarrow>
     table_ok (snd r) \<and> prefix t (snd r) \<and> res (snd r) (fst r) = Some x \<and> fits (fst r)"

lemma tmap_compiles:
  assumes step: "\<And>x s r. x \<in> set xs \<Longrightarrow> table_ok s \<Longrightarrow> f x s = Inr r \<Longrightarrow> compiles res fits x s r"
    and mono: "\<And>t t' x c. prefix t t' \<Longrightarrow> res t c = Some x \<Longrightarrow> res t' c = Some x"
    and start: "table_ok t" and run: "tmap f xs t = Inr (ys, t')"
  shows "table_ok t' \<and> prefix t t' \<and> those (map (res t') ys) = Some xs \<and>
    (\<forall>y \<in> set ys. fits y) \<and> length ys = length xs"
proof -
  have "table_ok t' \<and> prefix t t' \<and> list_all2 (\<lambda>x y. res t' y = Some x \<and> fits y) xs ys"
    by (rule tmap_invariant [where I = table_ok and le = prefix
          and P = "\<lambda>s x y. res s y = Some x \<and> fits y", OF _ _ _ _ start run])
      (use step mono in \<open>auto simp: compiles_def\<close>)
  then show ?thesis
    by (auto simp: those_map_list_all2 list_all2_conv_all_nth in_set_conv_nth)
qed

lemma pubkeyTableIndex_compiles:
  "inj_on (toBase58 w) {k. wf_pubkey k} \<Longrightarrow> wf_pubkey k \<Longrightarrow> table_ok t \<Longrightarrow>
   pubkeyTableIndex w k t = Inr r \<Longrightarrow> compiles lookup_key wf_index k t r"
  by (cases r) (auto simp: compiles_def dest: pubkeyTableIndex_step lookup_key_index)

lemma compile_kind:
  assumes inj: "inj_on (toBase58 w) {k. wf_pubkey k}" and wf: "wf_account_kind k" and t: "table_ok t"
    and run: "(case k of AK_pubkey ks \<Rightarrow> rbind (tmap (pubkeyTableIndex w) ks t) (\<lambda>(ixs, t). Inr (CK_pubkey ixs, t))
               | AK_accountData dcs \<Rightarrow> Inr (CK_accountData dcs, t)) = Inr r"
  shows "compiles resolve_kind wf_compiled_kind k t r"
proof (cases k)
  case (AK_pubkey ks)
  with run obtain ixs t' where tm: "tmap (pubkeyTableIndex w) ks t = Inr (ixs, t')" and r: "r = (CK_pubkey ixs, t')"
    by (auto simp: rbind_eq_Inr)
  have "table_ok t' \<and> prefix t t' \<and> those (map (lookup_key t') ixs) = Some ks \<and>
    (\<forall>y \<in> set ixs. wf_index y) \<and> length ixs = length ks"
    by (rule tmap_compiles [OF _ lookup_key_mono t tm])
      (use inj wf AK_pubkey in \<open>auto intro: pubkeyTableIndex_compiles\<close>)
  with wf AK_pubkey r show ?thesis by (auto simp: compiles_def)
qed (use run wf t in \<open>auto simp: compiles_def\<close>)

lemma compile_owner:
  assumes "inj_on (toBase58 w) {k. wf_pubkey k}" "\<forall>k. ow = Some k \<longrightarrow> wf_pubkey k" "table_ok t"
    and "(case ow of None \<Rightarrow> Inr (None, t)
          | Some own \<Rightarrow> rbind (pubkeyTableIndex w own t) (\<lambda>(i, t). Inr (Some i, t))) = Inr r"
  shows "compiles resolve_owner (\<lambda>oi. \<forall>i. oi = Some i \<longrightarrow> wf_index i) ow t r"
  using assms pubkeyTableIndex_compiles [of w _ t]
  by (cases ow) (fastforce simp: compiles_def resolve_owner_def rbind_eq_Inr)+

lemma compileAccountConstraint_compiles:
  assumes inj: "inj_on (toBase58 w) {k. wf_pubkey k}" and wf: "wf_account_constraint c" and t: "table_ok t"
    and run: "compileAccountConstraint w c t = Inr r"
  shows "compiles resolve_account wf_compiled_account c t r"
proof -
  obtain k t1 ow t2 where
    k: "(case ac_kind c of AK_pubkey ks \<Rightarrow> rbind (tmap (pubkeyTableIndex w) ks t) (\<lambda>(ixs, t). Inr (CK_pubkey ixs, t))
               | AK_accountData dcs \<Rightarrow> Inr (CK_accountData dcs, t)) = Inr (k, t1)"
    and o: "(case ac_owner c of None \<Rightarrow> Inr (None, t1)
          | Some own \<Rightarrow> rbind (pubkeyTableIndex w own t1) (\<lambda>(i, t). Inr (Some i, t))) = Inr (ow, t2)"
    and r: "r = (\<lparr>c_accountIndex = ac_accountIndex c, c_kind = k, c_ownerIndex = ow\<rparr>, t2)"
    using run by (auto simp: compileAccountConstraint_def rbind_eq_Inr split: prod.splits)
  from wf have parts: "wf_u 1 (ac_accountIndex c)" "wf_account_kind (ac_kind c)"
    "\<forall>k. ac_owner c = Some k \<longrightarrow> wf_pubkey k" by (auto simp: wf_account_constraint_def)
  from compile_kind [OF inj parts(2) t k] have 1: "compiles resolve_kind wf_compiled_kind (ac_kind c) t (k, t1)" .
  then have "table_ok t1" by (simp add: compiles_def)
  from compile_owner [OF inj parts(3) this o] 1 parts(1) r show ?thesis
    by (auto simp: compiles_def resolve_account_def wf_compiled_account_def
        dest: resolve_kind_mono intro: prefix_order.trans)
qed

lemma compileInstructionConstraint_compiles:
  assumes inj: "inj_on (toBase58 w) {k. wf_pubkey k}" and wf: "wf_instruction_constraint c" and t: "table_ok t"
    and run: "compileInstructionConstraint w c t = Inr r"
  shows "compiles resolve_instruction wf_compiled_instruction c t r"
proof -
  obtain p t1 as t2 where p: "pubkeyTableIndex w (ic_programId c) t = Inr (p, t1)"
    and as: "tmap (compileAccountConstraint w) (ic_accountConstraints c) t1 = Inr (as, t2)"
    and r: "r = (\<lparr>c_programIdIndex = p, c_accountConstraints = as, c_dataConstraints = ic_dataConstraints c\<rparr>, t2)"
    using run by (auto simp: compileInstructionConstraint_def rbind_eq_Inr split: prod.splits)
  from inj _ t p have 1: "compiles lookup_key wf_index (ic_programId c) t (p, t1)"
    by (rule pubkeyTableIndex_compiles) (use wf in \<open>simp add: wf_instruction_constraint_def\<close>)
  then have t1: "table_ok t1" by (simp add: compiles_def)
  have "table_ok t2 \<and> prefix t1 t2 \<and> those (map (resolve_account t2) as) = Some (ic_accountConstraints c) \<and>
    (\<forall>y \<in> set as. wf_compiled_account y) \<and> length as = length (ic_accountConstraints c)"
    by (rule tmap_compiles [OF _ resolve_account_mono t1 as])
      (use inj wf in \<open>auto simp: wf_instruction_constraint_def intro: compileAccountConstraint_compiles\<close>)
  with 1 r wf show ?thesis
    by (auto simp: compiles_def resolve_instruction_def wf_compiled_instruction_def wf_instruction_constraint_def
        dest: lookup_key_mono intro: prefix_order.trans)
qed

definition wf_policy :: "int \<Rightarrow> instruction_constraint list \<Rightarrow> daily_spending_limit list \<Rightarrow> bool" where
  "wf_policy ai cs ls \<longleftrightarrow>
     wf_u 1 ai \<and> length cs \<le> 255 \<and> (\<forall>c \<in> set cs. wf_instruction_constraint c) \<and>
     length ls \<le> 255 \<and> (\<forall>l \<in> set ls. wf_spending_limit l)"

lemma compilePayload_compiles:
  assumes inj: "inj_on (toBase58 w) {k. wf_pubkey k}" and wf: "wf_policy ai cs ls"
    and run: "compileProgramInteractionPayload w ai cs ls = Inr p"
  shows "resolve_payload p = Some cs \<and> wf_compiled_payload p \<and> table_ok (p_pubkeyTable p) \<and>
    p_accountIndex p = ai \<and> p_spendingLimits p = ls"
proof -
  obtain ys t where tm: "tmap (compileInstructionConstraint w) cs [] = Inr (ys, t)"
    and p: "p = \<lparr>p_accountIndex = ai, p_pubkeyTable = t, p_instructionConstraints = ys, p_spendingLimits = ls\<rparr>"
    using run by (auto simp: compileProgramInteractionPayload_def rbind_eq_Inr split: prod.splits)
  have "table_ok t \<and> prefix [] t \<and> those (map (resolve_instruction t) ys) = Some cs \<and>
    (\<forall>y \<in> set ys. wf_compiled_instruction y) \<and> length ys = length cs"
    by (rule tmap_compiles [OF _ resolve_instruction_mono _ tm])
      (use inj wf in \<open>auto simp: wf_policy_def table_ok_def intro: compileInstructionConstraint_compiles\<close>)
  with wf p show ?thesis
    by (auto simp: resolve_payload_def wf_compiled_payload_def wf_policy_def table_ok_def)
qed

section \<open>The bytes of the instruction data\<close>

lemma le_bytes_literals:
  "le_bytes 1 v = [word_of_int v]" "le_bytes 2 1 = [1, 0]" "le_bytes 4 0 = [0, 0, 0, 0]"
  by (simp_all add: numeral_2_eq_2 eval_nat_numeral)

lemmas creation_bytes = le_bytes_literals creation_header_def creation_trailer_def squads_constants
  pushU8_bytes pushU16_bytes pushU32_bytes pushU64_bytes pushOption_None pushVec_single
  writer_evals(4,5) finish_def

lemma serializeSettingsActions_bytes:
  assumes "\<And>e. encodeProgramInteractionPayload p e = Inr (e @ body)"
  shows "serializeSettingsActions signer seed p =
    Inr (creation_header @ le_bytes 8 seed @ [4] @ body @ [1, 0, 0, 0] @ signer @ creation_trailer)"
  using assms by (simp add: serializeSettingsActions_def encodePolicyCreateAction_def creation_bytes
      del: le_bytes.simps One_nat_def)

lemma serializeLegacySettingsActions_bytes:
  assumes "\<And>e. encodeLegacyProgramInteractionPayload ai cs ls e = Inr (e @ body)"
  shows "serializeLegacySettingsActions signer seed ai cs ls =
    Inr (creation_header @ le_bytes 8 seed @ [3] @ body @ [1, 0, 0, 0] @ signer @ creation_trailer)"
  using assms by (simp add: serializeLegacySettingsActions_def creation_bytes
      del: le_bytes.simps One_nat_def)

lemma legacy_body_roundtrip:
  assumes "wf_policy ai cs ls"
  obtains body where "\<And>e. encodeLegacyProgramInteractionPayload ai cs ls e = Inr (e @ body)"
    and "\<And>r. read_legacy_body (body @ r) = Some ((ai, cs, ls), r)"
proof -
  from assms have "wf_u 1 ai" "length cs < 2 ^ 32 \<and> (\<forall>c \<in> set cs. wf_instruction_constraint c)"
    "length ls < 2 ^ 32 \<and> (\<forall>l \<in> set ls. wf_spending_limit l)" by (auto simp: wf_policy_def)
  then obtain a c l where
      "\<And>e. pushU8 ai e = Inr (e @ a)" "\<And>r. read_le 1 (a @ r) = Some (ai, r)"
      "\<And>e. pushVec cs encodeLegacyInstructionConstraint e = Inr (e @ c)"
      "\<And>r. read_vec read_legacy_instruction_constraint (c @ r) = Some (cs, r)"
      "\<And>e. pushVec ls encodeSpendingLimit e = Inr (e @ l)"
      "\<And>r. read_vec read_spending_limit (l @ r) = Some (ls, r)"
    by (elim u8c.enc_appends legacy_instruction_vecc.vec.enc_appends limit_vecc.vec.enc_appends) blast
  moreover have "expect [0, 0] (0 # 0 # r) = Some ((), r)" for r by (simp add: expect_def)
  ultimately show thesis
    by (intro that [of "a @ c @ [0, 0] @ l"])
      (simp_all add: encodeLegacyProgramInteractionPayload_def read_legacy_body_def pushOption_None
        del: read_le.simps One_nat_def)
qed

lemma read_policy_creation_bytes:
  assumes "wf_u 8 seed" "wf_pubkey signer" "tag = 3 \<or> tag = 4"
    and "\<And>r. (if tag = 4 then read_compact_body else read_legacy_body) (body @ r) = Some ((ai, cs, ls), r)"
  shows "read_policy_creation
      (creation_header @ le_bytes 8 seed @ [tag] @ body @ [1, 0, 0, 0] @ signer @ creation_trailer) =
    Some \<lparr>pc_seed = seed, pc_accountIndex = ai, pc_constraints = cs, pc_spendingLimits = ls, pc_signer = signer\<rparr>"
proof -
  have "read_le 8 (le_bytes 8 seed @ r) = Some (seed, r)" for r
    using assms(1) by (simp add: wf_u_def read_le_bytes del: le_bytes.simps)
  moreover have "read_bytes 32 (signer @ r) = Some (signer, r)" for r
    using assms(2) by (simp add: read_bytes_def wf_pubkey_def)
  moreover have "expect [1, 0, 0, 0] (1 # 0 # 0 # 0 # r) = Some ((), r)" for r
    by (simp add: expect_def)
  moreover have "expect creation_trailer creation_trailer = Some ((), [])"
    using expect_append [of creation_trailer "[]"] by simp
  ultimately show ?thesis using assms(3,4)
    by (auto simp: read_policy_creation_def expect_append simp del: le_bytes.simps)
qed

text \<open>
  Either creation encoding of a well-formed policy, once the instruction is built, reads back as the
  requested policy.
\<close>

definition policy_of :: "squads_context \<Rightarrow> int \<Rightarrow> instruction_constraint list \<Rightarrow> daily_spending_limit list \<Rightarrow> policy_creation"
  where
  "policy_of ctx seed cs ls =
     \<lparr>pc_seed = seed, pc_accountIndex = ctx_accountIndex ctx, pc_constraints = cs, pc_spendingLimits = ls,
      pc_signer = ctx_delegatedSigner ctx\<rparr>"

lemma createCompact_data:
  assumes inj: "inj_on (toBase58 w) {k. wf_pubkey k}" and wf: "wf_policy (ctx_accountIndex ctx) cs ls"
    and signer: "wf_pubkey (ctx_delegatedSigner ctx)"
    and run: "createProgramInteractionPolicyInstruction w config ctx cs seed ls Compact = Inr ix"
  shows "\<exists>n. normalizeU64 seed ''policySeed'' = Inr n \<and>
    read_policy_creation (ix_data ix) = Some (policy_of ctx n cs ls)"
proof -
  obtain n p d where n: "normalizeU64 seed ''policySeed'' = Inr n"
    and p: "compileProgramInteractionPayload w (ctx_accountIndex ctx) cs ls = Inr p"
    and d: "serializeSettingsActions (ctx_delegatedSigner ctx) n p = Inr d" and ix: "ix_data ix = d"
    using run by (auto simp: createProgramInteractionPolicyInstruction_def rbind_eq_Inr)
  from compilePayload_compiles [OF inj wf p] have c: "resolve_payload p = Some cs" "wf_compiled_payload p"
    "p_accountIndex p = ctx_accountIndex ctx" "p_spendingLimits p = ls" by auto
  from c(2) obtain body where b: "\<And>e. encodeProgramInteractionPayload p e = Inr (e @ body)"
    "\<And>r. read_compiled_payload (body @ r) = Some (p, r)" by (elim compiled_payloadc.enc_appends) blast
  have "read_policy_creation d = Some (policy_of ctx n cs ls)"
    using d read_policy_creation_bytes [OF normalizeU64_wf [OF n] signer, of 4 body] b(2) c
    by (simp add: serializeSettingsActions_bytes [OF b(1)] read_compact_body_def policy_of_def)
  with n ix show ?thesis by simp
qed

lemma createLegacy_data:
  assumes wf: "wf_policy (ctx_accountIndex ctx) cs ls" and signer: "wf_pubkey (ctx_delegatedSigner ctx)"
    and n: "normalizeU64 seed ''policySeed'' = Inr n"
  shows "\<exists>ix. createProgramInteractionPolicyInstruction w config ctx cs seed ls Legacy = Inr ix \<and>
    read_policy_creation (ix_data ix) = Some (policy_of ctx n cs ls)"
proof -
  obtain body where b: "\<And>e. encodeLegacyProgramInteractionPayload (ctx_accountIndex ctx) cs ls e = Inr (e @ body)"
    "\<And>r. read_legacy_body (body @ r) = Some ((ctx_accountIndex ctx, cs, ls), r)"
    by (rule legacy_body_roundtrip [OF wf]) blast
  have "wf_u 8 n" by (rule normalizeU64_wf [OF n])
  then show ?thesis
    using n read_policy_creation_bytes [OF \<open>wf_u 8 n\<close> signer, of 3 body] b(2)
    by (simp add: createProgramInteractionPolicyInstruction_def deriveActionAccount_def normalizeU64_bigint
        serializeLegacySettingsActions_bytes [OF b(1)] policy_of_def)
qed

section \<open>When compilation succeeds\<close>

text \<open>The keys a constraint mentions: what the table has to hold.\<close>

primrec kind_keys :: "account_kind \<Rightarrow> pubkey set" where
  "kind_keys (AK_pubkey ks) = set ks"
| "kind_keys (AK_accountData ds) = {}"

definition account_keys :: "account_constraint \<Rightarrow> pubkey set" where
  "account_keys c = kind_keys (ac_kind c) \<union> set_option (ac_owner c)"

definition instruction_keys :: "instruction_constraint \<Rightarrow> pubkey set" where
  "instruction_keys c = insert (ic_programId c) (\<Union> (account_keys ` set (ic_accountConstraints c)))"

definition policy_keys :: "instruction_constraint list \<Rightarrow> pubkey set" where
  "policy_keys cs = \<Union> (instruction_keys ` set cs)"

text \<open>
  A compilation step adds exactly its keys to the table, and it throws only when they do not fit.
\<close>

definition tracks :: "pubkey set \<Rightarrow> (pubkey list \<Rightarrow> sdk_error + 'b \<times> pubkey list) \<Rightarrow> bool" where
  "tracks K f \<longleftrightarrow> finite K \<and>
     (\<forall>t. table_ok t \<longrightarrow>
        (case f t of
           Inr r \<Rightarrow> table_ok (snd r) \<and> set (snd r) = set t \<union> K
         | Inl e \<Rightarrow> e = Squads_pubkey_table_overflow \<and> card (set t \<union> K) > 240))"

lemma tracks_run:
  "tracks K f \<Longrightarrow> table_ok t \<Longrightarrow>
   case f t of
     Inr r \<Rightarrow> table_ok (snd r) \<and> set (snd r) = set t \<union> K
   | Inl e \<Rightarrow> e = Squads_pubkey_table_overflow \<and> card (set t \<union> K) > 240"
  by (simp add: tracks_def)

lemma tracks_bind:
  assumes f: "tracks K f" and g: "\<And>y. tracks L (g y)"
  shows "tracks (K \<union> L) (\<lambda>t. rbind (f t) (\<lambda>(y, t1). g y t1))"
proof -
  have fin: "finite K" "finite L" using f g by (auto simp: tracks_def)
  show ?thesis unfolding tracks_def
  proof (intro conjI allI impI)
    fix t assume t: "table_ok t"
    show "case rbind (f t) (\<lambda>(y, t1). g y t1) of
        Inl e \<Rightarrow> e = Squads_pubkey_table_overflow \<and> 240 < card (set t \<union> (K \<union> L))
      | Inr r \<Rightarrow> table_ok (snd r) \<and> set (snd r) = set t \<union> (K \<union> L)"
    proof (cases "f t")
      case (Inl e)
      moreover have "card (set t \<union> K) \<le> card (set t \<union> (K \<union> L))" using fin by (intro card_mono) auto
      ultimately show ?thesis using tracks_run [OF f t] by simp
    next
      case (Inr r)
      with tracks_run [OF f t] have r: "table_ok (snd r)" "set (snd r) = set t \<union> K" by simp_all
      from tracks_run [OF g r(1), of "fst r"] r(2) Inr show ?thesis
        by (auto simp: case_prod_beta Un_assoc split: sum.splits)
    qed
  qed (use fin in simp)
qed

lemma tracks_return: "tracks {} (\<lambda>t. Inr (y, t))"
  by (simp add: tracks_def)

lemma tracks_map: "tracks K f \<Longrightarrow> tracks K (\<lambda>t. rbind (f t) (\<lambda>(y, t1). Inr (h y, t1)))"
  using tracks_bind [of K f "{}" "\<lambda>y t1. Inr (h y, t1)"] by (simp add: tracks_return)

lemma tracks_tmap:
  "\<forall>x \<in> set xs. tracks (keys x) (f x) \<Longrightarrow> tracks (\<Union> (keys ` set xs)) (tmap f xs)"
proof (induction xs)
  case Nil
  show ?case by (simp add: tracks_return)
next
  case (Cons x xs)
  then have "tracks (keys x) (f x)" "tracks (\<Union> (keys ` set xs)) (tmap f xs)" by auto
  then have "tracks (keys x \<union> \<Union> (keys ` set xs))
      (\<lambda>t. rbind (f x t) (\<lambda>(y, t1). rbind (tmap f xs t1) (\<lambda>(ys, t2). Inr (y # ys, t2))))"
    by (intro tracks_bind tracks_map)
  then show ?case by simp
qed

lemma tracks_pubkeyTableIndex:
  assumes inj: "inj_on (toBase58 w) {k. wf_pubkey k}" and k: "wf_pubkey k"
  shows "tracks {k} (pubkeyTableIndex w k)"
  unfolding tracks_def
proof (intro conjI allI impI)
  fix t assume t: "table_ok t"
  show "case pubkeyTableIndex w k t of
      Inl e \<Rightarrow> e = Squads_pubkey_table_overflow \<and> 240 < card (set t \<union> {k})
    | Inr r \<Rightarrow> table_ok (snd r) \<and> set (snd r) = set t \<union> {k}"
  proof (cases "findIndex (\<lambda>c. toBase58 w c = toBase58 w k) t")
    case None
    then have "k \<notin> set t" by (auto simp: findIndex_None)
    with None k t show ?thesis
      by (auto simp: pubkeyTableIndex_def table_ok_def distinct_card)
  next
    case (Some j)
    then have j: "j < length t" "toBase58 w (t ! j) = toBase58 w k" by (auto dest: findIndex_Some)
    then have "t ! j = k" using inj k t by (auto simp: table_ok_def inj_on_def)
    with Some j t nth_mem [of j t] show ?thesis by (auto simp: pubkeyTableIndex_def)
  qed
qed simp

lemma tracks_compileAccountConstraint:
  assumes inj: "inj_on (toBase58 w) {k. wf_pubkey k}" and wf: "wf_account_constraint c"
  shows "tracks (account_keys c) (compileAccountConstraint w c)"
proof -
  note wf = wf [unfolded wf_account_constraint_def]
  have "tracks (kind_keys (ac_kind c)) (\<lambda>t. case ac_kind c of
      AK_pubkey ks \<Rightarrow> rbind (tmap (pubkeyTableIndex w) ks t) (\<lambda>(ixs, t). Inr (CK_pubkey ixs, t))
    | AK_accountData dcs \<Rightarrow> Inr (CK_accountData dcs, t))"
    using wf tracks_tmap [of _ "\<lambda>k. {k}" "pubkeyTableIndex w"]
    by (cases "ac_kind c") (auto intro!: tracks_map tracks_pubkeyTableIndex [OF inj] simp: tracks_return)
  moreover have "tracks (set_option (ac_owner c)) (\<lambda>t1. case ac_owner c of None \<Rightarrow> Inr (None, t1)
      | Some own \<Rightarrow> rbind (pubkeyTableIndex w own t1) (\<lambda>(i, t). Inr (Some i, t)))"
    using wf by (cases "ac_owner c") (auto intro!: tracks_map tracks_pubkeyTableIndex [OF inj] simp: tracks_return)
  ultimately show ?thesis
    unfolding compileAccountConstraint_def [abs_def] account_keys_def
    by (intro tracks_bind tracks_map)
qed

lemma tracks_compileInstructionConstraint:
  assumes inj: "inj_on (toBase58 w) {k. wf_pubkey k}" and wf: "wf_instruction_constraint c"
  shows "tracks (instruction_keys c) (compileInstructionConstraint w c)"
proof -
  have "tracks ({ic_programId c} \<union> \<Union> (account_keys ` set (ic_accountConstraints c)))
      (compileInstructionConstraint w c)"
    unfolding compileInstructionConstraint_def [abs_def]
    using wf tracks_compileAccountConstraint [OF inj]
    by (intro tracks_bind tracks_map tracks_pubkeyTableIndex [OF inj] tracks_tmap)
      (auto simp: wf_instruction_constraint_def)
  then show ?thesis by (simp add: instruction_keys_def)
qed

lemma compilePayload_total:
  assumes inj: "inj_on (toBase58 w) {k. wf_pubkey k}" and wf: "wf_policy ai cs ls"
  shows "if card (policy_keys cs) \<le> 240
    then \<exists>p. compileProgramInteractionPayload w ai cs ls = Inr p
    else compileProgramInteractionPayload w ai cs ls = Inl Squads_pubkey_table_overflow"
proof -
  have tr: "tracks (policy_keys cs) (tmap (compileInstructionConstraint w) cs)"
    using wf unfolding policy_keys_def wf_policy_def
    by (intro tracks_tmap) (auto intro: tracks_compileInstructionConstraint [OF inj])
  have "table_ok []" by (simp add: table_ok_def)
  note run = tracks_run [OF tr this]
  show ?thesis
  proof (cases "tmap (compileInstructionConstraint w) cs []")
    case (Inl e)
    with run show ?thesis by (simp add: compileProgramInteractionPayload_def)
  next
    case (Inr r)
    with run have "card (policy_keys cs) \<le> 240"
      using card_length [of "snd r"] by (simp add: table_ok_def)
    with Inr show ?thesis by (simp add: compileProgramInteractionPayload_def case_prod_beta)
  qed
qed

lemma createCompact_total:
  assumes "inj_on (toBase58 w) {k. wf_pubkey k}"
    and "wf_policy (ctx_accountIndex ctx) constraints limits"
    and "wf_pubkey (ctx_delegatedSigner ctx)"
    and "card (policy_keys constraints) \<le> 240"
    and "normalizeU64 seed ''policySeed'' = Inr n"
  shows "\<exists>ix. createProgramInteractionPolicyInstruction w config ctx constraints seed limits Compact = Inr ix \<and>
    read_policy_creation (ix_data ix) = Some (policy_of ctx n constraints limits)"
proof -
  from compilePayload_total [OF assms(1,2)] assms(4)
  obtain p where p: "compileProgramInteractionPayload w (ctx_accountIndex ctx) constraints limits = Inr p" by auto
  then have "wf_compiled_payload p" using compilePayload_compiles [OF assms(1,2)] by simp
  then obtain body where "\<And>e. encodeProgramInteractionPayload p e = Inr (e @ body)"
    by (elim compiled_payloadc.enc_appends) blast
  then obtain ix where
    ix: "createProgramInteractionPolicyInstruction w config ctx constraints seed limits Compact = Inr ix"
    using p assms(5) normalizeU64_wf [OF assms(5)]
    by (auto simp: createProgramInteractionPolicyInstruction_def deriveActionAccount_def normalizeU64_bigint
        serializeSettingsActions_bytes)
  from createCompact_data [OF assms(1,2,3) ix] assms(5) ix show ?thesis by auto
qed

section \<open>Concrete inputs\<close>

text \<open>
  An instance of the third-party operations, with the Latin-1 printer in place of base58 (both are
  injective on keys), and a policy that mentions three keys.
\<close>

definition latin1 :: "u8 list \<Rightarrow> string" where
  "latin1 k = map (\<lambda>b. char_of (uint b)) k"

definition example_web3 :: web3 where
  "example_web3 = \<lparr>newPublicKey = (\<lambda>s. take 32 (utf8_bytes s @ replicate 32 0)),
     findProgramAddressSync = (\<lambda>seeds p. take 32 (concat seeds @ p @ replicate 32 0)), toBase58 = latin1,
     systemProgramId = replicate 32 0, defaultPublicKey = replicate 32 0\<rparr>"

definition key_of :: "u8 \<Rightarrow> pubkey" where
  "key_of b = replicate 32 b"

definition example_context :: squads_context where
  "example_context = \<lparr>ctx_settings = key_of 1, ctx_authority = key_of 2, ctx_delegatedSigner = key_of 3,
     ctx_accountIndex = 1, ctx_vault = key_of 4\<rparr>"

definition example_config :: cluster_config where
  "example_config = \<lparr>cc_squadsSmartAccountProgramId = key_of 10, cc_jupiterV6ProgramId = key_of 11,
     cc_loyalHubSwapProgramId = key_of 12, cc_loyalHubAuthorizer = key_of 13, cc_tokenProgramId = key_of 14,
     cc_associatedTokenProgramId = key_of 15\<rparr>"

definition example_constraints :: "instruction_constraint list" where
  "example_constraints =
     [\<lparr>ic_programId = key_of 20,
       ic_accountConstraints =
         [\<lparr>ac_accountIndex = 0, ac_kind = AK_pubkey [key_of 21, key_of 20], ac_owner = Some (key_of 22)\<rparr>],
       ic_dataConstraints = [\<lparr>dc_dataOffset = 0, dc_dataValue = DV_u64Le 7, dc_operator = Equals\<rparr>]\<rparr>]"

definition example_limits :: "daily_spending_limit list" where
  "example_limits = [\<lparr>sl_mint = key_of 30, sl_maxPerPeriod = 1000\<rparr>]"

definition many_constraints :: "instruction_constraint list" where
  "many_constraints =
     map (\<lambda>i. \<lparr>ic_programId = key_of (of_nat i), ic_accountConstraints = [], ic_dataConstraints = []\<rparr>) [0..<241]"

lemma inj_latin1: "inj latin1"
proof -
  have "of_char (char_of (uint b) :: char) = uint b" for b :: u8
    using uint_bounded [of b] by simp
  then have "map (\<lambda>c. word_of_int (of_char c)) (latin1 k) = k" for k
    by (simp add: latin1_def comp_def)
  then show ?thesis by (metis injI)
qed

lemma inj_example_web3: "inj_on (toBase58 example_web3) {k. wf_pubkey k}"
  using inj_latin1 by (simp add: example_web3_def inj_on_def)

lemma example_policy_ok:
  "wf_policy (ctx_accountIndex example_context) example_constraints example_limits"
  "wf_pubkey (ctx_delegatedSigner example_context)"
  "card (policy_keys example_constraints) \<le> 240"
proof -
  show "wf_policy (ctx_accountIndex example_context) example_constraints example_limits"
    by (simp add: wf_policy_def example_context_def example_constraints_def example_limits_def key_of_def
        wf_instruction_constraint_def wf_account_constraint_def wf_data_constraint_def wf_spending_limit_def
        wf_u_def wf_pubkey_def)
  show "wf_pubkey (ctx_delegatedSigner example_context)"
    by (simp add: example_context_def key_of_def wf_pubkey_def)
  have "policy_keys example_constraints = set [key_of 20, key_of 21, key_of 22]"
    by (auto simp: policy_keys_def example_constraints_def instruction_keys_def account_keys_def)
  then show "card (policy_keys example_constraints) \<le> 240"
    using card_length [of "[key_of 20, key_of 21, key_of 22]"] by simp
qed

lemma many_constraints_ok:
  "wf_policy (ctx_accountIndex example_context) many_constraints []"
  "card (policy_keys many_constraints) = 241"
proof -
  show "wf_policy (ctx_accountIndex example_context) many_constraints []"
    by (auto simp: wf_policy_def example_context_def many_constraints_def key_of_def
        wf_instruction_constraint_def wf_u_def wf_pubkey_def)
  have "inj_on (\<lambda>i. key_of (of_nat i)) {0..<241}"
    by (rule inj_onI) (auto simp: key_of_def word_unat_eq_iff unat_of_nat)
  moreover have "policy_keys many_constraints = (\<lambda>i. key_of (of_nat i)) ` {0..<241}"
    by (auto simp: policy_keys_def many_constraints_def instruction_keys_def)
  ultimately show "card (policy_keys many_constraints) = 241" by (simp add: card_image)
qed

section \<open>Properties\<close>

text \<open>
  C1.  A policy whose fields fit, that mentions at most 240 distinct keys, and whose seed is a u64,
  always gets a compact creation instruction, and the data of that instruction, read by the format
  of the Squads program, is exactly the requested policy: the same constraints with the same keys, the
  same spending limits, the seed, and the delegated signer with full permissions and threshold one.
\<close>

theorem compact_policy_roundtrip:
  assumes "inj_on (toBase58 w) {k. wf_pubkey k}"
    and "wf_policy (ctx_accountIndex ctx) constraints limits"
    and "wf_pubkey (ctx_delegatedSigner ctx)"
    and "card (policy_keys constraints) \<le> 240"
    and "normalizeU64 seed ''policySeed'' = Inr n"
  shows "\<exists>ix. createProgramInteractionPolicyInstruction w config ctx constraints seed limits Compact = Inr ix \<and>
    read_policy_creation (ix_data ix) = Some (policy_of ctx n constraints limits)"
  by (rule createCompact_total [OF assms])

theorem compact_policy_roundtrip_witness:
  "\<exists>ix. createProgramInteractionPolicyInstruction example_web3 example_config example_context
      example_constraints (Number (Finite 9)) example_limits Compact = Inr ix \<and>
    read_policy_creation (ix_data ix) = Some (policy_of example_context 9 example_constraints example_limits)"
  by (rule compact_policy_roundtrip [OF inj_example_web3 example_policy_ok])
    (simp add: normalizeU64_def normalizeInteger_def isSafeInteger_def U64_MAX_def)

text \<open>
  C4.  The two creation encodings say the same: when both are built for the same policy, their
  instructions name the same accounts and their data reads back as the same policy.
\<close>

theorem creation_encodings_agree:
  assumes "inj_on (toBase58 w) {k. wf_pubkey k}"
    and "wf_policy (ctx_accountIndex ctx) constraints limits"
    and "wf_pubkey (ctx_delegatedSigner ctx)"
    and "createProgramInteractionPolicyInstruction w config ctx constraints seed limits Compact = Inr cix"
  shows "\<exists>lix. createProgramInteractionPolicyInstruction w config ctx constraints seed limits Legacy = Inr lix \<and>
    ix_keys lix = ix_keys cix \<and> ix_programId lix = ix_programId cix \<and>
    read_policy_creation (ix_data lix) = read_policy_creation (ix_data cix) \<and>
    read_policy_creation (ix_data cix) \<noteq> None"
proof -
  from createCompact_data [OF assms] obtain n where n: "normalizeU64 seed ''policySeed'' = Inr n"
    "read_policy_creation (ix_data cix) = Some (policy_of ctx n constraints limits)" by auto
  from createLegacy_data [OF assms(2,3) n(1)] obtain lix where
    "createProgramInteractionPolicyInstruction w config ctx constraints seed limits Legacy = Inr lix"
    "read_policy_creation (ix_data lix) = Some (policy_of ctx n constraints limits)" by blast
  then show ?thesis using n(2) assms(4)
    by (auto simp: createProgramInteractionPolicyInstruction_def rbind_eq_Inr)
qed

theorem creation_encodings_agree_witness:
  "\<exists>cix lix.
    createProgramInteractionPolicyInstruction example_web3 example_config example_context
      example_constraints (Bigint 9) example_limits Compact = Inr cix \<and>
    createProgramInteractionPolicyInstruction example_web3 example_config example_context
      example_constraints (Bigint 9) example_limits Legacy = Inr lix \<and>
    read_policy_creation (ix_data lix) = read_policy_creation (ix_data cix)"
proof -
  obtain cix where "createProgramInteractionPolicyInstruction example_web3 example_config example_context
      example_constraints (Bigint 9) example_limits Compact = Inr cix"
    by (rule that) code_simp
  from creation_encodings_agree [OF inj_example_web3 example_policy_ok(1,2) this] this show ?thesis by blast
qed



end
