(* ===== verification/Policy_Meaning.thy ===== *)
theory Policy_Meaning
  imports Protocols Squads_Compile
begin

text \<open>
  What a constraint admits.  \<open>permits\<close> is the reading of a program-interaction policy: the program is
  the named one, every account constraint holds of the account at its index (key, owner, data), and
  every data constraint holds of the instruction data at its offset.  The theorems state what the
  constraint builders of \<open>protocols.ts\<close> admit and refuse under that reading.
\<close>

section \<open>Constraints on bytes and accounts\<close>

primrec compare_op :: "data_operator \<Rightarrow> int \<Rightarrow> int \<Rightarrow> bool" where
  "compare_op Equals a b = (a = b)"
| "compare_op NotEquals a b = (a \<noteq> b)"
| "compare_op GreaterThan a b = (a > b)"
| "compare_op GreaterThanOrEqualTo a b = (a \<ge> b)"
| "compare_op LessThan a b = (a < b)"
| "compare_op LessThanOrEqualTo a b = (a \<le> b)"

definition holds_number :: "nat \<Rightarrow> data_operator \<Rightarrow> int \<Rightarrow> u8 list \<Rightarrow> bool" where
  "holds_number n op v bs = (case read_le n bs of None \<Rightarrow> False | Some (x, _) \<Rightarrow> compare_op op x v)"

definition holds_slice :: "data_operator \<Rightarrow> int list \<Rightarrow> u8 list \<Rightarrow> bool" where
  "holds_slice op vs bs =
     (case read_bytes (length vs) bs of None \<Rightarrow> False
      | Some (x, _) \<Rightarrow> (if op = Equals then x = map word_of_int vs
                       else if op = NotEquals then x \<noteq> map word_of_int vs else False))"

definition holds_data :: "u8 list \<Rightarrow> data_constraint \<Rightarrow> bool" where
  "holds_data data c =
     (let bs = drop (nat (dc_dataOffset c)) data; op = dc_operator c in
      case dc_dataValue c of
        DV_u8 v \<Rightarrow> holds_number 1 op v bs
      | DV_u16Le v \<Rightarrow> holds_number 2 op v bs
      | DV_u32Le v \<Rightarrow> holds_number 4 op v bs
      | DV_u64Le v \<Rightarrow> holds_number 8 op v bs
      | DV_u128Le v \<Rightarrow> holds_number 16 op v bs
      | DV_u8Slice vs \<Rightarrow> holds_slice op vs bs)"

record account_view =
  av_key :: pubkey
  av_owner :: pubkey
  av_data :: "u8 list"

definition holds_kind :: "account_view \<Rightarrow> account_kind \<Rightarrow> bool" where
  "holds_kind a k =
     (case k of AK_pubkey ks \<Rightarrow> av_key a \<in> set ks | AK_accountData ds \<Rightarrow> list_all (holds_data (av_data a)) ds)"

definition holds_account :: "account_view list \<Rightarrow> account_constraint \<Rightarrow> bool" where
  "holds_account accounts c =
     (nat (ac_accountIndex c) < length accounts \<and>
      (let a = accounts ! nat (ac_accountIndex c) in
       holds_kind a (ac_kind c) \<and> (case ac_owner c of None \<Rightarrow> True | Some own \<Rightarrow> av_owner a = own)))"

definition permits :: "instruction_constraint \<Rightarrow> pubkey \<Rightarrow> account_view list \<Rightarrow> u8 list \<Rightarrow> bool" where
  "permits c program accounts data =
     (program = ic_programId c \<and> list_all (holds_account accounts) (ic_accountConstraints c) \<and>
      list_all (holds_data data) (ic_dataConstraints c))"

lemmas meaning_simps = holds_data_def holds_number_def holds_slice_def holds_account_def holds_kind_def
  permits_def Let_def

section \<open>Lemmas\<close>

lemma read_le_inverse: "read_le n bs = Some (v, r) \<Longrightarrow> wf_u n v \<and> bs = le_bytes n v @ r"
proof (induction n arbitrary: bs v)
  case (Suc n)
  then obtain b bs' v' where b: "bs = b # bs'" "read_le n bs' = Some (v', r)" "v = uint b + 256 * v'"
    by (auto split: list.splits simp: Option.bind_eq_Some_conv)
  have ub: "0 \<le> uint b" "uint b < 256" using uint_bounded [of b] by simp_all
  with b(3) have v: "v div 256 = v'" "v mod 256 = uint b" by simp_all
  have "uint (word_of_int v :: u8) = v mod 256" by (simp add: uint_word_of_int)
  with v(2) have "word_of_int v = b" by (simp only: word_uint_eq_iff)
  with v(1) show ?case using Suc.IH [OF b(2)] b(1,3) ub by (auto simp: wf_u_def)
qed (simp add: wf_u_def)

lemma read_le_defined: "n \<le> length bs \<Longrightarrow> \<exists>v. read_le n bs = Some (v, drop n bs)"
proof (induction n arbitrary: bs)
  case (Suc n)
  then show ?case by (cases bs) (fastforce split: option.splits)+
qed simp

lemma key_numbers_bytes [simp]: "map word_of_int (key_numbers k) = k" "length (key_numbers k) = length k"
  by (simp_all add: key_numbers_def comp_def)

lemma uniquePubkeys_loop_eq:
  assumes "inj_on (toBase58 w) (set ks \<union> set un)" "seen = map (toBase58 w) un"
  shows "uniquePubkeys_loop w ks seen un = un @ filter (\<lambda>k. k \<notin> set un) (js_unique ks)"
  using assms
proof (induction ks arbitrary: seen un)
  case (Cons k ks)
  have mem: "toBase58 w k \<in> set seen \<longleftrightarrow> k \<in> set un"
    using Cons.prems by (auto simp: inj_on_def image_iff)
  show ?case
  proof (cases "k \<in> set un")
    case True
    with mem Cons.IH [of un seen] Cons.prems show ?thesis
      by (auto simp: Let_def inj_on_def intro: filter_cong)
  next
    case False
    have "inj_on (toBase58 w) (set ks \<union> set (un @ [k]))" using Cons.prems(1) by (rule inj_on_subset) auto
    with False mem Cons.IH [of "un @ [k]" "seen @ [toBase58 w k]"] Cons.prems(2) show ?thesis
      by (simp add: Let_def conj_commute)
  qed
qed simp

lemma uniquePubkeys_eq: "inj_on (toBase58 w) (set ks) \<Longrightarrow> uniquePubkeys w ks = js_unique ks"
  using uniquePubkeys_loop_eq [of w ks "[]" "[]"] by (simp add: uniquePubkeys_def)

lemma set_uniquePubkeys: "inj_on (toBase58 w) (set ks) \<Longrightarrow> set (uniquePubkeys w ks) = set ks"
  by (simp add: uniquePubkeys_eq)

section \<open>The sweep policy\<close>

lemma transfer_data:
  "subscriptionTransferRecurringData \<lparr>tr_amountRaw = Bigint a, tr_delegator = d, tr_mint = m\<rparr> =
     (if wf_u 8 a then Inr (5 # le_bytes 8 a @ d @ m) else Inl (Must_be_u64 ''amountRaw''))"
  by (simp add: subscriptionTransferRecurringData_def finish_def pushU8_bytes pushU64_bytes
      push_normalized_def normalizeU64_bigint writer_evals SUBSCRIPTIONS_TRANSFER_RECURRING_def)

text \<open>The eight bytes at an offset, as an integer.\<close>

definition u64_at :: "nat \<Rightarrow> u8 list \<Rightarrow> int option" where
  "u64_at off data = map_option fst (read_le 8 (drop off data))"

lemma holds_key_slice:
  "holds_data data (dataSliceEquals off (key_numbers k)) \<longleftrightarrow> take (length k) (drop (nat off) data) = k"
  by (auto simp: meaning_simps dataSliceEquals_def read_bytes_def)

lemma holds_u64_le:
  "holds_data data (dataU64LeLessThanOrEqualTo off v) \<longleftrightarrow> (\<exists>x. u64_at (nat off) data = Some x \<and> x \<le> v)"
  by (auto simp: meaning_simps dataU64LeLessThanOrEqualTo_def u64_at_def split: option.splits)

lemma holds_u64_ge:
  "holds_data data (dataU64LeGreaterThanOrEqualTo off v) \<longleftrightarrow> (\<exists>x. u64_at (nat off) data = Some x \<and> v \<le> x)"
  by (auto simp: meaning_simps dataU64LeGreaterThanOrEqualTo_def u64_at_def split: option.splits)

lemma holds_pubkeyConstraint:
  "holds_account accounts (pubkeyConstraint i ks ow) \<longleftrightarrow>
     nat i < length accounts \<and> av_key (accounts ! nat i) \<in> set ks \<and>
     (case ow of None \<Rightarrow> True | Some p \<Rightarrow> av_owner (accounts ! nat i) = p)"
  by (auto simp: holds_account_def holds_kind_def pubkeyConstraint_def Let_def)

definition delegation_constraint :: "web3 \<Rightarrow> pubkey \<Rightarrow> pubkey \<Rightarrow> pubkey \<Rightarrow> pubkey \<Rightarrow> int \<Rightarrow> account_constraint" where
  "delegation_constraint w delegator vault authority mint cap =
     \<lparr>ac_accountIndex = 0,
      ac_kind = AK_accountData
        [dataU8Equals 0 3, dataSliceEquals 3 (key_numbers delegator), dataSliceEquals 35 (key_numbers vault),
         dataSliceEquals 107 (key_numbers authority), dataSliceEquals 139 (key_numbers mint),
         dataU64LeLessThanOrEqualTo 195 cap],
      ac_owner = Some (SUBSCRIPTIONS_PROGRAM_ID w)\<rparr>"

lemma recurring_eq:
  "recurringDelegationAccountConstraint w delegator vault authority mint maxRaw =
     rbind (normalizeU64 maxRaw ''maxAmountPerPeriodRaw'')
       (\<lambda>cap. Inr (delegation_constraint w delegator vault authority mint cap))"
  by (simp add: recurringDelegationAccountConstraint_def delegation_constraint_def
      SUBSCRIPTION_RECURRING_DELEGATION_DISCRIMINATOR_OFFSET_def SUBSCRIPTION_RECURRING_DELEGATION_DISCRIMINATOR_def
      SUBSCRIPTION_RECURRING_DELEGATION_DELEGATOR_OFFSET_def SUBSCRIPTION_RECURRING_DELEGATION_DELEGATEE_OFFSET_def
      SUBSCRIPTION_RECURRING_DELEGATION_AUTHORITY_OFFSET_def SUBSCRIPTION_RECURRING_DELEGATION_MINT_OFFSET_def
      SUBSCRIPTION_RECURRING_DELEGATION_AMOUNT_PER_PERIOD_OFFSET_def)

lemma holds_delegation_constraint:
  assumes "holds_account accounts (delegation_constraint w delegator vault authority mint cap)"
    and "wf_pubkey delegator" "wf_pubkey vault"
  shows "av_owner (accounts ! 0) = SUBSCRIPTIONS_PROGRAM_ID w \<and>
    take 64 (drop 3 (av_data (accounts ! 0))) = delegator @ vault \<and>
    (\<exists>perPeriod. u64_at 195 (av_data (accounts ! 0)) = Some perPeriod \<and> perPeriod \<le> cap)"
proof -
  let ?d = "av_data (accounts ! 0)"
  have "take 32 (drop 3 ?d) = delegator" "take 32 (drop 35 ?d) = vault"
    "av_owner (accounts ! 0) = SUBSCRIPTIONS_PROGRAM_ID w"
    "\<exists>perPeriod. u64_at 195 ?d = Some perPeriod \<and> perPeriod \<le> cap"
    using assms by (auto simp: holds_account_def holds_kind_def delegation_constraint_def holds_key_slice
        holds_u64_le wf_pubkey_def Let_def)
  moreover have "take 64 (drop 3 ?d) = take 32 (drop 3 ?d) @ take 32 (drop 35 ?d)"
    using take_add [of 32 32 "drop 3 ?d"] by simp
  ultimately show ?thesis by simp
qed

lemma holds_balance:
  assumes "delegatorTokenBalanceConstraints p minRaw = Inr balance"
    and "\<forall>a \<in> set balance. holds_account accounts a"
  shows "case minRaw of None \<Rightarrow> True
     | Some m \<Rightarrow> \<exists>floor. normalizeU64 m ''minimumDelegatorBalanceRaw'' = Inr floor \<and>
         (floor = 0 \<or> (\<exists>x. u64_at 64 (av_data (accounts ! 2)) = Some x \<and> floor \<le> x))"
  using assms
  by (auto simp: delegatorTokenBalanceConstraints_def rbind_eq_Inr holds_account_def holds_kind_def
      holds_u64_ge SPL_TOKEN_ACCOUNT_AMOUNT_OFFSET_def Let_def split: option.splits if_splits)

lemma take_3_drop_2: "4 < length xs \<Longrightarrow> take 3 (drop 2 xs) = [xs ! 2, xs ! 3, xs ! 4]"
  by (rule nth_equalityI) (auto simp: less_Suc_eq numeral_eq_Suc)

lemma sweep_data_constraints:
  assumes "subscriptionSweepConstraint w config delegator vault mint dAta vAta maxRaw minRaw = Inr c"
  shows "ic_dataConstraints c =
    [dataU8Equals 0 5, dataSliceEquals 9 (key_numbers delegator), dataSliceEquals 41 (key_numbers mint)]"
  using assms
  by (auto simp: subscriptionSweepConstraint_def rbind_eq_Inr Let_def SUBSCRIPTIONS_TRANSFER_RECURRING_def
      SUBSCRIPTION_TRANSFER_DELEGATOR_OFFSET_def SUBSCRIPTION_TRANSFER_MINT_OFFSET_def)

lemma split_73:
  assumes "length data = 73"
  obtains b am d m where "data = b # am @ d @ m" "length am = 8" "length d = 32" "length m = 32"
proof
  show "data = hd data # take 8 (tl data) @ take 32 (drop 8 (tl data)) @ drop 40 (tl data)"
    using assms by (cases data) (simp_all flip: append_assoc take_add)
qed (use assms in auto)

lemma sweep_data_holds:
  assumes "length am = 8" "length d = 32" "length m = 32" "wf_pubkey delegator" "wf_pubkey mint"
  shows "list_all (holds_data (b # am @ d @ m))
      [dataU8Equals 0 5, dataSliceEquals 9 (key_numbers delegator), dataSliceEquals 41 (key_numbers mint)]
    \<longleftrightarrow> b = 5 \<and> d = delegator \<and> m = mint"
proof -
  have "drop 9 (b # am @ d @ m) = d @ m" "drop 41 (b # am @ d @ m) = m"
    using assms by (simp_all add: drop_Cons')
  moreover have "uint b = 5 \<longleftrightarrow> b = 5" by (simp add: word_uint_eq_iff)
  ultimately show ?thesis using assms
    by (auto simp: meaning_simps dataU8Equals_def dataSliceEquals_def read_bytes_def wf_pubkey_def)
qed

section \<open>Properties\<close>

text \<open>
  C7.  The sweep policy pins the instruction data exactly: among 73-byte instruction data, its data
  constraints accept precisely what \<open>subscriptionTransferRecurringData\<close> produces for the policy's
  delegator and mint, with any amount.
\<close>

theorem sweep_policy_data_exact:
  assumes "subscriptionSweepConstraint w config delegator vault mint dAta vAta maxRaw minRaw = Inr c"
    and "wf_pubkey delegator" and "wf_pubkey mint" and "length data = 73"
  shows "list_all (holds_data data) (ic_dataConstraints c) \<longleftrightarrow>
    (\<exists>amount. subscriptionTransferRecurringData
       \<lparr>tr_amountRaw = Bigint amount, tr_delegator = delegator, tr_mint = mint\<rparr> = Inr data)"
proof -
  obtain b am d m where data: "data = b # am @ d @ m" "length am = 8" "length d = 32" "length m = 32"
    using assms(4) by (rule split_73)
  obtain a where "read_le 8 am = Some (a, [])" using read_le_defined [of 8 am] data(2) by auto
  then have a: "wf_u 8 a" "am = le_bytes 8 a" using read_le_inverse by fastforce+
  have "list_all (holds_data data) (ic_dataConstraints c) \<longleftrightarrow> b = 5 \<and> d = delegator \<and> m = mint"
    unfolding sweep_data_constraints [OF assms(1)] data(1) by (rule sweep_data_holds [OF data(2-4) assms(2,3)])
  also have "\<dots> \<longleftrightarrow> (\<exists>amount. wf_u 8 amount \<and> data = 5 # le_bytes 8 amount @ delegator @ mint)"
    using a data assms(2,3) by (auto simp: wf_pubkey_def)
  finally show ?thesis by (auto simp: transfer_data)
qed

definition example_transfer :: "u8 list" where
  "example_transfer = 5 # le_bytes 8 1500 @ key_of 40 @ key_of 41"

theorem sweep_policy_data_exact_witness:
  "\<exists>c. subscriptionSweepConstraint example_web3 example_config (key_of 40) (key_of 4) (key_of 41)
        (key_of 42) (key_of 43) (Bigint 2000) (Some (Bigint 100)) = Inr c \<and>
     list_all (holds_data example_transfer) (ic_dataConstraints c)"
proof -
  obtain c where c: "subscriptionSweepConstraint example_web3 example_config (key_of 40) (key_of 4) (key_of 41)
        (key_of 42) (key_of 43) (Bigint 2000) (Some (Bigint 100)) = Inr c"
    by (rule that) code_simp
  have "subscriptionTransferRecurringData
      \<lparr>tr_amountRaw = Bigint 1500, tr_delegator = key_of 40, tr_mint = key_of 41\<rparr> = Inr example_transfer"
    by (simp add: transfer_data wf_u_def example_transfer_def)
  then show ?thesis
    using sweep_policy_data_exact [OF c, of example_transfer] c
    by (auto simp: wf_pubkey_def key_of_def example_transfer_def)
qed

text \<open>
  C8.  A call that the sweep policy permits goes to the subscriptions program, moves the delegator's
  token account to the vault's, is signed for by the vault, and rests on a recurring delegation from
  this delegator to this vault whose amount per period is at most the configured maximum; when a
  positive minimum balance is configured, the delegator's balance is at least that minimum.
\<close>

theorem sweep_policy_bounds:
  assumes "subscriptionSweepConstraint w config delegator vault mint dAta vAta maxRaw minRaw = Inr c"
    and "permits c program accounts data"
    and "wf_pubkey delegator" and "wf_pubkey vault"
  shows "program = SUBSCRIPTIONS_PROGRAM_ID w \<and>
    map av_key (take 3 (drop 2 accounts)) = [dAta, vAta, mint] \<and> av_key (accounts ! 6) = vault \<and>
    av_owner (accounts ! 0) = SUBSCRIPTIONS_PROGRAM_ID w \<and>
    take 64 (drop 3 (av_data (accounts ! 0))) = delegator @ vault \<and>
    (\<exists>cap perPeriod. normalizeU64 maxRaw ''maxAmountPerPeriodRaw'' = Inr cap \<and>
       u64_at 195 (av_data (accounts ! 0)) = Some perPeriod \<and> perPeriod \<le> cap) \<and>
    (case minRaw of None \<Rightarrow> True
     | Some m \<Rightarrow> \<exists>floor. normalizeU64 m ''minimumDelegatorBalanceRaw'' = Inr floor \<and>
         (floor = 0 \<or> (\<exists>balance. u64_at 64 (av_data (accounts ! 2)) = Some balance \<and> floor \<le> balance)))"
proof -
  let ?recurring = "delegation_constraint w delegator vault (deriveSubscriptionAuthority w delegator mint) mint"
  from assms(1) obtain balance cap where
    cap: "normalizeU64 maxRaw ''maxAmountPerPeriodRaw'' = Inr cap" and
    bal: "delegatorTokenBalanceConstraints (cc_tokenProgramId config) minRaw = Inr balance"
    by (auto simp: subscriptionSweepConstraint_def recurring_eq rbind_eq_Inr Let_def)
  with assms(1) have c: "ic_programId c = SUBSCRIPTIONS_PROGRAM_ID w"
    "{?recurring cap, pubkeyConstraint 2 [dAta] (Some (cc_tokenProgramId config)),
      pubkeyConstraint 3 [vAta] (Some (cc_tokenProgramId config)),
      pubkeyConstraint 4 [mint] (Some (cc_tokenProgramId config)), pubkeyConstraint 6 [vault] None}
      \<union> set balance \<subseteq> set (ic_accountConstraints c)"
    by (auto simp: subscriptionSweepConstraint_def recurring_eq Let_def)
  have all: "holds_account accounts a" if "a \<in> set (ic_accountConstraints c)" for a
    using assms(2) that by (simp add: permits_def list_all_iff)
  have prog: "program = SUBSCRIPTIONS_PROGRAM_ID w" using assms(2) c(1) by (simp add: permits_def)
  have keys: "holds_account accounts (pubkeyConstraint 2 [dAta] (Some (cc_tokenProgramId config)))"
    "holds_account accounts (pubkeyConstraint 3 [vAta] (Some (cc_tokenProgramId config)))"
    "holds_account accounts (pubkeyConstraint 4 [mint] (Some (cc_tokenProgramId config)))"
    "holds_account accounts (pubkeyConstraint 6 [vault] None)" "holds_account accounts (?recurring cap)"
    using all c(2) by auto
  have mid: "map av_key (take 3 (drop 2 accounts)) = [dAta, vAta, mint]"
    using keys by (simp add: holds_pubkeyConstraint take_3_drop_2)
  from keys(5) have d: "av_owner (accounts ! 0) = SUBSCRIPTIONS_PROGRAM_ID w"
    "take 64 (drop 3 (av_data (accounts ! 0))) = delegator @ vault"
    "\<exists>perPeriod. u64_at 195 (av_data (accounts ! 0)) = Some perPeriod \<and> perPeriod \<le> cap"
    using holds_delegation_constraint [OF _ assms(3,4)] by blast+
  have "\<forall>a \<in> set balance. holds_account accounts a" using all c(2) by auto
  from holds_balance [OF bal this] d prog mid cap keys(4) show ?thesis
    by (simp add: holds_pubkeyConstraint)
qed

text \<open>Accounts a sweep is called with: the delegation with 1500 per period, a balance of 120.\<close>

definition example_sweep_accounts :: "account_view list" where
  "example_sweep_accounts =
     (let prog = SUBSCRIPTIONS_PROGRAM_ID example_web3; token = key_of 14;
          authority = deriveSubscriptionAuthority example_web3 (key_of 40) (key_of 41) in
      [\<lparr>av_key = key_of 50, av_owner = prog,
        av_data = [3, 0, 0] @ key_of 40 @ key_of 4 @ replicate 40 0 @ authority @ key_of 41 @ replicate 24 0 @
          le_bytes 8 1500 @ replicate 8 0\<rparr>,
       \<lparr>av_key = authority, av_owner = prog, av_data = []\<rparr>,
       \<lparr>av_key = key_of 42, av_owner = token, av_data = replicate 64 0 @ le_bytes 8 120\<rparr>,
       \<lparr>av_key = key_of 43, av_owner = token, av_data = []\<rparr>,
       \<lparr>av_key = key_of 41, av_owner = token, av_data = []\<rparr>,
       \<lparr>av_key = token, av_owner = token, av_data = []\<rparr>,
       \<lparr>av_key = key_of 4, av_owner = token, av_data = []\<rparr>,
       \<lparr>av_key = deriveSubscriptionEventAuthority example_web3, av_owner = prog, av_data = []\<rparr>,
       \<lparr>av_key = prog, av_owner = prog, av_data = []\<rparr>])"

theorem sweep_policy_bounds_witness:
  "\<exists>c. subscriptionSweepConstraint example_web3 example_config (key_of 40) (key_of 4) (key_of 41)
        (key_of 42) (key_of 43) (Bigint 2000) (Some (Bigint 100)) = Inr c \<and>
     permits c (SUBSCRIPTIONS_PROGRAM_ID example_web3) example_sweep_accounts example_transfer \<and>
     (\<exists>perPeriod. u64_at 195 (av_data (example_sweep_accounts ! 0)) = Some perPeriod \<and> perPeriod \<le> 2000)"
proof -
  have "case subscriptionSweepConstraint example_web3 example_config (key_of 40) (key_of 4) (key_of 41)
        (key_of 42) (key_of 43) (Bigint 2000) (Some (Bigint 100)) of Inl _ \<Rightarrow> False
      | Inr c \<Rightarrow> permits c (SUBSCRIPTIONS_PROGRAM_ID example_web3) example_sweep_accounts example_transfer"
    by code_simp
  then obtain c where c: "subscriptionSweepConstraint example_web3 example_config (key_of 40) (key_of 4)
        (key_of 41) (key_of 42) (key_of 43) (Bigint 2000) (Some (Bigint 100)) = Inr c"
      "permits c (SUBSCRIPTIONS_PROGRAM_ID example_web3) example_sweep_accounts example_transfer"
    by (auto split: sum.splits)
  have "wf_pubkey (key_of b)" for b by (simp add: wf_pubkey_def key_of_def)
  with sweep_policy_bounds [OF c] c show ?thesis
    by (auto simp: normalizeU64_bigint wf_u_def)
qed

end
