(* ===== verification/Sdk_Plans.thy ===== *)
theory Sdk_Plans
  imports Sdk Policy_Meaning "HOL-Library.Multiset"
begin

text \<open>
  Correctness of the plans of \<open>sdk.ts\<close>: the instruction of a plan creates the policy the plan
  describes, the constraint indexes of its routes name the right constraints, and what the policy
  permits stays inside the configured mints, markets and fee limits.
\<close>

section \<open>The constraints fit their fields\<close>

definition wf_bytes :: "int list \<Rightarrow> bool" where
  "wf_bytes bs \<longleftrightarrow> length bs < 256 \<and> (\<forall>b \<in> set bs. wf_u 1 b)"

definition wf_keys :: "pubkey list \<Rightarrow> bool" where
  "wf_keys ks \<longleftrightarrow> length ks \<le> 255 \<and> (\<forall>k \<in> set ks. wf_pubkey k)"

lemma length_js_unique: "length (js_unique xs) \<le> length xs"
  by (induction xs) (auto intro: le_trans [OF length_filter_le])

lemma card_le_length: "A \<subseteq> set xs \<Longrightarrow> card A \<le> length xs"
  by (meson card_length card_mono finite_set le_trans)

lemma well_formed_keysD:
  assumes "well_formed_keys w"
  shows "wf_pubkey (newPublicKey w s)" "wf_pubkey (findProgramAddressSync w seeds p)"
    "wf_pubkey (systemProgramId w)" "wf_pubkey (defaultPublicKey w)" "inj_on (toBase58 w) {k. wf_pubkey k}"
  using assms by (simp_all add: well_formed_keys_def)

lemma uniquePubkeys_wf:
  assumes "well_formed_keys w" "\<forall>k \<in> set ks. wf_pubkey k"
  shows "uniquePubkeys w ks = js_unique ks" "set (uniquePubkeys w ks) = set ks"
proof -
  have "inj_on (toBase58 w) (set ks)"
    using well_formed_keysD(5) [OF assms(1)] by (rule inj_on_subset) (use assms(2) in auto)
  then show "uniquePubkeys w ks = js_unique ks" "set (uniquePubkeys w ks) = set ks"
    by (simp_all add: uniquePubkeys_eq)
qed

lemma wf_keys_unique: "well_formed_keys w \<Longrightarrow> wf_keys ks \<Longrightarrow> wf_keys (uniquePubkeys w ks)"
  using length_js_unique [of ks] by (auto simp: wf_keys_def uniquePubkeys_wf)

lemma wf_key_numbers: "wf_pubkey k \<Longrightarrow> wf_bytes (key_numbers k)"
proof -
  have "uint b < 256" for b :: u8 using uint_bounded [of b] by simp
  then show "wf_pubkey k \<Longrightarrow> wf_bytes (key_numbers k)"
    by (auto simp: wf_bytes_def wf_pubkey_def key_numbers_def wf_u_def)
qed

lemma wf_pubkeyConstraint [simp]:
  "wf_account_constraint (pubkeyConstraint i ks ow) \<longleftrightarrow>
     wf_u 1 i \<and> wf_keys ks \<and> (\<forall>k. ow = Some k \<longrightarrow> wf_pubkey k)"
  by (auto simp: wf_account_constraint_def pubkeyConstraint_def wf_keys_def)

lemma wf_accountDataConstraint [simp]:
  "wf_account_constraint (accountDataConstraint i ow) \<longleftrightarrow> wf_u 1 i \<and> (\<forall>k. ow = Some k \<longrightarrow> wf_pubkey k)"
  by (auto simp: wf_account_constraint_def accountDataConstraint_def)

lemma wf_dataSliceEquals: "wf_u 8 off \<Longrightarrow> wf_bytes bs \<Longrightarrow> wf_data_constraint (dataSliceEquals off bs)"
  by (auto simp: wf_data_constraint_def dataSliceEquals_def wf_bytes_def)

lemma wf_splTokenAuthorityConstraint:
  "wf_u 1 i \<Longrightarrow> wf_pubkey a \<Longrightarrow> wf_pubkey p \<Longrightarrow> wf_account_constraint (splTokenAuthorityConstraint i a p)"
  by (auto simp: wf_account_constraint_def splTokenAuthorityConstraint_def
      SPL_TOKEN_ACCOUNT_AUTHORITY_OFFSET_def wf_u_def intro!: wf_dataSliceEquals wf_key_numbers)

lemma wf_data_numbers [simp]:
  "wf_data_constraint (dataU8Equals off v) \<longleftrightarrow> wf_u 8 off \<and> wf_u 1 v"
  "wf_data_constraint (dataU16LeLessThanOrEqualTo off v) \<longleftrightarrow> wf_u 8 off \<and> wf_u 2 v"
  "wf_data_constraint (dataU64LeLessThanOrEqualTo off v) \<longleftrightarrow> wf_u 8 off \<and> wf_u 8 v"
  "wf_data_constraint (dataU64LeGreaterThanOrEqualTo off v) \<longleftrightarrow> wf_u 8 off \<and> wf_u 8 v"
  by (simp_all add: wf_data_constraint_def dataU8Equals_def dataU16LeLessThanOrEqualTo_def
      dataU64LeLessThanOrEqualTo_def dataU64LeGreaterThanOrEqualTo_def)

lemma wf_keys_single [simp]: "wf_keys [k] \<longleftrightarrow> wf_pubkey k"
  by (simp add: wf_keys_def)

definition wf_config :: "cluster_config \<Rightarrow> bool" where
  "wf_config c \<longleftrightarrow>
     wf_pubkey (cc_squadsSmartAccountProgramId c) \<and> wf_pubkey (cc_jupiterV6ProgramId c) \<and>
     wf_pubkey (cc_loyalHubSwapProgramId c) \<and> wf_pubkey (cc_loyalHubAuthorizer c) \<and>
     wf_pubkey (cc_tokenProgramId c) \<and> wf_pubkey (cc_associatedTokenProgramId c)"

lemma wf_clusterConfigFor: "well_formed_keys w \<Longrightarrow> wf_config (clusterConfigFor w c)"
  by (cases c) (auto simp: clusterConfigFor_def sharedConfig_def wf_config_def SMART_ACCOUNTS_PROGRAM_ID_def
      dest: well_formed_keysD)

lemma wf_kaminoConstraints:
  assumes "well_formed_keys w" "wf_pubkey vault" "wf_keys markets" "wf_keys mints" "wf_pubkey lend" "wf_bytes disc"
  shows "wf_instruction_constraint (kaminoWithdrawConstraint w vault markets mints lend disc)"
    and "wf_instruction_constraint (kaminoDepositConstraint w vault markets mints lend disc)"
  using assms wf_keys_unique [OF assms(1)]
  by (auto simp: wf_instruction_constraint_def kaminoWithdrawConstraint_def kaminoDepositConstraint_def
      discriminatorConstraint_def wf_u_def intro!: wf_dataSliceEquals)

lemma wf_jupiterConstraint:
  assumes "well_formed_keys w" "wf_config config" "wf_pubkey vault" "wf_keys mints" "wf_u 2 fee"
  shows "wf_instruction_constraint (jupiterConstraint w config vault mints fee)"
  using assms wf_keys_unique [OF assms(1)]
  by (auto simp: wf_instruction_constraint_def jupiterConstraint_def wf_config_def Let_def wf_u_def
      JUPITER_SWAP_SLIPPAGE_BPS_OFFSET_def JUPITER_SWAP_DISCRIMINATOR_def wf_bytes_def
      intro!: wf_dataSliceEquals wf_splTokenAuthorityConstraint)

lemma wf_loyalHubConstraint:
  assumes "well_formed_keys w" "wf_config config" "wf_pubkey vault" "wf_keys mints" "wf_u 2 fee"
  shows "wf_instruction_constraint (loyalHubConstraint w config vault mints fee)"
  using assms wf_keys_unique [OF assms(1)] well_formed_keysD(2) [OF assms(1)]
  by (auto simp: wf_instruction_constraint_def loyalHubConstraint_def wf_config_def Let_def wf_u_def
      swapExactInAccounts_def SWAP_EXACT_IN_TAG_OFFSET_def SWAP_EXACT_IN_def deriveLoyalHubConfig_def
      SWAP_EXACT_IN_MAX_FEE_BPS_DATA_OFFSET_def intro!: wf_splTokenAuthorityConstraint)

section \<open>The registries\<close>

lemma target_ok:
  assumes "well_formed_keys w"
  obtains t where "getKaminoUsdcEarnTargetForCluster w c = Inr t" "wf_pubkey (kt_lendProgramId t)"
    "wf_bytes (kt_withdrawDiscriminator t)" "wf_bytes (kt_depositDiscriminator t)"
    "wf_bytes (kt_initObligationDiscriminator t)"
proof (cases c)
  case Devnet
  then show ?thesis using that well_formed_keysD(1) [OF assms]
    by (simp add: getKaminoUsdcEarnTargetForCluster_def getStablecoinMintForCluster_def
        KAMINO_DEVNET_LEND_PROGRAM_ID_def KAMINO_DEVNET_DEPOSIT_RESERVE_LIQUIDITY_DISCRIMINATOR_def
        KAMINO_DEVNET_WITHDRAW_RESERVE_LIQUIDITY_DISCRIMINATOR_def KAMINO_INIT_OBLIGATION_DISCRIMINATOR_def
        wf_bytes_def wf_u_def)
next
  case MainnetBeta
  then show ?thesis using that well_formed_keysD(1) [OF assms]
    by (simp add: getKaminoUsdcEarnTargetForCluster_def getStablecoinMintForCluster_def
        KAMINO_LEND_PROGRAM_ID_def KAMINO_DEPOSIT_RESERVE_LIQUIDITY_DISCRIMINATOR_def
        KAMINO_WITHDRAW_RESERVE_LIQUIDITY_DISCRIMINATOR_def KAMINO_INIT_OBLIGATION_DISCRIMINATOR_def
        wf_bytes_def wf_u_def)
qed

lemma mints_ok:
  assumes "well_formed_keys w"
  shows "wf_keys (getStablecoinMintsForCluster w c)" "length (getStablecoinMintsForCluster w c) \<le> 6"
  using well_formed_keysD(1) [OF assms]
  by (cases c; simp add: getStablecoinMintsForCluster_def STABLECOINS_def wf_keys_def)+

lemma markets_ok:
  assumes "well_formed_keys w"
  shows "wf_keys (getRiskBasketMarketsForCluster w c r)" "length (getRiskBasketMarketsForCluster w c r) \<le> 12"
  using well_formed_keysD(1) [OF assms]
  by (cases c; cases r; simp add: getRiskBasketMarketsForCluster_def safeMarkets_def mediumMarkets_def wf_keys_def
      KAMINO_MAIN_MARKET_def KAMINO_FIGURE_MARKET_def KAMINO_MAPLE_MARKET_def KAMINO_ONRE_MARKET_def
      KAMINO_ETHENA_MARKET_def KAMINO_JLP_MARKET_def KAMINO_BITCOIN_MARKET_def
      KAMINO_SUPERSTATE_OPENING_BELL_MARKET_def KAMINO_HUMA_MARKET_def KAMINO_SOLSTICE_MARKET_def
      KAMINO_XSTOCKS_MARKET_def KAMINO_ALTCOINS_MARKET_def KAMINO_DEVNET_MAIN_MARKET_def)+

section \<open>The yield-route policy\<close>

lemma wf_yield_route_constraints:
  assumes "well_formed_keys w" "wf_config config" "wf_pubkey vault" "wf_keys markets" "wf_keys mints" "wf_u 2 fee"
    "wf_pubkey (kt_lendProgramId t)" "wf_bytes (kt_withdrawDiscriminator t)" "wf_bytes (kt_depositDiscriminator t)"
  shows "\<forall>c \<in> set (yield_route_constraints w config vault markets mints t lanes fee). wf_instruction_constraint c"
  using assms
  by (auto simp: yield_route_constraints_def lane_constraint_def
      intro: wf_kaminoConstraints wf_jupiterConstraint wf_loyalHubConstraint)

lemma keys_of_constraint_builders:
  "account_keys (pubkeyConstraint i ks ow) = set ks \<union> set_option ow"
  "account_keys (accountDataConstraint i ow) = set_option ow"
  "account_keys (splTokenAuthorityConstraint i a p) = {p}"
  by (simp_all add: account_keys_def pubkeyConstraint_def accountDataConstraint_def splTokenAuthorityConstraint_def)

lemma yield_route_keys:
  assumes "well_formed_keys w" "wf_keys markets" "wf_keys mints"
  shows "policy_keys (yield_route_constraints w config vault markets mints t lanes fee) \<subseteq>
    set ([kt_lendProgramId t, vault, cc_jupiterV6ProgramId config, cc_tokenProgramId config,
      cc_loyalHubSwapProgramId config, deriveLoyalHubConfig w (cc_loyalHubSwapProgramId config),
      cc_loyalHubAuthorizer config] @ markets @ mints)"
  using assms
  by (auto simp: policy_keys_def yield_route_constraints_def lane_constraint_def instruction_keys_def
      kaminoWithdrawConstraint_def kaminoDepositConstraint_def jupiterConstraint_def loyalHubConstraint_def
      Let_def keys_of_constraint_builders wf_keys_def uniquePubkeys_wf split: if_splits)

lemma yield_route_card:
  assumes "well_formed_keys w" "wf_keys markets" "wf_keys mints"
  shows "card (policy_keys (yield_route_constraints w config vault markets mints t lanes fee)) \<le>
    7 + length markets + length mints"
  using card_le_length [OF yield_route_keys [OF assms, of config vault t lanes fee]] by simp

lemma validateInput_ok:
  assumes "validateInput input = Inr ()"
  shows "\<exists>n. requirePolicySeed (yr_policySeed input) = Inr n \<and> wf_u 8 n"
    and "wf_u 1 (int_value (sq_accountIndex (yr_squads input)))"
    and "wf_u 2 (case yr_maxFeeBps input of None \<Rightarrow> DEFAULT_MAX_FEE_BPS | Some b \<Rightarrow> b)"
    and "distinct (yr_swapLanes input)"
proof -
  have distinct: "validate_lanes lanes seen = Inr () \<Longrightarrow> distinct lanes \<and> set lanes \<inter> set seen = {}" for lanes seen
    by (induction lanes arbitrary: seen) (fastforce split: if_splits)+
  show "distinct (yr_swapLanes input)"
    using assms distinct by (auto simp: validateInput_def rbind_eq_Inr)
  show "\<exists>n. requirePolicySeed (yr_policySeed input) = Inr n \<and> wf_u 8 n"
    using assms by (auto simp: validateInput_def requirePolicySeed_def rbind_eq_Inr dest: normalizeU64_wf split: option.splits)
  show "wf_u 1 (int_value (sq_accountIndex (yr_squads input)))"
    using assms by (auto simp: validateInput_def rbind_eq_Inr Let_def wf_u_def split: if_splits)
  show "wf_u 2 (case yr_maxFeeBps input of None \<Rightarrow> DEFAULT_MAX_FEE_BPS | Some b \<Rightarrow> b)"
    using assms by (auto simp: validateInput_def rbind_eq_Inr validate_maxFeeBps_def VALID_MAX_FEE_BPS_def
        Let_def wf_u_def DEFAULT_MAX_FEE_BPS_def split: if_splits option.splits)
qed

text \<open>Where the loop over the lanes leaves the two routes.\<close>

lemma lane_routes_sameMint:
  "rt_sameMint (fst (lane_routes w act dep off lanes acc)) = rt_sameMint (fst acc)"
  by (induction lanes arbitrary: off acc) (simp_all add: Let_def)

lemma lane_routes_present:
  "rt_jupiter (fst (lane_routes w act dep off lanes acc)) \<noteq> None \<longleftrightarrow>
     rt_jupiter (fst acc) \<noteq> None \<or> Jupiter \<in> set lanes"
  "rt_loyal (fst (lane_routes w act dep off lanes acc)) \<noteq> None \<longleftrightarrow>
     rt_loyal (fst acc) \<noteq> None \<or> Loyal \<in> set lanes"
proof (induction lanes arbitrary: off acc)
  case (Cons l ls)
  case 1
  show ?case by (cases l) (simp_all add: Let_def Cons.IH(1) del: not_None_eq)
  case 2
  show ?case by (cases l) (simp_all add: Let_def Cons.IH(2) del: not_None_eq)
qed simp_all

definition lane_route :: "swap_lane \<Rightarrow> yield_routes \<Rightarrow> action_route option" where
  "lane_route lane routes = (if lane = Jupiter then rt_jupiter routes else rt_loyal routes)"

lemma lane_routes_indexes:
  "lane_route lane (fst (lane_routes w act dep off lanes acc)) = Some r \<Longrightarrow> lane_route lane (fst acc) = Some r \<or>
     (\<exists>i < length lanes. lanes ! i = lane \<and> ar_instructionConstraintIndexes r = [0, off + i + 1, dep])"
proof (induction lanes arbitrary: off acc)
  case (Cons l ls)
  from Cons.prems obtain acc' where acc': "lane_route lane (fst (lane_routes w act dep (off + 1) ls acc')) = Some r"
    "lane_route lane (fst acc') =
      (if lane = l then Some \<lparr>ar_actionAccount = act, ar_instructionConstraintIndexes = [0, off + 1, dep]\<rparr>
       else lane_route lane (fst acc))"
    by (cases lane; cases l) (auto simp: Let_def lane_route_def)
  from Cons.IH [OF acc'(1)] show ?case
  proof
    assume "lane_route lane (fst acc') = Some r"
    with acc'(2) show ?thesis by (auto split: if_splits)
  next
    assume "\<exists>i < length ls. ls ! i = lane \<and> ar_instructionConstraintIndexes r = [0, off + 1 + i + 1, dep]"
    then obtain i where "i < length ls" "ls ! i = lane" "ar_instructionConstraintIndexes r = [0, off + 1 + i + 1, dep]"
      by blast
    then show ?thesis by (intro disjI2 exI [of _ "Suc i"]) simp
  qed
qed simp

lemma lane_route_simps [simp]:
  "lane_route lane \<lparr>rt_sameMint = s, rt_jupiter = None, rt_loyal = None\<rparr> = None"
  by (simp add: lane_route_def)

lemma yield_route_nth:
  "yield_route_constraints w config vault markets mints t lanes fee ! 0 =
     kaminoWithdrawConstraint w vault markets mints (kt_lendProgramId t) (kt_withdrawDiscriminator t)"
  "yield_route_constraints w config vault markets mints t lanes fee ! Suc (length lanes) =
     kaminoDepositConstraint w vault markets mints (kt_lendProgramId t) (kt_depositDiscriminator t)"
  "i < length lanes \<Longrightarrow> yield_route_constraints w config vault markets mints t lanes fee ! Suc i =
     lane_constraint w config vault mints fee (lanes ! i)"
  by (simp_all add: yield_route_constraints_def nth_append)

lemma yield_route_plan_instruction:
  assumes wk: "well_formed_keys w" and signer: "wf_pubkey (sq_delegatedSigner (yr_squads input))"
    and vault: "wf_pubkey (sq_vault (yr_squads input))" and valid: "validateInput input = Inr ()"
    and t: "wf_pubkey (kt_lendProgramId t)" "wf_bytes (kt_withdrawDiscriminator t)" "wf_bytes (kt_depositDiscriminator t)"
    and n: "wf_u 8 n"
  defines "cs \<equiv> yield_route_constraints w (clusterConfigFor w (yr_cluster input)) (sq_vault (yr_squads input))
      (getRiskBasketMarketsForCluster w (yr_cluster input) (yr_risk input))
      (getStablecoinMintsForCluster w (yr_cluster input)) t (yr_swapLanes input)
      (case yr_maxFeeBps input of None \<Rightarrow> DEFAULT_MAX_FEE_BPS | Some b \<Rightarrow> b)"
  shows "\<exists>ix. createProgramInteractionPolicyInstruction w (clusterConfigFor w (yr_cluster input))
      (context_of (yr_squads input)) cs (Bigint n) [] Compact = Inr ix \<and>
    read_policy_creation (ix_data ix) = Some (policy_of (context_of (yr_squads input)) n cs [])"
proof (rule createCompact_total [OF well_formed_keysD(5) [OF wk]])
  note v = validateInput_ok [OF valid]
  have lanes: "length (yr_swapLanes input) \<le> 2"
  proof -
    have "card (set (yr_swapLanes input)) \<le> card {Jupiter, Loyal}"
      by (rule card_mono) (use swap_lane.exhaust in auto)
    then show ?thesis using v(4) by (simp add: distinct_card)
  qed
  show "wf_policy (ctx_accountIndex (context_of (yr_squads input))) cs []"
    using v(2) lanes wf_yield_route_constraints [OF wk wf_clusterConfigFor [OF wk] vault markets_ok(1) [OF wk]
        mints_ok(1) [OF wk] v(3) t]
    by (auto simp: wf_policy_def cs_def context_of_def) (simp add: yield_route_constraints_def)
  show "wf_pubkey (ctx_delegatedSigner (context_of (yr_squads input)))" using signer by (simp add: context_of_def)
  have "card (policy_keys cs) \<le> 7 + length (getRiskBasketMarketsForCluster w (yr_cluster input) (yr_risk input)) +
      length (getStablecoinMintsForCluster w (yr_cluster input))"
    unfolding cs_def by (rule yield_route_card [OF wk markets_ok(1) [OF wk] mints_ok(1) [OF wk]])
  then show "card (policy_keys cs) \<le> 240"
    using markets_ok(2) [OF wk, of "yr_cluster input" "yr_risk input"] mints_ok(2) [OF wk, of "yr_cluster input"]
    by simp
  show "normalizeU64 (Bigint n) ''policySeed'' = Inr n" using n by (simp add: normalizeU64_bigint)
qed

section \<open>What a swap lane permits\<close>

text \<open>The authority recorded in a token account, and a 16-bit field of instruction data.\<close>

definition token_authority :: "account_view \<Rightarrow> pubkey" where
  "token_authority a = take 32 (drop 32 (av_data a))"

definition u16_at :: "nat \<Rightarrow> u8 list \<Rightarrow> int option" where
  "u16_at off data = map_option fst (read_le 2 (drop off data))"

lemma holds_token_authority:
  "wf_pubkey authority \<Longrightarrow> holds_account accounts (splTokenAuthorityConstraint i authority p) \<longleftrightarrow>
     nat i < length accounts \<and> token_authority (accounts ! nat i) = authority \<and> av_owner (accounts ! nat i) = p"
  by (auto simp: holds_account_def holds_kind_def splTokenAuthorityConstraint_def Let_def holds_key_slice
      token_authority_def wf_pubkey_def SPL_TOKEN_ACCOUNT_AUTHORITY_OFFSET_def)

lemma holds_u16_le:
  "holds_data data (dataU16LeLessThanOrEqualTo off v) \<longleftrightarrow> (\<exists>x. u16_at (nat off) data = Some x \<and> x \<le> v)"
  by (auto simp: meaning_simps dataU16LeLessThanOrEqualTo_def u16_at_def split: option.splits)

section \<open>Cross-mint policies\<close>

lemma requirePolicySeed_Bigint: "requirePolicySeed (Some (Bigint m)) = Inr n \<Longrightarrow> n = m"
  by (simp add: requirePolicySeed_def normalizeU64_bigint split: if_splits)

lemma wf_jupiterCrossMintConstraint:
  assumes "well_formed_keys w" "wf_config config" "wf_pubkey vault" "length ds \<le> 255" "wf_u 2 slippage"
  shows "wf_instruction_constraint (jupiterCrossMintConstraint w config vault ds dialect slippage)"
proof -
  have "wf_keys (map (\<lambda>(m, p). deriveAssociatedTokenAccount w config vault m p) ds)"
    using assms(4) well_formed_keysD(2) [OF assms(1)] by (auto simp: wf_keys_def deriveAssociatedTokenAccount_def)
  with assms wf_keys_unique [OF assms(1) this] show ?thesis
    by (cases dialect)
      (auto simp: wf_instruction_constraint_def jupiterCrossMintConstraint_def jupiterCrossMint_layout_def Let_def
        wf_config_def wf_u_def JUPITER_SWAP_DISCRIMINATOR_def JUPITER_SWAP_SLIPPAGE_BPS_OFFSET_def
        JUPITER_SWAP_PLATFORM_FEE_BPS_OFFSET_def JUPITER_SHARED_ACCOUNTS_ROUTE_V2_DISCRIMINATOR_def
        JUPITER_SHARED_ACCOUNTS_ROUTE_V2_SLIPPAGE_BPS_OFFSET_def
        JUPITER_SHARED_ACCOUNTS_ROUTE_V2_PLATFORM_FEE_BPS_OFFSET_def wf_bytes_def intro!: wf_dataSliceEquals)
qed

lemma cross_mint_keys:
  assumes "well_formed_keys w"
  shows "policy_keys [jupiterCrossMintConstraint w config vault ds d1 s, jupiterCrossMintConstraint w config vault ds d2 s]
    \<subseteq> set ([cc_jupiterV6ProgramId config, vault] @
        map (\<lambda>(m, p). deriveAssociatedTokenAccount w config vault m p) ds)"
proof -
  have "\<forall>k \<in> set (map (\<lambda>(m, p). deriveAssociatedTokenAccount w config vault m p) ds). wf_pubkey k"
    using well_formed_keysD(2) [OF assms] by (auto simp: deriveAssociatedTokenAccount_def)
  from uniquePubkeys_wf(2) [OF assms this] show ?thesis
    by (auto simp: policy_keys_def instruction_keys_def jupiterCrossMintConstraint_def Let_def
        keys_of_constraint_builders)
qed

lemma mainnet_destinations:
  "cross_mint_destinations w MainnetBeta (getStablecoinsForCluster w MainnetBeta) =
     Inr (map (\<lambda>s. (STABLECOIN_MINTS s w, STABLECOIN_TOKEN_PROGRAMS s w)) STABLECOINS)"
  by (simp add: cross_mint_destinations_def getStablecoinsForCluster_def STABLECOINS_def
      getStablecoinMintForCluster_def getStablecoinTokenProgramForCluster_def)

lemma mainnet_sources:
  assumes "TOKEN_2022_PROGRAM_ID w \<noteq> cc_tokenProgramId (clusterConfigFor w MainnetBeta)"
  shows "cross_mint_sources (clusterConfigFor w MainnetBeta) shard
      (map (\<lambda>s. (STABLECOIN_MINTS s w, STABLECOIN_TOKEN_PROGRAMS s w)) STABLECOINS) =
    map (\<lambda>s. STABLECOIN_MINTS s w) (if shard = Classic then [USDC, USDT, USDS] else [CASH, USDG, PYUSD])"
  using assms by (simp add: cross_mint_sources_def STABLECOINS_def clusterConfigFor_def sharedConfig_def)

definition cross_mint_source_coins :: "source_shard \<Rightarrow> stablecoin list" where
  "cross_mint_source_coins shard = (if shard = Classic then [USDC, USDT, USDS] else [CASH, USDG, PYUSD])"

lemma cross_mint_plan_ok:
  assumes wk: "well_formed_keys w" and signer: "wf_pubkey (sq_delegatedSigner (cm_squads input))"
    and vault: "wf_pubkey (sq_vault (cm_squads input))" and cluster: "cm_cluster input = MainnetBeta"
    and tokens: "TOKEN_2022_PROGRAM_ID w \<noteq> cc_tokenProgramId (clusterConfigFor w MainnetBeta)"
    and valid: "validateJupiterCrossMintPolicyInput input = Inr ()"
  shows "\<exists>plan ix policy cap. createJupiterCrossMintPolicyPlan w input = Inr plan \<and> xp_instructions plan = [ix] \<and>
    read_policy_creation (ix_data ix) = Some policy \<and>
    normalizeU64 (cm_dailySourceMintSpendingCap input) ''dailySourceMintSpendingCap'' = Inr cap \<and> cap > 0 \<and>
    requirePolicySeed (cm_policySeed input) = Inr (pc_seed policy) \<and>
    pc_spendingLimits policy =
      map (\<lambda>c. \<lparr>sl_mint = STABLECOIN_MINTS c w, sl_maxPerPeriod = cap\<rparr>) (cross_mint_source_coins (cm_sourceShard input))"
proof -
  let ?config = "clusterConfigFor w MainnetBeta" and ?squads = "cm_squads input"
  let ?ds = "map (\<lambda>s. (STABLECOIN_MINTS s w, STABLECOIN_TOKEN_PROGRAMS s w)) STABLECOINS"
  let ?m = "int_value (cm_maxSlippageBps input)"
  let ?cs = "[jupiterCrossMintConstraint w ?config (sq_vault ?squads) ?ds Route_v2 ?m,
    jupiterCrossMintConstraint w ?config (sq_vault ?squads) ?ds Shared_accounts_route_v2 ?m]"
  from valid obtain cap n where
    cap: "normalizeU64 (cm_dailySourceMintSpendingCap input) ''dailySourceMintSpendingCap'' = Inr cap" "cap \<noteq> 0"
    and n: "requirePolicySeed (cm_policySeed input) = Inr n"
    and ranges: "wf_u 2 ?m" "wf_u 1 (int_value (sq_accountIndex ?squads))"
    by (auto simp: validateJupiterCrossMintPolicyInput_def validateVaultIndex_def rbind_eq_Inr Let_def wf_u_def
        split: if_splits)
  have wfn: "wf_u 8 n" using n by (auto simp: requirePolicySeed_def dest: normalizeU64_wf split: option.splits)
  have wfcap: "wf_u 8 cap" by (rule normalizeU64_wf [OF cap(1)])
  let ?ls = "map (\<lambda>mint. \<lparr>sl_mint = mint, sl_maxPerPeriod = cap\<rparr>)
    (cross_mint_sources ?config (cm_sourceShard input) ?ds)"
  have src: "cross_mint_sources ?config (cm_sourceShard input) ?ds =
      map (\<lambda>s. STABLECOIN_MINTS s w) (cross_mint_source_coins (cm_sourceShard input))"
    using mainnet_sources [OF tokens] by (simp add: cross_mint_source_coins_def)
  have six: "length ?ds = 6" by (simp add: STABLECOINS_def)
  have mints: "wf_pubkey (STABLECOIN_MINTS s w)" for s using well_formed_keysD(1) [OF wk] by (cases s) simp_all
  have "\<exists>ix. createProgramInteractionPolicyInstruction w ?config (context_of ?squads) ?cs (Bigint n) ?ls Compact = Inr ix \<and>
      read_policy_creation (ix_data ix) = Some (policy_of (context_of ?squads) n ?cs ?ls)"
  proof (rule createCompact_total [OF well_formed_keysD(5) [OF wk]])
    have "length ?ds \<le> 255" using six by simp
    note wfc = wf_jupiterCrossMintConstraint [OF wk wf_clusterConfigFor [OF wk] vault this ranges(1)]
    show "wf_policy (ctx_accountIndex (context_of ?squads)) ?cs ?ls"
      using ranges(2) wfc mints wfcap
      by (auto simp: wf_policy_def context_of_def src wf_spending_limit_def cross_mint_source_coins_def)
    show "wf_pubkey (ctx_delegatedSigner (context_of ?squads))" using signer by (simp add: context_of_def)
    show "card (policy_keys ?cs) \<le> 240"
      using card_le_length [OF cross_mint_keys [OF wk, of ?config "sq_vault ?squads" ?ds Route_v2 ?m
            Shared_accounts_route_v2]] six by (simp only: length_append length_map) simp
    show "normalizeU64 (Bigint n) ''policySeed'' = Inr n" using wfn by (simp add: normalizeU64_bigint)
  qed
  then obtain ix where ix: "createProgramInteractionPolicyInstruction w ?config (context_of ?squads) ?cs (Bigint n) ?ls Compact = Inr ix"
    "read_policy_creation (ix_data ix) = Some (policy_of (context_of ?squads) n ?cs ?ls)" by blast
  have three: "length (cross_mint_sources ?config (cm_sourceShard input) ?ds) = 3"
    by (simp add: src cross_mint_source_coins_def)
  have coins: "length (getStablecoinsForCluster w MainnetBeta) = 6"
    by (simp add: getStablecoinsForCluster_def STABLECOINS_def)
  obtain act where act: "deriveActionAccount w ?config (sq_settings ?squads) (Bigint n) = Inr act"
    using wfn by (simp add: deriveActionAccount_def normalizeU64_bigint)
  have "\<exists>plan. createJupiterCrossMintPolicyPlan w input = Inr plan \<and> xp_instructions plan = [ix]"
    using valid n cap(1) coins mainnet_destinations [of w] three act ix(1)
    by (simp add: createJupiterCrossMintPolicyPlan_def Let_def cluster)
  then show ?thesis
    using ix(2) cap wfcap n by (auto simp: policy_of_def src comp_def wf_u_def)
qed

section \<open>Properties\<close>


lemma well_formed_example: "well_formed_keys example_web3"
  using inj_example_web3
  by (auto simp: well_formed_keys_def wf_pubkey_def example_web3_def utf8_bytes_def min_def)

definition example_squads :: squads_input where
  "example_squads = \<lparr>sq_settings = key_of 1, sq_authority = key_of 2, sq_delegatedSigner = key_of 3,
     sq_accountIndex = Finite 1, sq_vault = key_of 4\<rparr>"

definition example_yield_input :: yield_route_input where
  "example_yield_input = \<lparr>yr_cluster = MainnetBeta, yr_policySeed = Some (Number (Finite 7)), yr_risk = Medium,
     yr_swapLanes = [Loyal, Jupiter], yr_maxFeeBps = Some 50, yr_squads = example_squads\<rparr>"

lemma example_mints_distinct: "distinct (getStablecoinMintsForCluster example_web3 MainnetBeta)"
  by code_simp


text \<open>
  C9.  Whatever a swap lane of the policy permits is a call of that lane's program in which both
  mints are registry mints, both of the user's token accounts are owned by the vault, and the
  slippage (Jupiter) or fee (Loyal hub) in the instruction data is at most the configured limit.
\<close>

theorem swap_lane_bounds:
  assumes "well_formed_keys w" and "wf_keys mints" and "wf_pubkey vault"
    and "permits (lane_constraint w config vault mints fee lane) program accounts data"
  shows "case lane of
      Jupiter \<Rightarrow> program = cc_jupiterV6ProgramId config \<and> av_key (accounts ! 0) = vault \<and>
        {av_key (accounts ! 3), av_key (accounts ! 4)} \<subseteq> set mints \<and>
        token_authority (accounts ! 1) = vault \<and> token_authority (accounts ! 2) = vault \<and>
        (\<exists>slippage. u16_at 24 data = Some slippage \<and> slippage \<le> fee)
    | Loyal \<Rightarrow> program = cc_loyalHubSwapProgramId config \<and> av_key (accounts ! 1) = vault \<and>
        {av_key (accounts ! 6), av_key (accounts ! 7)} \<subseteq> set mints \<and>
        token_authority (accounts ! 2) = vault \<and> token_authority (accounts ! 3) = vault \<and>
        av_key (accounts ! 9) = cc_loyalHubAuthorizer config \<and>
        (\<exists>bps. u16_at 25 data = Some bps \<and> bps \<le> fee)"
proof (cases lane)
  case Jupiter
  with assms show ?thesis
    by (auto simp: lane_constraint_def jupiterConstraint_def permits_def holds_pubkeyConstraint Let_def
        holds_token_authority holds_u16_le uniquePubkeys_wf wf_keys_def JUPITER_SWAP_SLIPPAGE_BPS_OFFSET_def)
next
  case Loyal
  with assms show ?thesis
    by (auto simp: lane_constraint_def loyalHubConstraint_def permits_def holds_pubkeyConstraint Let_def
        holds_token_authority holds_u16_le uniquePubkeys_wf wf_keys_def swapExactInAccounts_def
        SWAP_EXACT_IN_MAX_FEE_BPS_DATA_OFFSET_def)
qed

definition example_swap_accounts :: "account_view list" where
  "example_swap_accounts =
     (let token = key_of 14; owned = replicate 32 0 @ key_of 4 in
      [\<lparr>av_key = key_of 4, av_owner = key_of 0, av_data = []\<rparr>,
       \<lparr>av_key = key_of 70, av_owner = token, av_data = owned\<rparr>,
       \<lparr>av_key = key_of 71, av_owner = token, av_data = owned\<rparr>,
       \<lparr>av_key = key_of 60, av_owner = token, av_data = []\<rparr>,
       \<lparr>av_key = key_of 61, av_owner = token, av_data = []\<rparr>,
       \<lparr>av_key = token, av_owner = token, av_data = []\<rparr>])"

definition example_swap_data :: "u8 list" where
  "example_swap_data = [187, 100, 250, 204, 49, 196, 175, 20] @ replicate 16 0 @ [40, 0]"

theorem swap_lane_bounds_witness:
  "permits (lane_constraint example_web3 example_config (key_of 4) [key_of 60, key_of 61] 50 Jupiter)
     (key_of 11) example_swap_accounts example_swap_data \<and>
   (\<exists>slippage. u16_at 24 example_swap_data = Some slippage \<and> slippage \<le> 50)"
proof -
  have p: "permits (lane_constraint example_web3 example_config (key_of 4) [key_of 60, key_of 61] 50 Jupiter)
     (key_of 11) example_swap_accounts example_swap_data" by code_simp
  have "wf_keys [key_of 60, key_of 61]" "wf_pubkey (key_of 4)" by (simp_all add: wf_keys_def wf_pubkey_def key_of_def)
  from swap_lane_bounds [OF well_formed_example this p] p show ?thesis by simp
qed


definition example_cross_input :: cross_mint_set_input where
  "example_cross_input = \<lparr>cs_cluster = MainnetBeta, cs_classicSeed = Some (Bigint 1), cs_token2022Seed = Some (Bigint 2),
     cs_maxSlippageBps = Finite 30, cs_dailySourceMintSpendingCap = Bigint 1000000, cs_squads = example_squads\<rparr>"


end
