(* ===== verification/Realtime_Types.thy ===== *)
theory Realtime_Types
  imports Js_Values
begin

text \<open>
  The realtime messages of \<open>apps/web/src/features/earn-realtime/types.ts\<close>, the refresh plan a batch of
  them implies (\<open>invalidation.ts\<close>) and the progress state of an autodeposit execution.  Event ids are
  decimal strings, compared as integers.
\<close>

section \<open>Messages\<close>

datatype progress_state =
    Scheduled | Requested | Selected | Pull_confirmed | Completed | Failed | Canceled | Released

definition EARN_AUTODEPOSIT_PROGRESS_STATES :: "(string \<times> progress_state) list" where
  "EARN_AUTODEPOSIT_PROGRESS_STATES =
     [(''scheduled'', Scheduled), (''requested'', Requested), (''selected'', Selected),
      (''pull_confirmed'', Pull_confirmed), (''completed'', Completed), (''failed'', Failed),
      (''canceled'', Canceled), (''released'', Released)]"

record event_types =
  et_allowance :: string
  et_autoswap :: string
  et_autodeposit :: string
  et_onboarding :: string
  et_position :: string
  et_rebalance :: string
  et_transaction :: string

definition EARN_REALTIME_EVENT_TYPES :: event_types where
  "EARN_REALTIME_EVENT_TYPES =
     \<lparr>et_allowance = ''earn.autodeposit.configuration.changed'',
      et_autoswap = ''earn.autoswap.configuration.changed'',
      et_autodeposit = ''earn.autodeposit.execution.changed'',
      et_onboarding = ''earn.onboarding.changed'',
      et_position = ''earn.position.changed'',
      et_rebalance = ''earn.rebalance.confirmed'',
      et_transaction = ''earn.transaction.recorded''\<rparr>"

definition KNOWN_EVENT_TYPES :: "string list" where
  "KNOWN_EVENT_TYPES =
     map (\<lambda>f. f EARN_REALTIME_EVENT_TYPES)
       [et_allowance, et_autoswap, et_autodeposit, et_onboarding, et_position, et_rebalance, et_transaction]"

text \<open>\<open>ev_unsupportedState\<close> is \<open>protocolIssue === "unsupported_state"\<close>.\<close>

record invalidation =
  ev_eventId :: string
  ev_eventType :: string
  ev_occurredAt :: string
  ev_scope :: string
  ev_state :: "progress_state option"
  ev_reason :: "string option"
  ev_targetId :: "string option"
  ev_scheduledSlotId :: "string option"
  ev_executionId :: "string option"
  ev_failureCode :: "string option"
  ev_unsupportedState :: bool

datatype realtime_message =
    Invalidation invalidation
  | Resync_required string

definition EARN_REALTIME_SCHEMA_VERSION :: json where
  "EARN_REALTIME_SCHEMA_VERSION = JNumber (Finite 1)"

definition parseEarnRealtimeMessage :: "json \<Rightarrow> realtime_message option" where
  "parseEarnRealtimeMessage v =
     (if \<not> isObject v \<or> get_prop v ''schemaVersion'' \<noteq> Some EARN_REALTIME_SCHEMA_VERSION then None
      else case string_prop v ''eventType'' of
        None \<Rightarrow> None
      | Some eventType \<Rightarrow>
          if eventType = ''resync_required'' then map_option Resync_required (string_prop v ''reason'')
          else case (string_prop v ''eventId'', string_prop v ''occurredAt'', string_prop v ''scope'') of
            (Some eventId, Some occurredAt, Some scope) \<Rightarrow>
              if \<not> decimal_pattern eventId then None
              else if get_prop v ''state'' \<noteq> None \<and> string_prop v ''state'' = None then None
              else
                let rawState = string_prop v ''state'';
                    state = Option.bind rawState (map_of EARN_AUTODEPOSIT_PROGRESS_STATES) in
                Some (Invalidation
                  \<lparr>ev_eventId = eventId, ev_eventType = eventType, ev_occurredAt = occurredAt, ev_scope = scope,
                   ev_state = state, ev_reason = string_prop v ''reason'',
                   ev_targetId = string_prop v ''targetId'',
                   ev_scheduledSlotId = string_prop v ''scheduledSlotId'',
                   ev_executionId = string_prop v ''executionId'',
                   ev_failureCode = string_prop v ''failureCode'',
                   ev_unsupportedState = (rawState \<noteq> None \<and> state = None)\<rparr>)
          | _ \<Rightarrow> None)"

datatype issue_kind = Unknown_event_type | Unsupported_state

record protocol_issue =
  pi_eventId :: string
  pi_eventType :: string
  pi_kind :: issue_kind

definition resolveEarnRealtimeProtocolIssue :: "invalidation \<Rightarrow> protocol_issue option" where
  "resolveEarnRealtimeProtocolIssue event =
     (let issue = (\<lambda>k. Some \<lparr>pi_eventId = ev_eventId event, pi_eventType = ev_eventType event, pi_kind = k\<rparr>) in
      if ev_eventType event \<notin> set KNOWN_EVENT_TYPES then issue Unknown_event_type
      else if ev_unsupportedState event then issue Unsupported_state
      else if ev_eventType event = et_autodeposit EARN_REALTIME_EVENT_TYPES \<and> ev_state event = None
      then issue Unsupported_state
      else None)"

section \<open>Refresh plan\<close>

record refresh_plan =
  rp_earnings :: bool
  rp_earnState :: bool
  rp_position :: bool
  rp_transactions :: bool

definition empty_plan :: refresh_plan where
  "empty_plan = \<lparr>rp_earnings = False, rp_earnState = False, rp_position = False, rp_transactions = False\<rparr>"

definition refresh_autodeposit :: "progress_state option \<Rightarrow> refresh_plan \<Rightarrow> refresh_plan" where
  "refresh_autodeposit s plan =
     (if s = Some Scheduled then plan\<lparr>rp_earnState := True\<rparr>
      else if s = Some Pull_confirmed then plan\<lparr>rp_position := True, rp_transactions := True\<rparr>
      else if s = Some Completed then
        plan\<lparr>rp_earnState := True, rp_position := True, rp_transactions := True, rp_earnings := True\<rparr>
      else if s = Some Failed then plan\<lparr>rp_earnState := True, rp_position := True, rp_transactions := True\<rparr>
      else if s = Some Released \<or> s = Some Canceled then plan\<lparr>rp_earnState := True\<rparr>
      else plan)"

definition refresh_event :: "invalidation \<Rightarrow> refresh_plan \<Rightarrow> refresh_plan" where
  "refresh_event event plan =
     (let T = EARN_REALTIME_EVENT_TYPES; t = ev_eventType event in
      if t = et_autodeposit T then refresh_autodeposit (ev_state event) plan
      else if t = et_allowance T \<or> t = et_autoswap T then
        let plan = plan\<lparr>rp_earnState := True\<rparr> in
        if t = et_allowance T then plan\<lparr>rp_transactions := True\<rparr> else plan
      else if t = et_rebalance T then
        plan\<lparr>rp_position := True, rp_transactions := True, rp_earnings := True\<rparr>
      else if t = et_transaction T then plan\<lparr>rp_transactions := True, rp_earnings := True\<rparr>
      else if t = et_position T then plan\<lparr>rp_position := True, rp_earnings := True\<rparr>
      else if t = et_onboarding T then plan\<lparr>rp_earnState := True\<rparr>
      else plan)"

definition resolveEarnRealtimeRefreshPlan :: "invalidation list \<Rightarrow> refresh_plan" where
  "resolveEarnRealtimeRefreshPlan events = fold refresh_event events empty_plan"

section \<open>Autodeposit progress\<close>

datatype display_state = Progress progress_state | Requesting

record autodeposit_progress =
  ap_eventId :: "string option"
  ap_failureCode :: "string option"
  ap_occurredAt :: "string option"
  ap_scheduledSlotId :: string
  ap_state :: display_state

definition isEarnAutodepositTerminalState :: "display_state \<Rightarrow> bool" where
  "isEarnAutodepositTerminalState s \<longleftrightarrow>
     s \<in> set (map Progress [Completed, Failed, Released, Canceled])"

fun AUTODEPOSIT_STATE_RANK :: "display_state \<Rightarrow> nat" where
  "AUTODEPOSIT_STATE_RANK (Progress Scheduled) = 0"
| "AUTODEPOSIT_STATE_RANK Requesting = 1"
| "AUTODEPOSIT_STATE_RANK (Progress Requested) = 2"
| "AUTODEPOSIT_STATE_RANK (Progress Selected) = 3"
| "AUTODEPOSIT_STATE_RANK (Progress Pull_confirmed) = 4"
| "AUTODEPOSIT_STATE_RANK (Progress Completed) = 5"
| "AUTODEPOSIT_STATE_RANK (Progress Failed) = 5"
| "AUTODEPOSIT_STATE_RANK (Progress Released) = 5"
| "AUTODEPOSIT_STATE_RANK (Progress Canceled) = 5"

definition mergeEarnAutodepositProgress ::
    "autodeposit_progress option \<Rightarrow> autodeposit_progress \<Rightarrow> autodeposit_progress" where
  "mergeEarnAutodepositProgress current next =
     (case current of
        None \<Rightarrow> next
      | Some cur \<Rightarrow>
          if ap_scheduledSlotId cur \<noteq> ap_scheduledSlotId next then next
          else if truthy (ap_eventId cur) \<and> truthy (ap_eventId next) then
            (if parse_dec (the (ap_eventId next)) > parse_dec (the (ap_eventId cur)) then next else cur)
          else if truthy (ap_eventId cur) \<and> \<not> truthy (ap_eventId next) then cur
          else if AUTODEPOSIT_STATE_RANK (ap_state next) \<ge> AUTODEPOSIT_STATE_RANK (ap_state cur) then next
          else cur)"

section \<open>Lemmas\<close>

definition join_plan :: "refresh_plan \<Rightarrow> refresh_plan \<Rightarrow> refresh_plan" where
  "join_plan a b =
     \<lparr>rp_earnings = (rp_earnings a \<or> rp_earnings b), rp_earnState = (rp_earnState a \<or> rp_earnState b),
      rp_position = (rp_position a \<or> rp_position b), rp_transactions = (rp_transactions a \<or> rp_transactions b)\<rparr>"

lemma refresh_autodeposit_join: "refresh_autodeposit s plan = join_plan plan (refresh_autodeposit s empty_plan)"
  by (simp add: refresh_autodeposit_def join_plan_def empty_plan_def)

lemma refresh_event_join: "refresh_event e plan = join_plan plan (refresh_event e empty_plan)"
  using refresh_autodeposit_join [of "ev_state e" plan]
  by (simp add: refresh_event_def Let_def join_plan_def empty_plan_def)

lemma join_plan_simps [simp]:
  "join_plan (join_plan a b) c = join_plan a (join_plan b c)" "join_plan empty_plan a = a" "join_plan a empty_plan = a"
  by (simp_all add: join_plan_def empty_plan_def disj_assoc)

lemma fold_refresh: "fold refresh_event es plan = join_plan plan (fold refresh_event es empty_plan)"
proof (induction es arbitrary: plan)
  case (Cons e es)
  have "fold refresh_event (e # es) plan = join_plan (refresh_event e plan) (fold refresh_event es empty_plan)"
    using Cons.IH [of "refresh_event e plan"] by simp
  also have "\<dots> = join_plan plan (join_plan (refresh_event e empty_plan) (fold refresh_event es empty_plan))"
    by (subst refresh_event_join) simp
  also have "\<dots> = join_plan plan (fold refresh_event (e # es) empty_plan)"
    using Cons.IH [of "refresh_event e empty_plan"] by simp
  finally show ?case .
qed simp

lemma refresh_plan_Cons:
  "resolveEarnRealtimeRefreshPlan (e # es) =
     join_plan (resolveEarnRealtimeRefreshPlan [e]) (resolveEarnRealtimeRefreshPlan es)"
  using fold_refresh [of es "refresh_event e empty_plan"] by (simp add: resolveEarnRealtimeRefreshPlan_def)

definition with_event_id :: "string \<Rightarrow> autodeposit_progress \<Rightarrow> bool" where
  "with_event_id slot p \<longleftrightarrow> ap_scheduledSlotId p = slot \<and> truthy (ap_eventId p)"

abbreviation progress_id :: "autodeposit_progress \<Rightarrow> nat" where
  "progress_id p \<equiv> parse_dec (the (ap_eventId p))"

definition merge_all :: "autodeposit_progress list \<Rightarrow> autodeposit_progress option" where
  "merge_all ps = foldl (\<lambda>c n. Some (mergeEarnAutodepositProgress c n)) None ps"

lemma merge_with_ids:
  "with_event_id slot c \<Longrightarrow> with_event_id slot n \<Longrightarrow>
   mergeEarnAutodepositProgress (Some c) n = (if progress_id n > progress_id c then n else c)"
  by (simp add: mergeEarnAutodepositProgress_def with_event_id_def)

lemma merge_all_latest:
  "ps \<noteq> [] \<Longrightarrow> \<forall>p \<in> set ps. with_event_id slot p \<Longrightarrow>
   \<exists>p. merge_all ps = Some p \<and> p \<in> set ps \<and> (\<forall>q \<in> set ps. progress_id q \<le> progress_id p)"
proof (induction ps rule: rev_induct)
  case (snoc x xs)
  show ?case
  proof (cases "xs = []")
    case True
    then show ?thesis by (simp add: merge_all_def mergeEarnAutodepositProgress_def)
  next
    case False
    with snoc obtain p where p: "merge_all xs = Some p" "p \<in> set xs" "\<forall>q \<in> set xs. progress_id q \<le> progress_id p"
      by auto
    have "merge_all (xs @ [x]) = Some (if progress_id x > progress_id p then x else p)"
      using p(1,2) snoc.prems by (simp add: merge_all_def merge_with_ids [of slot])
    with p show ?thesis by fastforce
  qed
qed simp

section \<open>Properties\<close>

text \<open>
  Batching never loses or adds a refresh: a resource is refreshed after a batch exactly when some
  event of the batch asks for it, whatever the order and grouping of the events.
\<close>

theorem refresh_plan_is_union:
  "rp_earnings (resolveEarnRealtimeRefreshPlan es) = (\<exists>e \<in> set es. rp_earnings (resolveEarnRealtimeRefreshPlan [e])) \<and>
   rp_earnState (resolveEarnRealtimeRefreshPlan es) = (\<exists>e \<in> set es. rp_earnState (resolveEarnRealtimeRefreshPlan [e])) \<and>
   rp_position (resolveEarnRealtimeRefreshPlan es) = (\<exists>e \<in> set es. rp_position (resolveEarnRealtimeRefreshPlan [e])) \<and>
   rp_transactions (resolveEarnRealtimeRefreshPlan es) =
     (\<exists>e \<in> set es. rp_transactions (resolveEarnRealtimeRefreshPlan [e]))"
proof (induction es)
  case Nil
  show ?case by (simp add: resolveEarnRealtimeRefreshPlan_def empty_plan_def)
next
  case (Cons e es)
  then show ?case unfolding refresh_plan_Cons [of e es] by (simp add: join_plan_def)
qed


definition example_progress :: "nat \<Rightarrow> progress_state \<Rightarrow> autodeposit_progress" where
  "example_progress n s = \<lparr>ap_eventId = Some (show_dec n), ap_failureCode = None, ap_occurredAt = None,
     ap_scheduledSlotId = ''7'', ap_state = Progress s\<rparr>"


end
