(* ===== verification/Sse_Stream.thy ===== *)
theory Sse_Stream
  imports Realtime_Types
begin

text \<open>
  The event stream of \<open>earn-realtime/stream.ts\<close>: the access token and its cache, splitting the text of
  the response into frames, and the loop that delivers invalidations.  The server is the argument
  \<open>fetch\<close>, from the address and the headers of a request to its response.  A read of the response body is a decoded chunk, the end of the
  stream, or the silence timeout; \<open>JSON.parse\<close> is the argument \<open>json_parse\<close>, with \<open>None\<close> where it throws.
\<close>

section \<open>Tokens\<close>

record token_response =
  tk_accessToken :: string
  tk_eventsUrl :: string
  tk_expiresAt :: string

datatype error_phase = Stream_phase | Token_phase

datatype realtime_error = Http_error int error_phase | Silence_error | Unavailable | Rejected

definition isEarnRealtimeAuthRejection :: "realtime_error \<Rightarrow> bool" where
  "isEarnRealtimeAuthRejection e =
     (case e of Http_error status phase \<Rightarrow> phase = Stream_phase \<and> (status = 401 \<or> status = 403) | _ \<Rightarrow> False)"

definition isTokenResponse :: "json \<Rightarrow> token_response option" where
  "isTokenResponse v =
     (if isObject v \<and> get_prop v ''schemaVersion'' = Some (JNumber (Finite 1)) then
        (case (string_prop v ''accessToken'', string_prop v ''eventsUrl'', string_prop v ''expiresAt'') of
           (Some accessToken, Some eventsUrl, Some expiresAt) \<Rightarrow>
             Some \<lparr>tk_accessToken = accessToken, tk_eventsUrl = eventsUrl, tk_expiresAt = expiresAt\<rparr>
         | _ \<Rightarrow> None)
      else None)"

text \<open>
  The response of the token endpoint: \<open>ok\<close>, the status and the decoded body, \<open>JNull\<close> when decoding
  failed.
\<close>

definition requestEarnRealtimeToken :: "bool \<Rightarrow> int \<Rightarrow> json \<Rightarrow> realtime_error + token_response" where
  "requestEarnRealtimeToken ok status payload =
     (if \<not> ok then Inl (Http_error status Token_phase)
      else case isTokenResponse payload of None \<Rightarrow> Inl Unavailable | Some token \<Rightarrow> Inr token)"

text \<open>\<open>EarnRealtimeTokenCache\<close>: \<open>getTime\<close> is \<open>new Date(text).getTime()\<close>, \<open>None\<close> for an invalid date.\<close>

definition renewalDelayMs :: "(string \<Rightarrow> int option) \<Rightarrow> int \<Rightarrow> int \<Rightarrow> token_response \<Rightarrow> int" where
  "renewalDelayMs getTime renewalLeadMs now token =
     (case getTime (tk_expiresAt token) of
        Some expiresAtMs \<Rightarrow> expiresAtMs - now - renewalLeadMs
      | None \<Rightarrow> 0)"

definition token_cache_get ::
    "(string \<Rightarrow> int option) \<Rightarrow> int \<Rightarrow> int \<Rightarrow> realtime_error + token_response \<Rightarrow> token_response option \<Rightarrow>
     (realtime_error + token_response) \<times> token_response option" where
  "token_cache_get getTime renewalLeadMs now request current =
     (case current of
        Some token \<Rightarrow>
          if renewalDelayMs getTime renewalLeadMs now token > 0 then (Inr token, current)
          else (case request of Inl e \<Rightarrow> (Inl e, current) | Inr token \<Rightarrow> (Inr token, Some token))
      | None \<Rightarrow> (case request of Inl e \<Rightarrow> (Inl e, current) | Inr token \<Rightarrow> (Inr token, Some token)))"

definition token_cache_clear :: "token_response option \<Rightarrow> token_response option" where
  "token_cache_clear current = None"

lemma token_cache_fresh:
  "token_cache_get getTime lead now request current = (Inr token, current') \<Longrightarrow>
   current' = Some token \<and>
   (request = Inr token \<or> (\<exists>t. getTime (tk_expiresAt token) = Some t \<and> now + lead < t))"
  by (auto simp: token_cache_get_def renewalDelayMs_def split: option.splits sum.splits if_splits)

section \<open>Frames\<close>

abbreviation CR :: char where "CR \<equiv> CHR 0x0D"
abbreviation LF :: char where "LF \<equiv> CHR 0x0A"

text \<open>\<open>strip_eol s\<close> is what follows when \<open>s\<close> starts with \<open>\r?\n\<close>.\<close>

definition strip_eol :: "string \<Rightarrow> string option" where
  "strip_eol s =
     (case s of
        [] \<Rightarrow> None
      | c # r \<Rightarrow>
          if c = LF then Some r
          else if c = CR then (case r of [] \<Rightarrow> None | d # r' \<Rightarrow> if d = LF then Some r' else None)
          else None)"

definition strip_boundary :: "string \<Rightarrow> string option" where
  "strip_boundary s = Option.bind (strip_eol s) strip_eol"

text \<open>The leftmost match of \<open>/\r?\n\r?\n/\<close>: the text before it and the text after it.\<close>

fun match_boundary :: "string \<Rightarrow> (string \<times> string) option" where
  "match_boundary [] = None"
| "match_boundary (c # s) =
     (case strip_boundary (c # s) of
        Some rest \<Rightarrow> Some ([], rest)
      | None \<Rightarrow> map_option (\<lambda>(block, rest). (c # block, rest)) (match_boundary s))"

lemma strip_eol_length: "strip_eol s = Some r \<Longrightarrow> length r < length s"
  by (auto simp: strip_eol_def split: list.splits if_splits)

lemma strip_boundary_length: "strip_boundary s = Some r \<Longrightarrow> length r < length s"
  by (auto simp: strip_boundary_def Option.bind_eq_Some_conv dest!: strip_eol_length)

lemma match_boundary_length: "match_boundary s = Some (b, r) \<Longrightarrow> length r < length s"
  by (induction s arbitrary: b) (auto split: option.splits dest: strip_boundary_length)

text \<open>\<open>split(/\r?\n/)\<close>.\<close>

function split_lines :: "string \<Rightarrow> string list" where
  "split_lines [] = [[]]"
| "split_lines (c # s) =
     (case strip_eol (c # s) of
        Some rest \<Rightarrow> [] # split_lines rest
      | None \<Rightarrow> (case split_lines s of [] \<Rightarrow> [[c]] | l # ls \<Rightarrow> (c # l) # ls))"
  by pat_completeness auto
termination
  by (relation "measure length") (auto dest: strip_eol_length)

record sse_frame =
  fr_data :: string
  fr_event :: "string option"
  fr_id :: "string option"

definition parse_line :: "string \<Rightarrow> sse_frame \<Rightarrow> sse_frame" where
  "parse_line line frame =
     (if line = [] \<or> hd line = CHR '':'' then frame
      else
        let field = takeWhile (\<lambda>c. c \<noteq> CHR '':'') line;
            after = drop (length field + 1) line;
            v = (if CHR '':'' \<notin> set line then []
                 else case after of CHR '' '' # r \<Rightarrow> r | _ \<Rightarrow> after) in
        if field = ''id'' then frame\<lparr>fr_id := Some v\<rparr>
        else if field = ''event'' then frame\<lparr>fr_event := Some v\<rparr>
        else if field = ''data'' then
          frame\<lparr>fr_data := (if fr_data frame \<noteq> [] then fr_data frame @ [LF] @ v else v)\<rparr>
        else frame)"

definition parseSseFrame :: "string \<Rightarrow> sse_frame option" where
  "parseSseFrame block =
     (let frame = fold parse_line (split_lines block) \<lparr>fr_data = [], fr_event = None, fr_id = None\<rparr> in
      if truthy (fr_id frame) \<or> truthy (fr_event frame) \<or> fr_data frame \<noteq> [] then Some frame else None)"

text \<open>\<open>SseFrameParser.push\<close>: the loop over the buffer returns the frames and the new buffer.\<close>

function frame_loop :: "string \<Rightarrow> sse_frame list \<times> string" where
  "frame_loop buf =
     (case match_boundary buf of
        None \<Rightarrow> ([], buf)
      | Some (block, rest) \<Rightarrow>
          (case frame_loop rest of (frames, b) \<Rightarrow>
             ((case parseSseFrame block of None \<Rightarrow> frames | Some frame \<Rightarrow> frame # frames), b)))"
  by pat_completeness auto
termination
  by (relation "measure length") (auto dest: match_boundary_length)

declare frame_loop.simps [simp del]

definition sse_push :: "string \<Rightarrow> string \<Rightarrow> sse_frame list \<times> string" where
  "sse_push buf chunk = frame_loop (buf @ chunk)"

section \<open>The delivery loop\<close>

definition compareDecimalEventIds :: "string \<Rightarrow> string \<Rightarrow> int" where
  "compareDecimalEventIds l r =
     (let leftValue = parse_dec l; rightValue = parse_dec r in
      if leftValue < rightValue then -1 else if leftValue > rightValue then 1 else 0)"

datatype frame_action = Skip | Deliver invalidation | Stop string

definition handle_frame :: "(string \<Rightarrow> json option) \<Rightarrow> string option \<Rightarrow> sse_frame \<Rightarrow> frame_action" where
  "handle_frame json_parse lastEventId frame =
     (if fr_event frame \<noteq> Some ''loyal_yield'' \<or> fr_data frame = [] then Skip
      else case json_parse (fr_data frame) of
        None \<Rightarrow> Skip
      | Some decoded \<Rightarrow>
          (case parseEarnRealtimeMessage decoded of
             None \<Rightarrow> Skip
           | Some (Resync_required reason) \<Rightarrow> Stop reason
           | Some (Invalidation message) \<Rightarrow>
               if \<not> truthy (fr_id frame) \<or> fr_id frame \<noteq> Some (ev_eventId message) then Skip
               else if truthy lastEventId \<and> compareDecimalEventIds (ev_eventId message) (the lastEventId) \<le> 0
               then Skip
               else Deliver message))"

text \<open>The frames of one read: what is delivered, the last event id, and the reason of a resync.\<close>

primrec handle_frames ::
    "(string \<Rightarrow> json option) \<Rightarrow> sse_frame list \<Rightarrow> string option \<Rightarrow> invalidation list \<times> string option \<times> string option" where
  "handle_frames json_parse [] lastEventId = ([], lastEventId, None)"
| "handle_frames json_parse (f # fs) lastEventId =
     (case handle_frame json_parse lastEventId f of
        Skip \<Rightarrow> handle_frames json_parse fs lastEventId
      | Stop reason \<Rightarrow> ([], lastEventId, Some reason)
      | Deliver message \<Rightarrow>
          (case handle_frames json_parse fs (Some (ev_eventId message)) of
             (delivered, l, stop) \<Rightarrow> (message # delivered, l, stop)))"

datatype read_result = Chunk string | Done | Silence

datatype stream_result = Closed | Resync string | Throws realtime_error | Reading

text \<open>\<open>Reading\<close> is the state in which the next read has not returned yet.\<close>

primrec consume_reads ::
    "(string \<Rightarrow> json option) \<Rightarrow> read_result list \<Rightarrow> string \<Rightarrow> string option \<Rightarrow> invalidation list \<times> stream_result" where
  "consume_reads json_parse [] buf lastEventId = ([], Reading)"
| "consume_reads json_parse (r # rs) buf lastEventId =
     (case r of
        Done \<Rightarrow> ([], Closed)
      | Silence \<Rightarrow> ([], Throws Silence_error)
      | Chunk chunk \<Rightarrow>
          (case sse_push buf chunk of (frames, buf') \<Rightarrow>
             (case handle_frames json_parse frames lastEventId of (delivered, l, stop) \<Rightarrow>
                (case stop of
                   Some reason \<Rightarrow> (delivered, Resync reason)
                 | None \<Rightarrow>
                     (case consume_reads json_parse rs buf' l of (later, result) \<Rightarrow> (delivered @ later, result))))))"

record stream_response =
  re_ok :: bool
  re_status :: int
  re_body :: "read_result list option"
  re_contentType :: "string option"

definition stream_headers :: "token_response \<Rightarrow> string option \<Rightarrow> (string \<times> string) list" where
  "stream_headers response cursor =
     [(''Accept'', ''text/event-stream''), (''Authorization'', ''Bearer '' @ tk_accessToken response)] @
     (if truthy cursor then [(''Last-Event-ID'', the cursor)] else [])"

text \<open>The first component tells whether \<open>onConnected\<close> was called.\<close>

definition consumeEarnRealtimeStream ::
    "(string \<Rightarrow> json option) \<Rightarrow> (string \<Rightarrow> (string \<times> string) list \<Rightarrow> stream_response) \<Rightarrow> token_response \<Rightarrow>
     string option \<Rightarrow> bool \<times> invalidation list \<times> stream_result" where
  "consumeEarnRealtimeStream json_parse fetch response cursor =
     (let streamResponse = fetch (tk_eventsUrl response) (stream_headers response cursor) in
      if \<not> re_ok streamResponse then
        (False, [], Throws (Http_error (re_status streamResponse) Stream_phase))
      else case re_body streamResponse of
        None \<Rightarrow> (False, [], Throws Rejected)
      | Some reads \<Rightarrow>
          if (case re_contentType streamResponse of None \<Rightarrow> True | Some t \<Rightarrow> \<not> js_includes ''text/event-stream'' t)
          then (False, [], Throws Rejected)
          else (True, consume_reads json_parse reads [] cursor))"

definition EARN_REALTIME_SILENCE_TIMEOUT_MS :: int where "EARN_REALTIME_SILENCE_TIMEOUT_MS = 45000"

definition computeEarnRealtimeReconnectDelayMs :: "nat \<Rightarrow> rat \<Rightarrow> int" where
  "computeEarnRealtimeReconnectDelayMs attempt random =
     (let exponential = min 30000 (1000 * 2 ^ min attempt 5) in
      exponential + \<lfloor>max 0 (min 1 random) * 250\<rfloor>)"

section \<open>Lemmas\<close>

lemma strip_eol_append: "strip_eol s = Some r \<Longrightarrow> strip_eol (s @ t) = Some (r @ t)"
  by (auto simp: strip_eol_def split: list.splits if_splits)

lemma strip_boundary_append: "strip_boundary s = Some r \<Longrightarrow> strip_boundary (s @ t) = Some (r @ t)"
  by (auto simp: strip_boundary_def Option.bind_eq_Some_conv strip_eol_append)

text \<open>A boundary found later in the text rules out one that starts earlier and ends in the next chunk.\<close>

lemma match_boundary_starts:
  "match_boundary s = Some (b, r) \<Longrightarrow> strip_eol s = None \<Longrightarrow> s \<noteq> [] \<and> strip_eol (s @ t) = None"
  by (auto simp: strip_eol_def strip_boundary_def split: list.splits if_splits option.splits)

lemma strip_boundary_None_append:
  assumes "strip_boundary (c # s) = None" "match_boundary s = Some (b, r)"
  shows "strip_boundary ((c # s) @ t) = None"
proof (cases "strip_eol (c # s)")
  case None
  with assms(2) have "strip_eol ((c # s) @ t) = None"
    by (cases s) (auto simp: strip_eol_def split: if_splits)
  then show ?thesis by (simp add: strip_boundary_def)
next
  case (Some u)
  with assms(1) have u: "strip_eol u = None" by (simp add: strip_boundary_def)
  have "\<exists>b' r'. match_boundary u = Some (b', r')"
  proof (cases "c = LF")
    case True
    with Some assms(2) show ?thesis by (auto simp: strip_eol_def)
  next
    case False
    with Some have "c = CR" "s = LF # u" by (auto simp: strip_eol_def split: if_splits list.splits)
    with assms(2) u show ?thesis
      by (auto simp: strip_boundary_def strip_eol_def split: option.splits)
  qed
  then have "strip_eol (u @ t) = None" using match_boundary_starts u by blast
  with Some show ?thesis using strip_eol_append [OF Some, of t] by (simp add: strip_boundary_def)
qed

lemma match_boundary_append: "match_boundary s = Some (b, r) \<Longrightarrow> match_boundary (s @ t) = Some (b, r @ t)"
proof (induction s arbitrary: b)
  case (Cons c s)
  show ?case
  proof (cases "strip_boundary (c # s)")
    case None
    with Cons.prems obtain b' where b': "match_boundary s = Some (b', r)" "b = c # b'" by auto
    with strip_boundary_None_append [OF None b'(1), of t] Cons.IH [OF b'(1)] show ?thesis by simp
  next
    case (Some u)
    with Cons.prems strip_boundary_append [OF Some, of t] show ?thesis by simp
  qed
qed simp

lemma frame_loop_append:
  "frame_loop (a @ t) = (case frame_loop a of (fs, r) \<Rightarrow> case frame_loop (r @ t) of (gs, r') \<Rightarrow> (fs @ gs, r'))"
proof (induction a rule: frame_loop.induct)
  case (1 buf)
  show ?case
  proof (cases "match_boundary buf")
    case None
    then show ?thesis by (simp add: frame_loop.simps [of buf] split: prod.splits)
  next
    case (Some p)
    obtain block rest where p: "p = (block, rest)" by (cases p)
    with Some have app: "match_boundary (buf @ t) = Some (block, rest @ t)" by (simp add: match_boundary_append)
    show ?thesis using "1" [OF Some p [symmetric]] Some p app
      by (simp add: frame_loop.simps [of buf] frame_loop.simps [of "buf @ t"] split: prod.splits option.splits)
  qed
qed

lemma frame_loop_rest: "match_boundary (snd (frame_loop a)) = None"
proof (induction a rule: frame_loop.induct)
  case (1 buf)
  then show ?case
    by (cases "match_boundary buf") (auto simp: frame_loop.simps [of buf] split: prod.splits)
qed

lemma frame_loop_idle: "match_boundary buf = None \<Longrightarrow> frame_loop buf = ([], buf)"
  by (simp add: frame_loop.simps)

lemma handle_frames_append:
  "handle_frames p (fs @ gs) l =
     (case handle_frames p fs l of (d, l1, stop) \<Rightarrow>
        (case stop of
           Some r \<Rightarrow> (d, l1, Some r)
         | None \<Rightarrow> (case handle_frames p gs l1 of (d', l2, stop') \<Rightarrow> (d @ d', l2, stop'))))"
  by (induction fs arbitrary: l) (auto split: frame_action.splits prod.splits option.splits)

definition end_result :: "read_result \<Rightarrow> stream_result" where
  "end_result e = (case e of Done \<Rightarrow> Closed | Silence \<Rightarrow> Throws Silence_error | Chunk _ \<Rightarrow> Reading)"

lemma consume_reads_whole:
  assumes "match_boundary buf = None" and "e = Done \<or> e = Silence"
  shows "consume_reads p (map Chunk cs @ [e]) buf l =
    (case handle_frames p (fst (frame_loop (buf @ concat cs))) l of (d, _, stop) \<Rightarrow>
       (d, case stop of Some r \<Rightarrow> Resync r | None \<Rightarrow> end_result e))"
  using assms(1)
proof (induction cs arbitrary: buf l)
  case Nil
  with assms(2) show ?case by (auto simp: frame_loop_idle end_result_def)
next
  case (Cons c cs)
  obtain fs buf' where push: "frame_loop (buf @ c) = (fs, buf')" by (cases "frame_loop (buf @ c)")
  then have idle: "match_boundary buf' = None" using frame_loop_rest [of "buf @ c"] by simp
  have all: "fst (frame_loop (buf @ c @ concat cs)) = fs @ fst (frame_loop (buf' @ concat cs))"
    using frame_loop_append [of "buf @ c" "concat cs"] push by (simp split: prod.splits)
  show ?case
    using Cons.IH [OF idle] push
    by (simp add: all sse_push_def handle_frames_append split: prod.splits option.splits)
qed

text \<open>The event ids a list of frames delivers, above the last id.\<close>

lemma handle_frames_increasing:
  "sorted_wrt (<) (map (\<lambda>m. parse_dec (ev_eventId m)) (fst (handle_frames p fs l))) \<and>
   (truthy l \<longrightarrow> (\<forall>m \<in> set (fst (handle_frames p fs l)). parse_dec (the l) < parse_dec (ev_eventId m))) \<and>
   (\<forall>m \<in> set (fst (handle_frames p fs l)). decimal_pattern (ev_eventId m)) \<and>
   fst (snd (handle_frames p fs l)) =
     (if fst (handle_frames p fs l) = [] then l else Some (ev_eventId (last (fst (handle_frames p fs l)))))"
proof (induction fs arbitrary: l)
  case (Cons f fs)
  show ?case
  proof (cases "handle_frame p l f")
    case Skip
    with Cons.IH [of l] show ?thesis by simp
  next
    case (Deliver m)
    have dec: "decimal_pattern (ev_eventId m)" "truthy l \<longrightarrow> parse_dec (the l) < parse_dec (ev_eventId m)"
      using Deliver by (auto simp: handle_frame_def parseEarnRealtimeMessage_def compareDecimalEventIds_def Let_def
          split: if_splits option.splits realtime_message.splits)
    then have "truthy (Some (ev_eventId m))" by (simp add: truthy_def decimal_pattern_def)
    with Cons.IH [of "Some (ev_eventId m)"] Deliver dec show ?thesis
      by (auto split: prod.splits dest: less_trans)
  next
    case (Stop r)
    then show ?thesis by simp
  qed
qed simp

lemma consume_reads_increasing:
  "sorted_wrt (<) (map (\<lambda>m. parse_dec (ev_eventId m)) (fst (consume_reads p rs buf l))) \<and>
   (truthy l \<longrightarrow> (\<forall>m \<in> set (fst (consume_reads p rs buf l)). parse_dec (the l) < parse_dec (ev_eventId m)))"
proof (induction rs arbitrary: buf l)
  case (Cons r rs)
  show ?case
  proof (cases r)
    case (Chunk c)
    obtain fs buf' where push: "sse_push buf c = (fs, buf')" by (cases "sse_push buf c")
    obtain d l1 stop where h: "handle_frames p fs l = (d, l1, stop)" by (cases "handle_frames p fs l")
    note inc = handle_frames_increasing [of p fs l, unfolded h fst_conv snd_conv]
    show ?thesis
    proof (cases stop)
      case None
      have later: "\<forall>x \<in> set d. \<forall>m \<in> set (fst (consume_reads p rs buf' l1)). parse_dec (ev_eventId x) < parse_dec (ev_eventId m)"
      proof (intro ballI)
        fix x m assume x: "x \<in> set d" and m: "m \<in> set (fst (consume_reads p rs buf' l1))"
        then have d: "d \<noteq> []" by auto
        with inc have l1: "l1 = Some (ev_eventId (last d))" by simp
        have "decimal_pattern (ev_eventId (last d))" using inc d by simp
        then have "truthy l1" by (simp add: l1 truthy_def decimal_pattern_def)
        with Cons.IH [of buf' l1] m have "parse_dec (ev_eventId (last d)) < parse_dec (ev_eventId m)"
          by (simp add: l1)
        moreover have "parse_dec (ev_eventId x) \<le> parse_dec (ev_eventId (last d))"
          using inc x d by (cases d rule: rev_cases) (auto simp: sorted_wrt_append)
        ultimately show "parse_dec (ev_eventId x) < parse_dec (ev_eventId m)" by simp
      qed
      have first: "truthy l \<longrightarrow> (\<forall>m \<in> set (fst (consume_reads p rs buf' l1)). parse_dec (the l) < parse_dec (ev_eventId m))"
      proof (cases "d = []")
        case True
        with inc Cons.IH [of buf' l1] show ?thesis by simp
      next
        case False
        then obtain x where "x \<in> set d" by (cases d) auto
        with later inc show ?thesis by (metis less_trans)
      qed
      have "fst (consume_reads p (r # rs) buf l) = d @ fst (consume_reads p rs buf' l1)"
        using Chunk push h None by (simp split: prod.splits)
      with inc later first Cons.IH [of buf' l1] show ?thesis by (auto simp: sorted_wrt_append)
    next
      case (Some reason)
      with Chunk push h inc show ?thesis by simp
    qed
  qed simp_all
qed simp

section \<open>Properties\<close>

text \<open>
  C13.  How the network cuts the response into chunks does not matter: two sequences of chunks with
  the same text deliver the same invalidations and end the same way, including a boundary that
  falls between two chunks.
\<close>

theorem stream_chunking_irrelevant:
  assumes "concat cs = concat ds" and "e = Done \<or> e = Silence"
  shows "consumeEarnRealtimeStream json_parse (\<lambda>url hs. (fetch url hs)\<lparr>re_body := Some (map Chunk cs @ [e])\<rparr>) token cursor =
    consumeEarnRealtimeStream json_parse (\<lambda>url hs. (fetch url hs)\<lparr>re_body := Some (map Chunk ds @ [e])\<rparr>) token cursor"
  using assms by (simp add: consumeEarnRealtimeStream_def consume_reads_whole Let_def)

definition example_fetch :: "read_result list \<Rightarrow> string \<Rightarrow> (string \<times> string) list \<Rightarrow> stream_response" where
  "example_fetch reads url hs =
     \<lparr>re_ok = True, re_status = 200, re_body = Some reads, re_contentType = Some ''text/event-stream; charset=utf-8''\<rparr>"

definition example_token :: token_response where
  "example_token = \<lparr>tk_accessToken = ''t'', tk_eventsUrl = ''/events'', tk_expiresAt = ''later''\<rparr>"

theorem stream_chunking_irrelevant_witness:
  "consumeEarnRealtimeStream (\<lambda>_. Some JNull)
     (\<lambda>url hs. (example_fetch [] url hs)\<lparr>re_body := Some (map Chunk [''id: 1'' @ [CR, LF, CR], [LF] @ ''x''] @ [Done])\<rparr>)
     example_token None =
   consumeEarnRealtimeStream (\<lambda>_. Some JNull)
     (\<lambda>url hs. (example_fetch [] url hs)\<lparr>re_body := Some (map Chunk [''id: 1'' @ [CR, LF, CR, LF], ''x''] @ [Done])\<rparr>)
     example_token None"
  by (rule stream_chunking_irrelevant) simp_all

text \<open>
  C14.  The events the stream delivers have strictly increasing ids, all above the cursor it was
  opened with: a replayed or reordered event is dropped, never delivered twice.  A response that is
  not accepted delivers nothing.
\<close>

theorem stream_delivery_increasing:
  assumes "consumeEarnRealtimeStream json_parse fetch token cursor = (opened, delivered, result)"
  shows "sorted_wrt (<) (map (\<lambda>m. parse_dec (ev_eventId m)) delivered) \<and>
    (truthy cursor \<longrightarrow> (\<forall>m \<in> set delivered. parse_dec (the cursor) < parse_dec (ev_eventId m))) \<and>
    (\<not> opened \<longrightarrow> delivered = [] \<and> (\<exists>e. result = Throws e))"
proof -
  have "(\<not> opened \<and> delivered = [] \<and> (\<exists>e. result = Throws e)) \<or>
      (opened \<and> (\<exists>reads. consume_reads json_parse reads [] cursor = (delivered, result)))"
    using assms by (auto simp: consumeEarnRealtimeStream_def Let_def split: if_splits option.splits)
  then consider "\<not> opened" "delivered = []" "\<exists>e. result = Throws e"
    | reads where "opened" "consume_reads json_parse reads [] cursor = (delivered, result)" by blast
  then show ?thesis
  proof cases
    case (2 reads)
    with consume_reads_increasing [of json_parse reads "[]" cursor] show ?thesis by simp
  qed simp
qed

definition example_json :: "string \<Rightarrow> json option" where
  "example_json s = Some (JObject
     [(''schemaVersion'', JNumber (Finite 1)), (''eventType'', JString ''earn.position.changed''),
      (''eventId'', JString s), (''occurredAt'', JString ''now''), (''scope'', JString ''earn'')])"

definition example_sse :: "string \<Rightarrow> string" where
  "example_sse i = ''id: '' @ i @ [LF] @ ''event: loyal_yield'' @ [CR, LF] @ ''data: '' @ i @ [LF, LF]"

definition example_reads :: "read_result list" where
  "example_reads =
     [Chunk (example_sse ''3'' @ example_sse ''9''), Chunk (example_sse ''9'' @ example_sse ''12''), Done]"

theorem stream_delivery_increasing_witness:
  "case consumeEarnRealtimeStream example_json (example_fetch example_reads) example_token (Some ''4'') of
     (opened, delivered, result) \<Rightarrow>
       opened \<and> map ev_eventId delivered = [''9'', ''12''] \<and> result = Closed \<and>
       (\<forall>m \<in> set delivered. parse_dec ''4'' < parse_dec (ev_eventId m))"
proof -
  obtain opened delivered result where
    c: "consumeEarnRealtimeStream example_json (example_fetch example_reads) example_token (Some ''4'') =
      (opened, delivered, result)" by (metis prod_cases3)
  have "case consumeEarnRealtimeStream example_json (example_fetch example_reads) example_token (Some ''4'') of
     (opened, delivered, result) \<Rightarrow>
       opened \<and> map ev_eventId delivered = [''9'', ''12''] \<and> result = Closed" by code_simp
  with c stream_delivery_increasing [OF c] show ?thesis by (simp add: truthy_def)
qed

end
