(* ===== verification/Cursor_Store.thy ===== *)
theory Cursor_Store
  imports Realtime_Types
begin

text \<open>
  The resume cursor of the event stream, \<open>earn-realtime/cursor-storage.ts\<close>.  The cursor lives in a
  module-wide map and, when it can, in the browser's session storage, any of whose operations may
  throw at any time; tombstones mark keys whose stored value must not be trusted.
\<close>

section \<open>State and operations\<close>

text \<open>
  \<open>storage_access\<close> says what an operation finds: whether the store instance has a primary storage
  (\<open>primary !== null\<close>), and which of its methods throw.
\<close>

record storage_access =
  sa_present :: bool
  sa_getThrows :: bool
  sa_setThrows :: bool
  sa_removeThrows :: bool

record cursor_state =
  cu_memory :: "(string, string) jsmap"
  cu_tombstones :: "string list"
  cu_items :: "(string, string) jsmap"

definition isCursor :: "string option \<Rightarrow> bool" where
  "isCursor v = (case v of None \<Rightarrow> False | Some s \<Rightarrow> decimal_pattern s)"

definition latestCursor :: "string option \<Rightarrow> string option \<Rightarrow> string option" where
  "latestCursor l r =
     (if \<not> isCursor l then (if isCursor r then r else None)
      else if \<not> isCursor r then l
      else if parse_dec (the l) \<ge> parse_dec (the r) then l else r)"

definition earnRealtimeCursorStorageKey :: "string \<Rightarrow> string \<Rightarrow> string \<Rightarrow> string \<Rightarrow> string" where
  "earnRealtimeCursorStorageKey solanaEnv walletAddress settingsPda earnVaultAddress =
     ''loyal:earn-realtime-cursor:v1'' @ '':'' @ solanaEnv @ '':'' @ walletAddress @ '':'' @ settingsPda @
     '':'' @ earnVaultAddress"

definition cursor_get :: "string \<Rightarrow> storage_access \<Rightarrow> cursor_state \<Rightarrow> string option \<times> cursor_state" where
  "cursor_get key a s =
     (let primaryCursor =
            (if key \<in> set (cu_tombstones s) then None
             else if \<not> sa_present a \<or> sa_getThrows a then None
             else let stored = jm_get (cu_items s) key in if isCursor stored then stored else None);
          cursor = latestCursor primaryCursor (jm_get (cu_memory s) key) in
      (cursor, if truthy cursor then s\<lparr>cu_memory := jm_set key (the cursor) (cu_memory s)\<rparr> else s))"

definition cursor_acknowledge :: "string \<Rightarrow> storage_access \<Rightarrow> string \<Rightarrow> cursor_state \<Rightarrow> cursor_state" where
  "cursor_acknowledge key a cursor s =
     (if \<not> isCursor (Some cursor) then s
      else case cursor_get key a s of (current, s1) \<Rightarrow>
        (case latestCursor current (Some cursor) of
           None \<Rightarrow> s1
         | Some n \<Rightarrow>
             let s2 = s1\<lparr>cu_memory := jm_set key n (cu_memory s1)\<rparr> in
             if \<not> sa_present a then s2
             else if sa_setThrows a then s2\<lparr>cu_tombstones := List.insert key (cu_tombstones s2)\<rparr>
             else s2\<lparr>cu_items := jm_set key n (cu_items s2), cu_tombstones := removeAll key (cu_tombstones s2)\<rparr>))"

definition cursor_clear :: "string \<Rightarrow> storage_access \<Rightarrow> cursor_state \<Rightarrow> cursor_state" where
  "cursor_clear key a s =
     (let s1 = s\<lparr>cu_memory := jm_delete key (cu_memory s)\<rparr> in
      if \<not> sa_present a \<or> sa_removeThrows a then s1\<lparr>cu_tombstones := List.insert key (cu_tombstones s1)\<rparr>
      else s1\<lparr>cu_items := jm_delete key (cu_items s1), cu_tombstones := removeAll key (cu_tombstones s1)\<rparr>)"

text \<open>Reads and acknowledgements of one key, with what each read returns.\<close>

datatype cursor_op = Get storage_access | Acknowledge storage_access string

primrec cursor_run :: "string \<Rightarrow> cursor_op list \<Rightarrow> cursor_state \<Rightarrow> string option list" where
  "cursor_run key [] s = []"
| "cursor_run key (x # xs) s =
     (case x of
        Get a \<Rightarrow> fst (cursor_get key a s) # cursor_run key xs (snd (cursor_get key a s))
      | Acknowledge a c \<Rightarrow> cursor_run key xs (cursor_acknowledge key a c s))"

text \<open>Storage in which every access succeeds.\<close>

definition working_storage :: storage_access where
  "working_storage = \<lparr>sa_present = True, sa_getThrows = False, sa_setThrows = False, sa_removeThrows = False\<rparr>"

section \<open>Lemmas\<close>

text \<open>The order of cursors: absent is least.\<close>

definition cursor_rank :: "string option \<Rightarrow> nat" where
  "cursor_rank c = (if isCursor c then Suc (parse_dec (the c)) else 0)"

lemma latestCursor_rank: "cursor_rank (latestCursor l r) = max (cursor_rank l) (cursor_rank r)"
  by (auto simp: latestCursor_def cursor_rank_def isCursor_def split: option.splits)

lemma latestCursor_cursor: "latestCursor l r = Some c \<Longrightarrow> decimal_pattern c"
  by (auto simp: latestCursor_def isCursor_def split: if_splits option.splits)

lemma cursor_rank_memory: "cursor_rank (Some c) \<noteq> 0 \<Longrightarrow> decimal_pattern c"
  by (simp add: cursor_rank_def isCursor_def split: if_splits)

lemma cursor_get_rank:
  "cursor_rank (fst (cursor_get key a s)) \<ge> cursor_rank (jm_get (cu_memory s) key)"
  "cursor_rank (jm_get (cu_memory (snd (cursor_get key a s))) key) \<ge> cursor_rank (fst (cursor_get key a s))"
proof -
  let ?m = "jm_get (cu_memory s) key"
  obtain prim where get: "fst (cursor_get key a s) = latestCursor prim ?m"
    "snd (cursor_get key a s) = (if truthy (latestCursor prim ?m)
       then s\<lparr>cu_memory := jm_set key (the (latestCursor prim ?m)) (cu_memory s)\<rparr> else s)"
    by (simp add: cursor_get_def Let_def)
  then show "cursor_rank (fst (cursor_get key a s)) \<ge> cursor_rank ?m" by (simp add: latestCursor_rank)
  show "cursor_rank (jm_get (cu_memory (snd (cursor_get key a s))) key) \<ge> cursor_rank (fst (cursor_get key a s))"
  proof (cases "truthy (latestCursor prim ?m)")
    case True
    then show ?thesis by (auto simp: get jm_get_set truthy_Some)
  next
    case False
    then have "latestCursor prim ?m = None"
      by (cases "latestCursor prim ?m") (auto simp: truthy_def decimal_pattern_def dest: latestCursor_cursor)
    then show ?thesis by (simp add: get cursor_rank_def isCursor_def)
  qed
qed

lemma cursor_acknowledge_rank:
  "cursor_rank (jm_get (cu_memory (cursor_acknowledge key a c s)) key) \<ge>
     max (cursor_rank (jm_get (cu_memory s) key)) (cursor_rank (Some c))"
proof (cases "isCursor (Some c)")
  case False
  then show ?thesis by (simp add: cursor_acknowledge_def cursor_rank_def)
next
  case True
  obtain cur s1 where g: "cursor_get key a s = (cur, s1)" by (cases "cursor_get key a s")
  have "cursor_rank cur \<ge> cursor_rank (jm_get (cu_memory s) key)" using cursor_get_rank(1) [where key = key and s = s and a = a] g by simp
  moreover have "latestCursor cur (Some c) \<noteq> None"
    using True by (cases cur) (simp_all add: latestCursor_def isCursor_def)
  then obtain n where n: "latestCursor cur (Some c) = Some n" by blast
  moreover have "cursor_rank (Some n) = max (cursor_rank cur) (cursor_rank (Some c))"
    using latestCursor_rank [of cur "Some c"] n by simp
  moreover have "jm_get (cu_memory (cursor_acknowledge key a c s)) key = Some n"
    using True g n by (simp add: cursor_acknowledge_def jm_get_set Let_def)
  ultimately show ?thesis by simp
qed

lemma cursor_run_sorted:
  "sorted (map cursor_rank (cursor_run key ops s)) \<and>
   (\<forall>c \<in> set (cursor_run key ops s). cursor_rank (jm_get (cu_memory s) key) \<le> cursor_rank c)"
proof (induction ops arbitrary: s)
  case (Cons x xs)
  show ?case
  proof (cases x)
    case (Get a)
    with Cons.IH [of "snd (cursor_get key a s)"] cursor_get_rank [where key = key and s = s and a = a] show ?thesis
      by (auto intro: order_trans)
  next
    case (Acknowledge a c)
    with Cons.IH [of "cursor_acknowledge key a c s"] cursor_acknowledge_rank [where key = key and s = s and a = a and c = c] show ?thesis
      by (auto intro: order_trans)
  qed
qed simp

section \<open>What a client relies on\<close>

text \<open>
  The contract of a resume store towards a client that must not skip anything: \<open>bound\<close> limits every
  cursor a read can return, an acknowledgement raises it at most to the acknowledged cursor, and a clear
  takes it to zero.  \<open>P n\<close> stands for what the client wants to be true of every number \<open>n\<close> it may skip.
\<close>

locale resume_store =
  fixes get :: "'a \<Rightarrow> 's \<Rightarrow> string option \<times> 's"
    and acknowledge :: "'a \<Rightarrow> string \<Rightarrow> 's \<Rightarrow> 's"
    and clear :: "'a \<Rightarrow> 's \<Rightarrow> 's"
    and bound :: "'s \<Rightarrow> nat"
  assumes get_rank: "get a s = (c, s') \<Longrightarrow> cursor_rank c \<le> bound s"
    and get_bound: "get a s = (c, s') \<Longrightarrow> bound s' \<le> bound s"
    and get_decimal: "get a s = (Some k, s') \<Longrightarrow> decimal_pattern k"
    and acknowledge_bound: "bound (acknowledge a k s) \<le> max (bound s) (cursor_rank (Some k))"
    and clear_bound: "bound (clear a s) = 0"
begin

lemma read_below: "get a s = (Some k, s') \<Longrightarrow> Suc (parse_dec k) \<le> bound s"
  using get_rank [of a s "Some k" s'] get_decimal [of a s k s'] by (simp add: cursor_rank_def isCursor_def)

lemma read_safe: "\<forall>n < bound s. P n \<Longrightarrow> get a s = (Some k, s') \<Longrightarrow> n \<le> parse_dec k \<Longrightarrow> P n"
  using read_below [of a s k s'] by simp

lemma acknowledge_safe:
  assumes "\<forall>n < bound s. P n" "\<forall>n \<le> parse_dec k. P n" "n < bound (acknowledge a k s)"
  shows "P n"
proof (cases "n < bound s")
  case False
  then have "n < cursor_rank (Some k)" using acknowledge_bound [of a k s] assms(3) by linarith
  then show ?thesis using assms(2) by (auto simp: cursor_rank_def split: if_splits)
qed (use assms(1) in simp)

end

definition cursor_bound :: "string \<Rightarrow> cursor_state \<Rightarrow> nat" where
  "cursor_bound key s =
     max (cursor_rank (jm_get (cu_memory s) key))
       (if key \<in> set (cu_tombstones s) then 0 else cursor_rank (jm_get (cu_items s) key))"

lemma cursor_get_bound:
  assumes "cursor_get key a s = (c, s')"
  shows "cursor_rank c \<le> cursor_bound key s" "cursor_bound key s' \<le> cursor_bound key s"
    "c = Some k \<Longrightarrow> decimal_pattern k"
proof -
  let ?m = "jm_get (cu_memory s) key"
  obtain prim where c: "c = latestCursor prim ?m"
    and s': "s' = (if truthy c then s\<lparr>cu_memory := jm_set key (the c) (cu_memory s)\<rparr> else s)"
    and prim: "cursor_rank prim \<le> (if key \<in> set (cu_tombstones s) then 0 else cursor_rank (jm_get (cu_items s) key))"
    using assms by (auto simp: cursor_get_def Let_def cursor_rank_def isCursor_def)
  show rank: "cursor_rank c \<le> cursor_bound key s"
    using prim unfolding c latestCursor_rank cursor_bound_def by (auto simp: le_max_iff_disj)
  show "cursor_bound key s' \<le> cursor_bound key s"
    using rank by (auto simp: s' cursor_bound_def jm_get_set truthy_Some split: if_splits)
  show "c = Some k \<Longrightarrow> decimal_pattern k" using c latestCursor_cursor by auto
qed

lemma cursor_acknowledge_bound:
  "cursor_bound key (cursor_acknowledge key a c s) \<le> max (cursor_bound key s) (cursor_rank (Some c))"
proof (cases "isCursor (Some c)")
  case False
  then show ?thesis by (simp add: cursor_acknowledge_def)
next
  case True
  obtain cur s1 where g: "cursor_get key a s = (cur, s1)" by (cases "cursor_get key a s")
  have "latestCursor cur (Some c) \<noteq> None"
    using True by (cases cur) (simp_all add: latestCursor_def isCursor_def)
  then obtain n where n: "latestCursor cur (Some c) = Some n" by blast
  have "cursor_rank (Some n) = max (cursor_rank cur) (cursor_rank (Some c))"
    using latestCursor_rank [of cur "Some c"] n by simp
  then have rank: "cursor_rank (Some n) \<le> max (cursor_bound key s) (cursor_rank (Some c))"
    using cursor_get_bound(1) [OF g] by auto
  have "cursor_bound key (cursor_acknowledge key a c s) \<le> max (cursor_bound key s1) (cursor_rank (Some n))"
    using True by (auto simp: cursor_acknowledge_def g n Let_def cursor_bound_def jm_get_set)
  then show ?thesis using rank cursor_get_bound(2) [OF g] by auto
qed

lemma cursor_clear_bound: "cursor_bound key (cursor_clear key a s) = 0"
  by (simp add: cursor_clear_def cursor_bound_def Let_def jm_get_delete cursor_rank_def isCursor_def)

interpretation cursors: resume_store "cursor_get key" "cursor_acknowledge key" "cursor_clear key" "cursor_bound key" for key
  by unfold_locales
    (erule cursor_get_bound(1), erule cursor_get_bound(2), erule cursor_get_bound(3) [OF _ refl],
     rule cursor_acknowledge_bound, rule cursor_clear_bound)

section \<open>Properties\<close>

text \<open>
  As long as the cursor is not cleared it never moves backwards: over any sequence of reads and
  acknowledgements, through any store instances and with storage failing in any way at any step,
  the values read are non-decreasing.
\<close>

theorem cursor_reads_monotone: "sorted (map cursor_rank (cursor_run key ops s))"
  using cursor_run_sorted by blast

text \<open>
  An acknowledged cursor is kept: after acknowledging a decimal cursor, whatever the storage does,
  the next read returns that cursor or a later one.
\<close>

theorem cursor_acknowledged_is_read:
  assumes "decimal_pattern c"
  shows "\<exists>r. fst (cursor_get key b (cursor_acknowledge key a c s)) = Some r \<and> parse_dec c \<le> parse_dec r"
proof -
  have "cursor_rank (Some c) \<le> cursor_rank (fst (cursor_get key b (cursor_acknowledge key a c s)))"
    using cursor_get_rank(1) [where key = key and s = "cursor_acknowledge key a c s" and a = b] cursor_acknowledge_rank [where key = key and s = s and a = a and c = c] by simp
  with assms show ?thesis
    by (cases "fst (cursor_get key b (cursor_acknowledge key a c s))") (auto simp: cursor_rank_def isCursor_def split: if_splits)
qed

theorem cursor_acknowledged_is_read_witness:
  "\<exists>r. fst (cursor_get ''k'' \<lparr>sa_present = True, sa_getThrows = False, sa_setThrows = False, sa_removeThrows = False\<rparr>
      (cursor_acknowledge ''k'' \<lparr>sa_present = True, sa_getThrows = True, sa_setThrows = True, sa_removeThrows = True\<rparr>
        ''41'' \<lparr>cu_memory = [], cu_tombstones = [], cu_items = [(''k'', ''7'')]\<rparr>)) = Some r \<and>
    parse_dec ''41'' \<le> parse_dec r"
  by (rule cursor_acknowledged_is_read) code_simp

text \<open>
  A cleared cursor stays cleared: after \<open>clear\<close>, a read through any store instance returns nothing,
  even when the stale value could not be removed from storage and is still readable there.
\<close>

theorem cursor_clear_sticks: "fst (cursor_get key b (cursor_clear key a s)) = None"
  by (simp add: cursor_get_def cursor_clear_def Let_def jm_get_delete latestCursor_def isCursor_def)

end
