(* ===== verification/Batcher.thy ===== *)
theory Batcher
  imports Realtime_Types
begin

text \<open>
  The invalidation batcher of \<open>earn-realtime/batch.ts\<close>.  \<open>flushNow\<close> suspends while the consumer handles a
  batch, so it is two operations here, \<open>flushNow\<close> up to the \<open>await\<close> and \<open>flush_settle\<close> after it, and every
  other method may run in between; \<open>bt_run\<close> is the suspended call with its batch and epoch.  A
  scheduled timer is the flag \<open>bt_timer\<close>; it fires as the operation \<open>timer_fires\<close>.
\<close>

section \<open>State and operations\<close>

record batcher =
  bt_timer :: bool
  bt_disposed :: bool
  bt_epoch :: nat
  bt_flushing :: bool
  bt_inFlightIds :: "string list"
  bt_pending :: "(string, invalidation) jsmap"
  bt_retryAttempt :: nat
  bt_run :: "(invalidation list \<times> nat) option"

definition new_batcher :: batcher where
  "new_batcher = \<lparr>bt_timer = False, bt_disposed = False, bt_epoch = 0, bt_flushing = False, bt_inFlightIds = [],
     bt_pending = [], bt_retryAttempt = 0, bt_run = None\<rparr>"

text \<open>What an operation does to the outside, in order.\<close>

datatype batch_effect =
    Ack string
  | On_batch "invalidation list"
  | On_error
  | Start_timer nat

definition batch_schedule :: "nat \<Rightarrow> batcher \<Rightarrow> batcher \<times> batch_effect list" where
  "batch_schedule delay s =
     (if bt_timer s \<or> bt_flushing s \<or> bt_disposed s then (s, []) else (s\<lparr>bt_timer := True\<rparr>, [Start_timer delay]))"

definition batch_enqueue :: "nat \<Rightarrow> invalidation \<Rightarrow> batcher \<Rightarrow> batcher \<times> batch_effect list" where
  "batch_enqueue delayMs event s =
     (if bt_disposed s \<or> jm_has (bt_pending s) (ev_eventId event) \<or> ev_eventId event \<in> set (bt_inFlightIds s)
      then (s, [])
      else batch_schedule delayMs (s\<lparr>bt_pending := jm_set (ev_eventId event) event (bt_pending s)\<rparr>))"

definition flushNow :: "batcher \<Rightarrow> batcher \<times> batch_effect list" where
  "flushNow s =
     (let s1 = s\<lparr>bt_timer := False\<rparr> in
      if bt_flushing s1 \<or> bt_pending s1 = [] then (s1, [])
      else
        let batch = jm_values (bt_pending s1) in
        (s1\<lparr>bt_pending := [], bt_flushing := True,
            bt_inFlightIds := fold List.insert (map ev_eventId batch) (bt_inFlightIds s1),
            bt_run := Some (batch, bt_epoch s1)\<rparr>,
         [On_batch batch]))"

definition highest_event_id :: "invalidation list \<Rightarrow> string" where
  "highest_event_id batch =
     fold (\<lambda>event highest. if parse_dec (ev_eventId event) > parse_dec highest then ev_eventId event else highest)
       batch (case batch of [] \<Rightarrow> ''0'' | e # _ \<Rightarrow> ev_eventId e)"

definition retry_pending ::
    "invalidation list \<Rightarrow> (string, invalidation) jsmap \<Rightarrow> (string, invalidation) jsmap" where
  "retry_pending batch pending =
     fold (\<lambda>(k, e) m. jm_set k e m) pending (fold (\<lambda>e m. jm_set (ev_eventId e) e m) batch [])"

text \<open>The part of \<open>flushNow\<close> after \<open>await onBatch(batch)\<close>: \<open>ok\<close> tells whether the consumer resolved.\<close>

definition flush_settle :: "nat \<Rightarrow> bool \<Rightarrow> batcher \<Rightarrow> batcher \<times> batch_effect list" where
  "flush_settle delayMs ok s =
     (case bt_run s of
        None \<Rightarrow> (s, [])
      | Some (batch, batchEpoch) \<Rightarrow>
          let (s1, effects) =
                (if ok then
                   (s\<lparr>bt_retryAttempt := 0\<rparr>,
                    if batchEpoch = bt_epoch s then [Ack (highest_event_id batch)] else [])
                 else if batchEpoch = bt_epoch s then
                   (s\<lparr>bt_pending := retry_pending batch (bt_pending s),
                      bt_retryAttempt := min (bt_retryAttempt s + 1) 8\<rparr>, [On_error])
                 else (s, []));
              s2 = s1\<lparr>bt_inFlightIds := fold removeAll (map ev_eventId batch) (bt_inFlightIds s1),
                      bt_flushing := False, bt_run := None\<rparr> in
          if \<not> bt_disposed s2 \<and> bt_pending s2 \<noteq> [] then
            (case batch_schedule (if ok then delayMs else min 30000 (delayMs * 2 ^ bt_retryAttempt s2)) s2 of
               (s3, more_effects) \<Rightarrow> (s3, effects @ more_effects))
          else (s2, effects))"

definition timer_fires :: "batcher \<Rightarrow> batcher \<times> batch_effect list" where
  "timer_fires s = (if bt_timer s then flushNow (s\<lparr>bt_timer := False\<rparr>) else (s, []))"

definition batch_dispose :: "batcher \<Rightarrow> batcher \<times> batch_effect list" where
  "batch_dispose s = (s\<lparr>bt_disposed := True, bt_epoch := bt_epoch s + 1, bt_timer := False\<rparr>, [])"

definition batch_reset :: "batcher \<Rightarrow> batcher \<times> batch_effect list" where
  "batch_reset s =
     (s\<lparr>bt_epoch := bt_epoch s + 1, bt_timer := False, bt_pending := [], bt_inFlightIds := [],
        bt_retryAttempt := 0\<rparr>, [])"

datatype batch_op = Enqueue invalidation | Flush_now | Timer_fires | Settle bool | Dispose | Reset

primrec batch_step :: "nat \<Rightarrow> batch_op \<Rightarrow> batcher \<Rightarrow> batcher \<times> batch_effect list" where
  "batch_step delayMs (Enqueue event) = batch_enqueue delayMs event"
| "batch_step delayMs Flush_now = flushNow"
| "batch_step delayMs Timer_fires = timer_fires"
| "batch_step delayMs (Settle ok) = flush_settle delayMs ok"
| "batch_step delayMs Dispose = batch_dispose"
| "batch_step delayMs Reset = batch_reset"

primrec batch_run :: "nat \<Rightarrow> batch_op list \<Rightarrow> batcher \<Rightarrow> batcher \<times> batch_effect list" where
  "batch_run delayMs [] s = (s, [])"
| "batch_run delayMs (x # xs) s =
     (case batch_step delayMs x s of (s1, e1) \<Rightarrow>
        (case batch_run delayMs xs s1 of (s2, e2) \<Rightarrow> (s2, e1 @ e2)))"

section \<open>Accepting a batch\<close>

text \<open>
  \<open>acceptEarnRealtimeInvalidationBatch\<close>: the events with a protocol issue are reported once per kind and
  type and force a resync; the others go to the consumer.  The issues are reported at once, the two
  callbacks run in the microtasks that follow.
\<close>

definition split_batch :: "invalidation list \<Rightarrow> invalidation list \<times> (issue_kind \<times> string, protocol_issue) jsmap" where
  "split_batch events =
     foldl (\<lambda>(supported, issues) event.
        case resolveEarnRealtimeProtocolIssue event of
          Some issue \<Rightarrow> (supported, jm_set (pi_kind issue, pi_eventType issue) issue issues)
        | None \<Rightarrow> (supported @ [event], issues)) ([], []) events"

datatype accept_call = Call_batch "invalidation list" | Call_issue protocol_issue | Call_resync

definition acceptEarnRealtimeInvalidationBatch :: "invalidation list \<Rightarrow> accept_call list" where
  "acceptEarnRealtimeInvalidationBatch events =
     (case split_batch events of (supported, issues) \<Rightarrow>
        map Call_issue (jm_values issues) @
        (if supported \<noteq> [] then [Call_batch supported] else []) @
        (if issues \<noteq> [] then [Call_resync] else []))"

section \<open>Invariant\<close>

text \<open>The batch the consumer is working on in the current epoch.\<close>

definition running :: "batcher \<Rightarrow> invalidation list" where
  "running s = (case bt_run s of None \<Rightarrow> [] | Some (batch, e) \<Rightarrow> if e = bt_epoch s then batch else [])"

lemma running_update [simp]:
  "running (s\<lparr>bt_timer := t\<rparr>) = running s" "running (s\<lparr>bt_pending := p\<rparr>) = running s"
  "running (s\<lparr>bt_flushing := f\<rparr>) = running s" "running (s\<lparr>bt_inFlightIds := i\<rparr>) = running s"
  "running (s\<lparr>bt_retryAttempt := n\<rparr>) = running s" "running (s\<lparr>bt_disposed := d\<rparr>) = running s"
  "running (s\<lparr>bt_run := None\<rparr>) = []"
  "running (s\<lparr>bt_run := Some (b, e)\<rparr>) = (if e = bt_epoch s then b else [])"
  by (auto simp: running_def split: option.splits)

lemma running_None [simp]: "bt_run s = None \<Longrightarrow> running s = []"
  by (simp add: running_def)

abbreviation ids :: "invalidation list \<Rightarrow> string list" where
  "ids es \<equiv> map ev_eventId es"

definition batch_inv :: "batcher \<Rightarrow> bool" where
  "batch_inv s \<longleftrightarrow>
     (\<forall>(k, e) \<in> set (bt_pending s). k = ev_eventId e) \<and>
     distinct (ids (running s @ jm_values (bt_pending s))) \<and>
     set (ids (running s)) \<subseteq> set (bt_inFlightIds s) \<and>
     (\<not> bt_disposed s \<longrightarrow> set (bt_inFlightIds s) \<subseteq> set (ids (running s))) \<and>
     (\<forall>batch e. bt_run s = Some (batch, e) \<longrightarrow> e \<le> bt_epoch s \<and> batch \<noteq> []) \<and>
     (bt_flushing s \<longleftrightarrow> bt_run s \<noteq> None) \<and>
     (bt_timer s \<longrightarrow> \<not> bt_flushing s) \<and>
     (\<not> bt_disposed s \<and> bt_pending s \<noteq> [] \<longrightarrow> bt_timer s \<or> bt_flushing s)"

lemma keys_are_ids:
  "\<forall>(k, e) \<in> set m. k = ev_eventId e \<Longrightarrow> jm_keys m = ids (jm_values m)"
  by (induction m) auto

lemma pending_keys: "batch_inv s \<Longrightarrow> jm_keys (bt_pending s) = ids (jm_values (bt_pending s))"
  by (rule keys_are_ids) (simp add: batch_inv_def)

lemma set_insert_all [simp]: "set (fold List.insert xs ys) = set xs \<union> set ys"
  by (induction xs arbitrary: ys) auto

lemma set_remove_all [simp]: "set (fold removeAll xs ys) = set ys - set xs"
  by (induction xs arbitrary: ys) auto

lemma fold_set_values:
  "distinct (ids es) \<Longrightarrow> set (ids es) \<inter> set (jm_keys m) = {} \<Longrightarrow>
   fold (\<lambda>e m. jm_set (ev_eventId e) e m) es m = m @ map (\<lambda>e. (ev_eventId e, e)) es"
proof (induction es arbitrary: m)
  case (Cons e es)
  then have "\<not> jm_has m (ev_eventId e)" by (simp add: jm_has_iff del: not_None_eq)
  with Cons show ?case by (simp add: jm_set_fresh)
qed simp

lemma fold_set_pairs:
  "distinct (jm_keys ps) \<Longrightarrow> set (jm_keys ps) \<inter> set (jm_keys m) = {} \<Longrightarrow>
   fold (\<lambda>(k, e) m. jm_set k e m) ps m = m @ ps"
proof (induction ps arbitrary: m)
  case (Cons p ps)
  then have "\<not> jm_has m (fst p)" by (simp add: jm_has_iff del: not_None_eq)
  with Cons show ?case by (cases p) (simp add: jm_set_fresh)
qed simp

lemma retry_pending_eq:
  assumes "batch_inv s" "bt_run s = Some (batch, bt_epoch s)"
  shows "retry_pending batch (bt_pending s) = map (\<lambda>e. (ev_eventId e, e)) batch @ bt_pending s"
proof -
  have d: "distinct (ids (batch @ jm_values (bt_pending s)))"
    using assms by (simp add: batch_inv_def running_def)
  have "fold (\<lambda>e m. jm_set (ev_eventId e) e m) batch [] = map (\<lambda>e. (ev_eventId e, e)) batch"
    using fold_set_values [of batch "[]"] d by simp
  moreover have "distinct (jm_keys (bt_pending s))" "set (jm_keys (bt_pending s)) \<inter> set (ids batch) = {}"
    unfolding pending_keys [OF assms(1)] using d by auto
  ultimately show ?thesis
    using fold_set_pairs [of "bt_pending s" "map (\<lambda>e. (ev_eventId e, e)) batch"]
    by (simp add: retry_pending_def comp_def)
qed

section \<open>What each operation does to the work\<close>

definition work :: "batcher \<Rightarrow> invalidation list \<times> invalidation list" where
  "work s = (running s, jm_values (bt_pending s))"

lemma batch_schedule_work [simp]: "work (fst (batch_schedule d s)) = work s"
  by (simp add: batch_schedule_def work_def)

lemma batch_enqueue_work:
  assumes "batch_inv s" "\<not> bt_disposed s"
  shows "work (fst (batch_enqueue d e s)) =
    (running s, if ev_eventId e \<in> set (ids (running s @ jm_values (bt_pending s))) then jm_values (bt_pending s)
                else jm_values (bt_pending s) @ [e])"
proof -
  have "jm_has (bt_pending s) (ev_eventId e) \<longleftrightarrow> ev_eventId e \<in> set (ids (jm_values (bt_pending s)))"
    using pending_keys [OF assms(1)] by (simp add: jm_has_iff del: not_None_eq)
  moreover have "ev_eventId e \<in> set (bt_inFlightIds s) \<longleftrightarrow> ev_eventId e \<in> set (ids (running s))"
    using assms by (auto simp: batch_inv_def)
  ultimately show ?thesis using assms(2)
    by (auto simp: batch_enqueue_def jm_set_fresh work_def batch_schedule_def)
qed

lemma flushNow_work:
  assumes "batch_inv s"
  shows "work (fst (flushNow s)) =
    (if bt_flushing s \<or> bt_pending s = [] then work s else (jm_values (bt_pending s), []))"
  using assms by (auto simp: flushNow_def work_def Let_def)

lemma flush_settle_work:
  assumes "batch_inv s"
  shows "work (fst (flush_settle d ok s)) = (if ok then ([], jm_values (bt_pending s)) else ([], running s @ jm_values (bt_pending s)))"
proof (cases "bt_run s")
  case None
  then show ?thesis by (simp add: flush_settle_def work_def running_def)
next
  case (Some r)
  obtain batch ep where r: "r = (batch, ep)" by (cases r)
  have "jm_values (retry_pending batch (bt_pending s)) = batch @ jm_values (bt_pending s)" if "ep = bt_epoch s"
    using retry_pending_eq [OF assms, of batch] Some r that by (simp add: comp_def)
  then show ?thesis using Some r
    by (auto simp: flush_settle_def Let_def work_def batch_schedule_def running_def [of s])
qed

section \<open>The invariant is kept\<close>

lemma batch_inv_new: "batch_inv new_batcher"
  by (simp add: batch_inv_def new_batcher_def running_def)

lemma batch_inv_enqueue:
  assumes "batch_inv s"
  shows "batch_inv (fst (batch_enqueue d e s))"
proof (cases "bt_disposed s \<or> jm_has (bt_pending s) (ev_eventId e) \<or> ev_eventId e \<in> set (bt_inFlightIds s)")
  case True
  then show ?thesis using assms by (simp add: batch_enqueue_def del: not_None_eq)
next
  case False
  then have "ev_eventId e \<notin> set (ids (jm_values (bt_pending s)))"
    using pending_keys [OF assms] by (simp add: jm_has_iff del: not_None_eq)
  moreover have "ev_eventId e \<notin> set (ids (running s))" using False assms by (auto simp: batch_inv_def)
  ultimately show ?thesis using False assms
    by (auto simp: batch_enqueue_def batch_schedule_def batch_inv_def jm_set_fresh)
qed

lemma batch_inv_flushNow:
  assumes "batch_inv s"
  shows "batch_inv (fst (flushNow s))"
  using assms by (cases "bt_run s") (auto simp: flushNow_def batch_inv_def Let_def)

lemma batch_inv_schedule:
  assumes "\<forall>(k, e) \<in> set (bt_pending s). k = ev_eventId e" "distinct (ids (jm_values (bt_pending s)))"
    "\<not> bt_disposed s \<longrightarrow> bt_inFlightIds s = []" "\<not> bt_flushing s" "bt_run s = None"
  shows "batch_inv (if \<not> bt_disposed s \<and> bt_pending s \<noteq> [] then fst (batch_schedule d s) else s)"
  using assms by (auto simp: batch_inv_def batch_schedule_def)

lemma flush_settle_state:
  fixes ok :: bool
  assumes "bt_run s = Some (batch, ep)"
  defines "s2 \<equiv> s\<lparr>bt_pending := (if \<not> ok \<and> ep = bt_epoch s then retry_pending batch (bt_pending s) else bt_pending s),
      bt_retryAttempt := (if ok then 0 else if ep = bt_epoch s then min (bt_retryAttempt s + 1) 8 else bt_retryAttempt s),
      bt_inFlightIds := fold removeAll (ids batch) (bt_inFlightIds s), bt_flushing := False, bt_run := None\<rparr>"
  shows "fst (flush_settle d ok s) =
    (if \<not> bt_disposed s2 \<and> bt_pending s2 \<noteq> []
     then fst (batch_schedule (if ok then d else min 30000 (d * 2 ^ bt_retryAttempt s2)) s2) else s2)"
  using assms(1) unfolding s2_def by (simp add: flush_settle_def Let_def split: prod.splits)

lemma batch_inv_settle:
  assumes inv: "batch_inv s"
  shows "batch_inv (fst (flush_settle d ok s))"
proof (cases "bt_run s")
  case None
  then show ?thesis using assms by (simp add: flush_settle_def)
next
  case (Some r)
  obtain batch ep where r: "bt_run s = Some (batch, ep)" using Some by (cases r) simp
  let ?p = "if \<not> ok \<and> ep = bt_epoch s then retry_pending batch (bt_pending s) else bt_pending s"
  have p: "?p = (if \<not> ok \<and> ep = bt_epoch s then map (\<lambda>e. (ev_eventId e, e)) batch @ bt_pending s else bt_pending s)"
    using retry_pending_eq [OF inv, of batch] r by simp
  have "\<forall>(k, e) \<in> set ?p. k = ev_eventId e" using inv unfolding p by (auto simp: batch_inv_def)
  moreover have "distinct (ids (jm_values ?p))"
    using inv r unfolding p by (auto simp: batch_inv_def running_def comp_def)
  moreover have "\<not> bt_disposed s \<longrightarrow> fold removeAll (ids batch) (bt_inFlightIds s) = []"
  proof
    assume "\<not> bt_disposed s"
    then have "set (bt_inFlightIds s) \<subseteq> set (ids batch)"
      using inv r by (auto simp: batch_inv_def running_def split: if_splits)
    then have "set (fold removeAll (ids batch) (bt_inFlightIds s)) = {}" by auto
    then show "fold removeAll (ids batch) (bt_inFlightIds s) = []" by (simp only: set_empty)
  qed
  ultimately show ?thesis
    unfolding flush_settle_state [OF r] by (intro batch_inv_schedule) simp_all
qed

lemma timer_fires_eq: "timer_fires s = (if bt_timer s then flushNow s else (s, []))"
  by (simp add: timer_fires_def flushNow_def Let_def)

lemma batch_inv_step: "batch_inv s \<Longrightarrow> batch_inv (fst (batch_step d x s))"
proof (induction x)
  case Timer_fires
  then show ?case by (simp add: timer_fires_eq batch_inv_flushNow)
next
  case Dispose
  then show ?case by (auto simp: batch_dispose_def batch_inv_def running_def split: option.splits)
next
  case Reset
  then show ?case by (auto simp: batch_reset_def batch_inv_def running_def split: option.splits)
qed (simp_all add: batch_inv_enqueue batch_inv_flushNow batch_inv_settle)

lemma batch_inv_run: "batch_inv s \<Longrightarrow> batch_inv (fst (batch_run d xs s))"
proof (induction xs arbitrary: s)
  case (Cons x xs)
  from Cons.IH [OF batch_inv_step [OF Cons.prems, of d x]] show ?case by (simp add: case_prod_beta)
qed simp

section \<open>Histories of one scope\<close>

abbreviation event_number :: "invalidation \<Rightarrow> nat" where
  "event_number e \<equiv> parse_dec (ev_eventId e)"

primrec acks :: "batch_effect list \<Rightarrow> string list" where
  "acks [] = []"
| "acks (x # xs) = (case x of Ack i \<Rightarrow> i # acks xs | _ \<Rightarrow> acks xs)"

lemma acks_append [simp]: "acks (xs @ ys) = acks xs @ acks ys"
  by (induction xs) (auto split: batch_effect.splits)

text \<open>
  \<open>history d s accepted enqueued ack\<close>: from a fresh batcher or its last reset, the operations so far led to
  state \<open>s\<close>; \<open>accepted\<close> lists the events of the batches the consumer resolved, \<open>enqueued\<close> the ids of all
  events handed to \<open>enqueue\<close>, and \<open>ack\<close> the last id acknowledged.  An event handed to \<open>enqueue\<close> is either
  one the batcher still holds (the stream replays what is not acknowledged) or newer than all it
  has seen.
\<close>

inductive history :: "nat \<Rightarrow> batcher \<Rightarrow> invalidation list \<Rightarrow> string set \<Rightarrow> string option \<Rightarrow> bool" for d :: nat where
  history_new: "history d new_batcher [] {} None"
| history_enqueue: "history d s acc enq a \<Longrightarrow>
    ev_eventId e \<in> set (ids (running s @ jm_values (bt_pending s))) \<or>
    (\<forall>x \<in> set (acc @ running s @ jm_values (bt_pending s)). event_number x < event_number e) \<Longrightarrow>
    history d (fst (batch_enqueue d e s)) acc (insert (ev_eventId e) enq) a"
| history_flush: "history d s acc enq a \<Longrightarrow> history d (fst (flushNow s)) acc enq a"
| history_timer: "history d s acc enq a \<Longrightarrow> history d (fst (timer_fires s)) acc enq a"
| history_accept: "history d s acc enq a \<Longrightarrow>
    history d (fst (flush_settle d True s)) (acc @ running s) enq
      (case acks (snd (flush_settle d True s)) of [] \<Rightarrow> a | i # is \<Rightarrow> Some (last (i # is)))"
| history_fail: "history d s acc enq a \<Longrightarrow> history d (fst (flush_settle d False s)) acc enq a"
| history_reset: "history d s acc enq a \<Longrightarrow> history d (fst (batch_reset s)) [] {} None"

lemma batch_step_disposed: "bt_disposed (fst (batch_step d x s)) \<longleftrightarrow> bt_disposed s \<or> x = Dispose"
  by (cases x) (auto simp: batch_enqueue_def batch_schedule_def flushNow_def timer_fires_def flush_settle_def
      batch_dispose_def batch_reset_def Let_def split: option.splits)

lemma history_inv: "history d s acc enq a \<Longrightarrow> batch_inv s \<and> \<not> bt_disposed s"
proof (induction rule: history.induct)
  case history_new
  show ?case by (simp add: batch_inv_new) (simp add: new_batcher_def)
next
  case (history_enqueue s acc enq a e)
  then show ?case using batch_inv_step [of s d "Enqueue e"] batch_step_disposed [of d "Enqueue e" s] by simp
next
  case (history_flush s acc enq a)
  then show ?case using batch_inv_step [of s d Flush_now] batch_step_disposed [of d Flush_now s] by simp
next
  case (history_timer s acc enq a)
  then show ?case using batch_inv_step [of s d Timer_fires] batch_step_disposed [of d Timer_fires s] by simp
next
  case (history_accept s acc enq a)
  then show ?case using batch_inv_step [of s d "Settle True"] batch_step_disposed [of d "Settle True" s] by simp
next
  case (history_fail s acc enq a)
  then show ?case using batch_inv_step [of s d "Settle False"] batch_step_disposed [of d "Settle False" s] by simp
next
  case (history_reset s acc enq a)
  then show ?case using batch_inv_step [of s d Reset] batch_step_disposed [of d Reset s] by simp
qed

lemma highest_event_id_sorted:
  assumes "es \<noteq> []" "sorted_wrt (<) (map event_number es)"
  shows "highest_event_id es = ev_eventId (last es)"
proof -
  let ?f = "\<lambda>event highest. if parse_dec (ev_eventId event) > parse_dec highest then ev_eventId event else highest"
  have "fold ?f es h = ev_eventId (last es)"
    if "es \<noteq> []" "sorted_wrt (<) (map event_number es)" "h = ev_eventId (hd es) \<or> parse_dec h < event_number (hd es)"
    for es h using that
  proof (induction es arbitrary: h)
    case (Cons e es)
    then have "fold ?f (e # es) h = fold ?f es (ev_eventId e)" by auto
    with Cons.IH [of "ev_eventId e"] Cons.prems(2) show ?case by (cases es) simp_all
  qed simp
  from this [OF assms, of "ev_eventId (hd es)"] assms(1) show ?thesis
    by (cases es) (simp_all add: highest_event_id_def)
qed

lemma flush_settle_acks:
  "acks (snd (flush_settle d True s)) = (case bt_run s of None \<Rightarrow> []
     | Some (batch, e) \<Rightarrow> if e = bt_epoch s then [highest_event_id batch] else [])"
  by (auto simp: flush_settle_def Let_def batch_schedule_def split: option.splits)

text \<open>What the history has accepted, what is in flight and what is pending, in this order.\<close>

definition timeline :: "batcher \<Rightarrow> invalidation list \<Rightarrow> invalidation list" where
  "timeline s acc = acc @ running s @ jm_values (bt_pending s)"

lemma timeline_work: "timeline s acc = acc @ fst (work s) @ snd (work s)"
  by (simp add: timeline_def work_def)

lemma flushNow_timeline:
  assumes "batch_inv s"
  shows "timeline (fst (flushNow s)) acc = timeline s acc"
proof (cases "bt_flushing s \<or> bt_pending s = []")
  case True
  then show ?thesis using assms by (simp add: timeline_work flushNow_work)
next
  case False
  with assms have "running s = []" by (cases "bt_run s") (auto simp: batch_inv_def)
  with False assms show ?thesis by (simp add: timeline_work flushNow_work) (simp add: work_def)
qed

lemma history_timeline:
  "history d s acc enq a \<Longrightarrow>
   sorted_wrt (<) (map event_number (timeline s acc)) \<and> set (ids (timeline s acc)) = enq \<and>
   a = (if acc = [] then None else Some (ev_eventId (last acc)))"
proof (induction rule: history.induct)
  case history_new
  show ?case by (simp add: timeline_def new_batcher_def)
next
  case (history_enqueue s acc enq a e)
  note inv = history_inv [OF history_enqueue.hyps(1)]
  show ?case
  proof (cases "ev_eventId e \<in> set (ids (running s @ jm_values (bt_pending s)))")
    case True
    then have "timeline (fst (batch_enqueue d e s)) acc = timeline s acc"
      using inv by (simp add: timeline_work batch_enqueue_work) (simp add: work_def)
    moreover have "ev_eventId e \<in> set (ids (timeline s acc))" using True by (auto simp: timeline_def)
    ultimately show ?thesis using history_enqueue.IH by (simp only: insert_absorb)
  next
    case False
    with history_enqueue.hyps(2) have new: "\<forall>x \<in> set (timeline s acc). event_number x < event_number e"
      by (auto simp: timeline_def)
    have "timeline (fst (batch_enqueue d e s)) acc = timeline s acc @ [e]"
      using False inv by (simp add: timeline_work batch_enqueue_work) (simp add: work_def)
    with history_enqueue.IH new show ?thesis by (auto simp: sorted_wrt_append)
  qed
next
  case (history_flush s acc enq a)
  note inv = history_inv [OF history_flush.hyps]
  have "timeline (fst (flushNow s)) acc = timeline s acc"
    using inv by (simp add: flushNow_timeline)
  with history_flush.IH show ?case by simp
next
  case (history_timer s acc enq a)
  note inv = history_inv [OF history_timer.hyps]
  have "timeline (fst (timer_fires s)) acc = timeline s acc"
    using inv by (simp add: timer_fires_eq flushNow_timeline)
  with history_timer.IH show ?case by simp
next
  case (history_accept s acc enq a)
  note inv = history_inv [OF history_accept.hyps]
  have t: "timeline (fst (flush_settle d True s)) (acc @ running s) = timeline s acc"
    using inv by (simp add: timeline_work flush_settle_work) (simp add: work_def)
  show ?case
  proof (cases "running s = []")
    case True
    then have "acks (snd (flush_settle d True s)) = []"
      using inv by (auto simp: flush_settle_acks running_def batch_inv_def split: option.splits)
    with True t history_accept.IH show ?thesis by simp
  next
    case False
    then obtain batch where r: "bt_run s = Some (batch, bt_epoch s)" "running s = batch"
      by (auto simp: running_def split: option.splits if_splits)
    have "sorted_wrt (<) (map event_number batch)"
      using history_accept.IH r(2) by (simp add: timeline_def sorted_wrt_append)
    with r False have "acks (snd (flush_settle d True s)) = [ev_eventId (last batch)]"
      by (simp add: flush_settle_acks highest_event_id_sorted)
    with t history_accept.IH r(2) False show ?thesis by simp
  qed
next
  case (history_fail s acc enq a)
  note inv = history_inv [OF history_fail.hyps]
  have "timeline (fst (flush_settle d False s)) acc = timeline s acc"
    using inv by (simp add: timeline_work flush_settle_work) (simp add: work_def)
  with history_fail.IH show ?case by simp
next
  case (history_reset s acc enq a)
  note inv = history_inv [OF history_reset.hyps]
  have "running (fst (batch_reset s)) = []"
    using inv by (auto simp: batch_reset_def running_def batch_inv_def split: option.splits)
  then show ?case by (simp add: timeline_def) (simp add: batch_reset_def)
qed

section \<open>After disposal\<close>

definition retired :: "batcher \<Rightarrow> bool" where
  "retired s \<longleftrightarrow> bt_disposed s \<and> \<not> bt_timer s \<and> (\<forall>batch e. bt_run s = Some (batch, e) \<longrightarrow> e < bt_epoch s)"

lemma retired_step:
  assumes "retired s" "x \<noteq> Flush_now"
  shows "retired (fst (batch_step d x s)) \<and> acks (snd (batch_step d x s)) = []"
proof (cases x)
  case (Settle ok)
  then show ?thesis using assms(1)
    by (auto simp: flush_settle_def retired_def Let_def split: option.splits)
qed (use assms in \<open>auto simp: retired_def batch_enqueue_def timer_fires_def batch_dispose_def batch_reset_def\<close>)

lemma retired_run: "retired s \<Longrightarrow> Flush_now \<notin> set xs \<Longrightarrow> acks (snd (batch_run d xs s)) = []"
proof (induction xs arbitrary: s)
  case (Cons x xs)
  then have "retired (fst (batch_step d x s))" "acks (snd (batch_step d x s)) = []" using retired_step by auto
  with Cons.IH [of "fst (batch_step d x s)"] Cons.prems(2) show ?case by (simp add: case_prod_beta)
qed simp

section \<open>Splitting a batch\<close>

lemma split_batch_spec:
  "fst (split_batch events) = filter (\<lambda>e. resolveEarnRealtimeProtocolIssue e = None) events"
  "\<forall>(k, i) \<in> set (snd (split_batch events)). k = (pi_kind i, pi_eventType i)"
  "jm_wf (snd (split_batch events))"
  "set (jm_keys (snd (split_batch events))) =
     {(pi_kind i, pi_eventType i) |e i. e \<in> set events \<and> resolveEarnRealtimeProtocolIssue e = Some i}"
proof (induction events rule: rev_induct)
  case Nil
  { case 1 show ?case by (simp add: split_batch_def)
  next case 2 show ?case by (simp add: split_batch_def)
  next case 3 show ?case by (simp add: split_batch_def)
  next case 4 show ?case by (simp add: split_batch_def) }
next
  case (snoc e es)
  obtain sup iss where sp: "split_batch es = (sup, iss)" by (cases "split_batch es")
  have step: "split_batch (es @ [e]) = (case resolveEarnRealtimeProtocolIssue e of
      Some issue \<Rightarrow> (sup, jm_set (pi_kind issue, pi_eventType issue) issue iss) | None \<Rightarrow> (sup @ [e], iss))"
    using sp by (simp add: split_batch_def split: option.splits)
  { case 1 show ?case using snoc.IH(1) sp by (simp add: step split: option.splits)
  next case 2 show ?case using snoc.IH(2) sp
      by (auto simp: step split: option.splits dest!: jm_set_cases)
  next case 3 show ?case using snoc.IH(3) sp by (simp add: step split: option.splits)
  next case 4 show ?case
    proof (cases "resolveEarnRealtimeProtocolIssue e")
      case None
      then show ?thesis using snoc.IH(4) sp by (auto simp: step)
    next
      case (Some i)
      have "set (jm_keys (snd (split_batch (es @ [e])))) = insert (pi_kind i, pi_eventType i) (set (jm_keys iss))"
        by (simp only: step Some option.case snd_conv jm_keys_set)
      then show ?thesis using snoc.IH(4) sp Some by auto
    qed }
qed

section \<open>Properties\<close>

text \<open>
  C15.  Nothing is lost between the stream and the cursor.  Along every history of a scope, with consumer
  failures, retries and replays in any order, the events handed to the batcher are exactly those
  accepted, in flight or pending, each held once; and the acknowledged id is that of an accepted
  event and lies strictly below every event not yet accepted, so a resume from the cursor
  replays all of them.
\<close>

theorem acknowledgement_covers_accepted:
  assumes "history d s accepted enqueued ack"
  shows "enqueued = set (ids (accepted @ running s @ jm_values (bt_pending s))) \<and>
    distinct (map event_number (accepted @ running s @ jm_values (bt_pending s))) \<and>
    (ack = None \<longleftrightarrow> accepted = []) \<and>
    (\<forall>i. ack = Some i \<longrightarrow> i \<in> set (ids accepted) \<and>
      (\<forall>e \<in> set (running s @ jm_values (bt_pending s)). parse_dec i < event_number e))"
proof -
  note t = history_timeline [OF assms]
  then have "distinct (map event_number (timeline s accepted))" by (auto simp: strict_sorted_iff)
  moreover have "parse_dec i < event_number e"
    if "ack = Some i" "e \<in> set (running s @ jm_values (bt_pending s))" for i e
  proof -
    have ne: "accepted \<noteq> []" and i: "i = ev_eventId (last accepted)" using t that(1) by (auto split: if_splits)
    have "sorted_wrt (<) (map event_number accepted @ map event_number (running s @ jm_values (bt_pending s)))"
      using t by (simp add: timeline_def)
    then have "\<forall>x \<in> set accepted. \<forall>y \<in> set (running s @ jm_values (bt_pending s)). event_number x < event_number y"
      unfolding sorted_wrt_append set_map by blast
    with ne i that(2) show ?thesis by simp
  qed
  ultimately show ?thesis using t by (auto simp: timeline_def split: if_splits)
qed

definition example_event :: "nat \<Rightarrow> invalidation" where
  "example_event n = \<lparr>ev_eventId = show_dec n, ev_eventType = ''earn.position.changed'', ev_occurredAt = ''now'',
     ev_scope = ''earn'', ev_state = None, ev_reason = None, ev_targetId = None, ev_scheduledSlotId = None,
     ev_executionId = None, ev_failureCode = None, ev_unsupportedState = False\<rparr>"

theorem acknowledgement_covers_accepted_witness:
  "\<exists>s accepted enqueued. history 250 s accepted enqueued (Some ''1'') \<and>
    enqueued = set (ids (accepted @ running s @ jm_values (bt_pending s)))"
proof -
  let ?s1 = "fst (batch_enqueue 250 (example_event 1) new_batcher)"
  let ?s2 = "fst (timer_fires ?s1)"
  let ?s3 = "fst (batch_enqueue 250 (example_event 2) ?s2)"
  have "history 250 ?s1 [] {ev_eventId (example_event 1)} None"
    by (rule history_enqueue [OF history_new]) (simp add: new_batcher_def running_def)
  then have h2: "history 250 ?s2 [] {ev_eventId (example_event 1)} None" by (rule history_timer)
  have "\<forall>x \<in> set ([] @ running ?s2 @ jm_values (bt_pending ?s2)). event_number x < event_number (example_event 2)"
    by code_simp
  then have "history 250 ?s3 [] {ev_eventId (example_event 2), ev_eventId (example_event 1)} None"
    by (intro history_enqueue [OF h2] disjI2)
  from history_accept [OF this] have h: "history 250 (fst (flush_settle 250 True ?s3)) ([] @ running ?s3)
      {ev_eventId (example_event 2), ev_eventId (example_event 1)}
      (case acks (snd (flush_settle 250 True ?s3)) of [] \<Rightarrow> None | i # is \<Rightarrow> Some (last (i # is)))" .
  have "(case acks (snd (flush_settle 250 True ?s3)) of [] \<Rightarrow> None | i # is \<Rightarrow> Some (last (i # is))) = Some ''1''"
    by code_simp
  with h acknowledgement_covers_accepted [OF h] show ?thesis by (intro exI) auto
qed



text \<open>
  C17.  Disposal stops acknowledgements: once a batcher is disposed, neither the batch in flight nor any
  later timer, enqueue or reset acknowledges anything, as long as nobody calls \<open>flushNow\<close> on it.
\<close>

theorem disposed_batcher_never_acknowledges:
  assumes "Flush_now \<notin> set later"
  shows "acks (snd (batch_run d later (fst (batch_dispose (fst (batch_run d ops new_batcher)))))) = []"
proof (rule retired_run [OF _ assms])
  show "retired (fst (batch_dispose (fst (batch_run d ops new_batcher))))"
    using batch_inv_run [OF batch_inv_new, of d ops]
    by (auto simp: retired_def batch_dispose_def batch_inv_def le_imp_less_Suc)
qed

theorem disposed_batcher_never_acknowledges_witness:
  "acks (snd (batch_run 250 [Settle True, Timer_fires]
     (fst (batch_dispose (fst (batch_run 250 [Enqueue (example_event 1), Flush_now] new_batcher)))))) = []"
  by (rule disposed_batcher_never_acknowledges) simp

text \<open>
  No event of a batch is ignored: the supported ones are handed to the consumer, in order; a
  resync is requested exactly when some event is not supported; and each combination of issue kind
  and event type is reported once.
\<close>

theorem accept_batch_covers:
  "set (acceptEarnRealtimeInvalidationBatch events) \<inter> range Call_batch =
     (let supported = filter (\<lambda>e. resolveEarnRealtimeProtocolIssue e = None) events in
      if supported = [] then {} else {Call_batch supported}) \<and>
   (Call_resync \<in> set (acceptEarnRealtimeInvalidationBatch events) \<longleftrightarrow>
     (\<exists>e \<in> set events. resolveEarnRealtimeProtocolIssue e \<noteq> None)) \<and>
   (\<exists>issues. map Call_issue issues = filter (\<lambda>c. c \<in> range Call_issue) (acceptEarnRealtimeInvalidationBatch events) \<and>
      distinct (map (\<lambda>i. (pi_kind i, pi_eventType i)) issues) \<and>
      (\<lambda>i. (pi_kind i, pi_eventType i)) ` set issues =
        {(pi_kind i, pi_eventType i) |e i. e \<in> set events \<and> resolveEarnRealtimeProtocolIssue e = Some i})"
proof -
  obtain supported issues where sp: "split_batch events = (supported, issues)" by (cases "split_batch events")
  note spec = split_batch_spec [of events, unfolded sp fst_conv snd_conv]
  let ?calls = "acceptEarnRealtimeInvalidationBatch events"
  have calls: "?calls = map Call_issue (jm_values issues) @ (if supported \<noteq> [] then [Call_batch supported] else []) @
      (if issues \<noteq> [] then [Call_resync] else [])"
    by (simp add: acceptEarnRealtimeInvalidationBatch_def sp)
  have filter: "filter (\<lambda>c. c \<in> range Call_issue) ?calls = map Call_issue (jm_values issues)"
    unfolding calls by (auto intro!: filter_True)
  have keys: "map (\<lambda>i. (pi_kind i, pi_eventType i)) (jm_values issues) = jm_keys issues"
    using spec(2) by (induction issues) auto
  have "issues = [] \<longleftrightarrow> set (jm_keys issues) = {}" by simp
  also have "\<dots> \<longleftrightarrow> (\<forall>e \<in> set events. resolveEarnRealtimeProtocolIssue e = None)"
    unfolding spec(4) by (simp add: not_Some_eq [symmetric] del: not_Some_eq) metis
  finally have "issues = [] \<longleftrightarrow> (\<forall>e \<in> set events. resolveEarnRealtimeProtocolIssue e = None)" .
  then have "Call_resync \<in> set ?calls \<longleftrightarrow> (\<exists>e \<in> set events. resolveEarnRealtimeProtocolIssue e \<noteq> None)"
    by (auto simp: calls)
  moreover have "distinct (map (\<lambda>i. (pi_kind i, pi_eventType i)) (jm_values issues))"
    unfolding keys using spec(3) by (simp add: jm_wf_def)
  moreover have "(\<lambda>i. (pi_kind i, pi_eventType i)) ` set (jm_values issues) = set (jm_keys issues)"
    unfolding keys [symmetric] by (simp only: set_map)
  moreover have "set ?calls \<inter> range Call_batch = (if supported = [] then {} else {Call_batch supported})"
    by (auto simp: calls)
  ultimately show ?thesis
    unfolding Let_def using filter spec(1,4) by (intro conjI exI [of _ "jm_values issues"]) (simp_all only: if_cancel)
qed

text \<open>An explicit flush after \<open>dispose\<close> belongs to the new epoch and is acknowledged.\<close>

lemma disposed_flush_acknowledges:
  "acks (snd (batch_run 150 [Enqueue e, Dispose, Flush_now, Settle True] new_batcher)) = [ev_eventId e]"
  by (simp add: new_batcher_def batch_enqueue_def batch_schedule_def batch_dispose_def flushNow_def flush_settle_def
      highest_event_id_def Let_def)

end
