(* ===== verification/Realtime_Session.thy ===== *)
theory Realtime_Session
  imports Sse_Stream Cursor_Store Batcher
begin

text \<open>
  One mounted realtime session: the effect of \<open>earn-realtime/use-earn-realtime.ts\<close> with the connection loop of
  \<open>lifecycle.ts\<close>, which tie the event stream, the batcher and the cursor store together, and the wait of
  \<open>recovery.ts\<close>.  The loop is cut at its \<open>await\<close>s: each operation below is what runs when the awaited
  thing happens, up to the next \<open>await\<close>.  Promises are states: an admission is the full reconciliation
  that a connection without a cursor starts.
\<close>

section \<open>Waiting before a reconnect\<close>

text \<open>\<open>rw_resolved\<close> counts the calls of \<open>resolve\<close>; \<open>rw_listening\<close> tells whether the listeners and the timer are installed.\<close>

record recovery_wait =
  rw_settled :: bool
  rw_listening :: bool
  rw_resolved :: nat

definition recovery_finish :: "recovery_wait \<Rightarrow> recovery_wait" where
  "recovery_finish w =
     (if rw_settled w then w
      else w\<lparr>rw_settled := True, rw_listening := False, rw_resolved := rw_resolved w + 1\<rparr>)"

definition waitForEarnRealtimeRecovery :: "bool \<Rightarrow> nat \<Rightarrow> rat \<Rightarrow> recovery_wait \<times> int option" where
  "waitForEarnRealtimeRecovery aborted attempt random =
     (if aborted then (\<lparr>rw_settled = False, rw_listening = False, rw_resolved = 1\<rparr>, None)
      else (\<lparr>rw_settled = False, rw_listening = True, rw_resolved = 0\<rparr>,
            Some (computeEarnRealtimeReconnectDelayMs attempt random)))"

datatype recovery_signal = Timer_due | Aborted | Online | Visibility_change bool bool

definition recovery_step :: "recovery_signal \<Rightarrow> recovery_wait \<Rightarrow> recovery_wait" where
  "recovery_step x w =
     (if \<not> rw_listening w then w
      else case x of
        Visibility_change isVisible isOnline \<Rightarrow> if isVisible \<and> isOnline then recovery_finish w else w
      | _ \<Rightarrow> recovery_finish w)"

section \<open>State of a session\<close>

datatype connection_state = Disabled | Connecting | Connected | Reconnecting

datatype admission = Admission_pending | Admission_ok | Admission_failed

text \<open>
  The variables of one turn of the loop: \<open>cn_aborted\<close> is \<open>stream.signal.aborted\<close>, \<open>cn_connected\<close> tells whether
  the stream has called \<open>onConnected\<close>, \<open>cn_admission\<close> whether \<open>admissionPromise\<close> is set.
\<close>

record connection =
  cn_cursor :: "string option"
  cn_connected :: bool
  cn_admitted :: bool
  cn_admission :: bool
  cn_renewing :: bool
  cn_aborted :: bool

datatype stream_outcome = Ended stream_result | Abort_error

text \<open>Where the loop is suspended: at the token, in the stream, at the admission after the stream, before a reconnect.\<close>

datatype lifecycle_phase =
    Token_requested
  | Streaming connection
  | Stream_over connection stream_outcome
  | Reconnect_wait
  | Finished

text \<open>
  \<open>ss_admissions\<close> lists the values the hook's \<open>admissionPromise\<close> has had, the current one last;
  \<open>ss_runAdmission\<close> is the one the batch in flight awaits.
\<close>

record session =
  ss_aborted :: bool
  ss_attempt :: nat
  ss_phase :: lifecycle_phase
  ss_state :: connection_state
  ss_token :: "token_response option"
  ss_cursors :: cursor_state
  ss_batcher :: batcher
  ss_admissions :: "admission list"
  ss_runAdmission :: nat

definition TOKEN_RENEWAL_LEAD_MS :: int where "TOKEN_RENEWAL_LEAD_MS = 30000"

definition INVALIDATION_BATCH_MS :: nat where "INVALIDATION_BATCH_MS = 150"

section \<open>The connection loop\<close>

definition loop_top :: "session \<Rightarrow> session" where
  "loop_top s =
     (if ss_aborted s then s\<lparr>ss_phase := Finished, ss_token := token_cache_clear (ss_token s)\<rparr>
      else s\<lparr>ss_state := (if ss_attempt s > 0 then Reconnecting else Connecting), ss_phase := Token_requested\<rparr>)"

text \<open>What follows a stream that closed or failed.\<close>

definition connection_failed :: "session \<Rightarrow> session" where
  "connection_failed s =
     (if ss_aborted s then s\<lparr>ss_phase := Finished, ss_token := token_cache_clear (ss_token s)\<rparr>
      else s\<lparr>ss_state := Reconnecting, ss_attempt := ss_attempt s + 1, ss_phase := Reconnect_wait\<rparr>)"

definition session_mount :: "bool \<Rightarrow> cursor_state \<Rightarrow> session" where
  "session_mount enabled cursors =
     (let s = \<lparr>ss_aborted = False, ss_attempt = 0, ss_phase = Finished, ss_state = Disabled, ss_token = None,
               ss_cursors = cursors, ss_batcher = new_batcher, ss_admissions = [Admission_ok],
               ss_runAdmission = 0\<rparr> in
      if enabled then loop_top s else s)"

definition token_settles ::
    "(string \<Rightarrow> int option) \<Rightarrow> string \<Rightarrow> storage_access \<Rightarrow> int \<Rightarrow> realtime_error + token_response \<Rightarrow> session \<Rightarrow> session" where
  "token_settles getTime key a now request s =
     (if ss_phase s \<noteq> Token_requested then s
      else case token_cache_get getTime TOKEN_RENEWAL_LEAD_MS now request (ss_token s) of
        (Inl _, current) \<Rightarrow> connection_failed (s\<lparr>ss_token := current\<rparr>)
      | (Inr token, current) \<Rightarrow>
          if ss_aborted s then s\<lparr>ss_phase := Finished, ss_token := token_cache_clear current\<rparr>
          else (case cursor_get key a (ss_cursors s) of (cursor, cursors) \<Rightarrow>
            s\<lparr>ss_token := current, ss_cursors := cursors,
              ss_phase := Streaming \<lparr>cn_cursor = cursor, cn_connected = False, cn_admitted = False,
                cn_admission = False, cn_renewing = False, cn_aborted = False\<rparr>\<rparr>))"

definition stream_connected :: "session \<Rightarrow> session" where
  "stream_connected s =
     (case ss_phase s of
        Streaming c \<Rightarrow>
          if cn_cursor c \<noteq> None then
            s\<lparr>ss_attempt := 0, ss_state := Connected,
              ss_phase := Streaming (c\<lparr>cn_connected := True, cn_admitted := True\<rparr>)\<rparr>
          else
            s\<lparr>ss_admissions := ss_admissions s @ [Admission_pending],
              ss_phase := Streaming (c\<lparr>cn_connected := True, cn_admission := True\<rparr>)\<rparr>
      | _ \<Rightarrow> s)"

definition enqueueInvalidation :: "invalidation \<Rightarrow> session \<Rightarrow> session" where
  "enqueueInvalidation event s = s\<lparr>ss_batcher := fst (batch_enqueue INVALIDATION_BATCH_MS event (ss_batcher s))\<rparr>"

definition clearCursor :: "string \<Rightarrow> storage_access \<Rightarrow> session \<Rightarrow> session" where
  "clearCursor key a s =
     s\<lparr>ss_cursors := cursor_clear key a (ss_cursors s), ss_batcher := fst (batch_reset (ss_batcher s))\<rparr>"

text \<open>The code after the stream and its admission have settled.\<close>

definition connection_over :: "string \<Rightarrow> storage_access \<Rightarrow> connection \<Rightarrow> stream_outcome \<Rightarrow> session \<Rightarrow> session" where
  "connection_over key a c result s =
     (case result of
        Abort_error \<Rightarrow>
          if cn_renewing c then loop_top (if cn_admitted c then s\<lparr>ss_attempt := 0\<rparr> else s)
          else connection_failed s
      | Ended (Throws e) \<Rightarrow>
          connection_failed
            (if isEarnRealtimeAuthRejection e then s\<lparr>ss_token := token_cache_clear (ss_token s)\<rparr> else s)
      | Ended (Resync _) \<Rightarrow> loop_top (clearCursor key a s)
      | Ended _ \<Rightarrow> connection_failed s)"

definition stream_ends :: "string \<Rightarrow> storage_access \<Rightarrow> stream_outcome \<Rightarrow> session \<Rightarrow> session" where
  "stream_ends key a result s =
     (case ss_phase s of
        Streaming c \<Rightarrow>
          if cn_admission c \<and> \<not> ss_aborted s \<and> last (ss_admissions s) = Admission_pending
          then s\<lparr>ss_phase := Stream_over (c\<lparr>cn_aborted := True\<rparr>) result\<rparr>
          else connection_over key a c result s
      | _ \<Rightarrow> s)"

text \<open>
  The reconciliation settles: first the hook's promise, then the continuation in the loop, which
  runs in the next microtasks.
\<close>

definition admission_settles :: "string \<Rightarrow> storage_access \<Rightarrow> bool \<Rightarrow> session \<Rightarrow> session" where
  "admission_settles key a ok s =
     (if last (ss_admissions s) \<noteq> Admission_pending then s
      else
        let s1 = s\<lparr>ss_admissions := butlast (ss_admissions s) @ [if ok then Admission_ok else Admission_failed]\<rparr> in
        case ss_phase s1 of
          Streaming c \<Rightarrow>
            if ok then
              (if \<not> cn_aborted c \<and> \<not> ss_aborted s1
               then s1\<lparr>ss_attempt := 0, ss_state := Connected, ss_phase := Streaming (c\<lparr>cn_admitted := True\<rparr>)\<rparr>
               else s1)
            else s1\<lparr>ss_phase := Streaming (c\<lparr>cn_aborted := True\<rparr>)\<rparr>
        | Stream_over c result \<Rightarrow> connection_over key a c result s1
        | _ \<Rightarrow> s1)"

definition renewal_fires :: "session \<Rightarrow> session" where
  "renewal_fires s =
     (case ss_phase s of
        Streaming c \<Rightarrow>
          s\<lparr>ss_token := token_cache_clear (ss_token s),
            ss_phase := Streaming (c\<lparr>cn_renewing := True, cn_aborted := True\<rparr>)\<rparr>
      | Stream_over c result \<Rightarrow>
          s\<lparr>ss_token := token_cache_clear (ss_token s),
            ss_phase := Stream_over (c\<lparr>cn_renewing := True\<rparr>) result\<rparr>
      | _ \<Rightarrow> s)"

definition reconnect_due :: "session \<Rightarrow> session" where
  "reconnect_due s = (if ss_phase s = Reconnect_wait then loop_top s else s)"

section \<open>Batches\<close>

text \<open>
  The batcher's timer calls \<open>onBatch\<close>, which reads \<open>admissionPromise\<close> and awaits it; the batch settles
  when that promise and then the consumer have.  A rejected admission rejects the batch.
\<close>

definition batch_timer :: "session \<Rightarrow> session" where
  "batch_timer s =
     (let r = timer_fires (ss_batcher s) in
      s\<lparr>ss_batcher := fst r,
        ss_runAdmission := (if snd r = [] then ss_runAdmission s else length (ss_admissions s) - 1)\<rparr>)"

definition batch_settles :: "string \<Rightarrow> storage_access \<Rightarrow> bool \<Rightarrow> session \<Rightarrow> session" where
  "batch_settles key a ok s =
     (let admitted = ss_admissions s ! ss_runAdmission s in
      if admitted = Admission_pending then s
      else
        let r = flush_settle INVALIDATION_BATCH_MS (ok \<and> admitted = Admission_ok) (ss_batcher s) in
        s\<lparr>ss_batcher := fst r, ss_cursors := fold (cursor_acknowledge key a) (acks (snd r)) (ss_cursors s)\<rparr>)"

definition session_unmount :: "session \<Rightarrow> session" where
  "session_unmount s =
     s\<lparr>ss_aborted := True, ss_batcher := fst (batch_dispose (ss_batcher s)),
       ss_phase := (case ss_phase s of Streaming c \<Rightarrow> Streaming (c\<lparr>cn_aborted := True\<rparr>) | p \<Rightarrow> p)\<rparr>"

datatype session_op =
    Token_settles storage_access int "realtime_error + token_response"
  | Stream_connected
  | Stream_delivers invalidation
  | Stream_ends storage_access stream_outcome
  | Admission_settles storage_access bool
  | Renewal_fires
  | Reconnect_due
  | Batch_timer
  | Batch_settles storage_access bool
  | Unmount

primrec session_step :: "(string \<Rightarrow> int option) \<Rightarrow> string \<Rightarrow> session_op \<Rightarrow> session \<Rightarrow> session" where
  "session_step getTime key (Token_settles a now request) = token_settles getTime key a now request"
| "session_step getTime key Stream_connected = stream_connected"
| "session_step getTime key (Stream_delivers event) = enqueueInvalidation event"
| "session_step getTime key (Stream_ends a result) = stream_ends key a result"
| "session_step getTime key (Admission_settles a ok) = admission_settles key a ok"
| "session_step getTime key Renewal_fires = renewal_fires"
| "session_step getTime key Reconnect_due = reconnect_due"
| "session_step getTime key Batch_timer = batch_timer"
| "session_step getTime key (Batch_settles a ok) = batch_settles key a ok"
| "session_step getTime key Unmount = session_unmount"

primrec session_run :: "(string \<Rightarrow> int option) \<Rightarrow> string \<Rightarrow> session_op list \<Rightarrow> session \<Rightarrow> session" where
  "session_run getTime key [] s = s"
| "session_run getTime key (x # xs) s = session_run getTime key xs (session_step getTime key x s)"

end
