(* ===== verification/Session_Delivery.thy ===== *)
theory Session_Delivery
  imports Realtime_Session
begin

text \<open>
  What a session does with the events of the server, across reconnects, failed batches, failed
  reconciliations and storage failures: an invariant of all interleavings of the session's operations
  with the server's log.
\<close>

section \<open>Histories\<close>

text \<open>
  The server's log is the list of the events published so far, in the order of their numbers.
  \<open>log_top\<close> bounds the numbers in use.
\<close>

definition log_top :: "invalidation list \<Rightarrow> nat" where
  "log_top evs = (if evs = [] then 0 else Suc (event_number (last evs)))"

definition log_ok :: "invalidation list \<Rightarrow> bool" where
  "log_ok evs \<longleftrightarrow> sorted_wrt (<) (map event_number evs) \<and> (\<forall>e \<in> set evs. decimal_pattern (ev_eventId e))"

definition held :: "batcher \<Rightarrow> invalidation set" where
  "held b = set (running b) \<union> set (jm_values (bt_pending b))"

text \<open>
  \<open>reflected\<close> are the events that become visible to the user at a step: those of a batch the consumer
  accepted, and all those a successful reconciliation has seen, i.e. those published before its
  connection was made (number below \<open>base\<close>).
\<close>

definition reflected :: "session_op \<Rightarrow> session \<Rightarrow> invalidation list \<Rightarrow> nat \<Rightarrow> invalidation set" where
  "reflected x s evs base =
     (case x of
        Admission_settles a True \<Rightarrow>
          if last (ss_admissions s) = Admission_pending then {e \<in> set evs. event_number e < base} else {}
      | Batch_settles a True \<Rightarrow>
          if ss_admissions s ! ss_runAdmission s = Admission_ok then set (running (ss_batcher s)) else {}
      | _ \<Rightarrow> {})"

text \<open>
  \<open>session_history getTime key s evs known pos base\<close>: the session is in state \<open>s\<close>, the server has published
  \<open>evs\<close>, the events \<open>known\<close> are reflected in what the user sees, the connection has delivered the events
  below \<open>pos\<close>, and the last reconciliation covers those below \<open>base\<close>.  The server promises to deliver the
  events in order, from the first one after the cursor it was given, or from the first one
  published after the connection when it was given none.  Everything else may happen in any order.
\<close>

inductive session_history ::
    "(string \<Rightarrow> int option) \<Rightarrow> string \<Rightarrow> session \<Rightarrow> invalidation list \<Rightarrow> invalidation set \<Rightarrow> nat \<Rightarrow> nat \<Rightarrow> bool"
  for getTime :: "string \<Rightarrow> int option" and key :: string where
  session_start:
    "log_ok evs \<Longrightarrow> cursor_bound key cursors \<le> log_top evs \<Longrightarrow>
     \<forall>e \<in> set evs. event_number e < cursor_bound key cursors \<longrightarrow> e \<in> known \<Longrightarrow>
     session_history getTime key (session_mount enabled cursors) evs known 0 0"
| session_publish:
    "session_history getTime key s evs known pos base \<Longrightarrow> log_top evs \<le> event_number e \<Longrightarrow>
     decimal_pattern (ev_eventId e) \<Longrightarrow> session_history getTime key s (evs @ [e]) known pos base"
| session_connect:
    "session_history getTime key s evs known pos base \<Longrightarrow> ss_phase s = Streaming c \<Longrightarrow>
     \<not> cn_connected c \<Longrightarrow> \<not> cn_aborted c \<Longrightarrow>
     session_history getTime key (session_step getTime key Stream_connected s) evs known
       (case cn_cursor c of Some k \<Rightarrow> Suc (parse_dec k) | None \<Rightarrow> log_top evs)
       (case cn_cursor c of Some k \<Rightarrow> base | None \<Rightarrow> log_top evs)"
| session_deliver:
    "session_history getTime key s evs known pos base \<Longrightarrow> ss_phase s = Streaming c \<Longrightarrow>
     cn_connected c \<Longrightarrow> \<not> cn_aborted c \<Longrightarrow>
     e \<in> set evs \<Longrightarrow> pos \<le> event_number e \<Longrightarrow>
     \<forall>z \<in> set evs. pos \<le> event_number z \<longrightarrow> event_number e \<le> event_number z \<Longrightarrow>
     session_history getTime key (session_step getTime key (Stream_delivers e) s) evs known
       (Suc (event_number e)) base"
| session_other:
    "session_history getTime key s evs known pos base \<Longrightarrow> x \<noteq> Stream_connected \<Longrightarrow>
     (\<forall>e. x \<noteq> Stream_delivers e) \<Longrightarrow>
     session_history getTime key (session_step getTime key x s) evs (known \<union> reflected x s evs base) pos base"

section \<open>Invariant\<close>

text \<open>
  An event is covered when the user sees it, the batcher holds it, or the current reconciliation, not
  yet successful, is responsible for it.
\<close>

definition covered :: "session \<Rightarrow> invalidation set \<Rightarrow> nat \<Rightarrow> invalidation \<Rightarrow> bool" where
  "covered s known base e \<longleftrightarrow>
     e \<in> known \<or> e \<in> held (ss_batcher s) \<or> last (ss_admissions s) \<noteq> Admission_ok \<and> event_number e < base"

definition downwards :: "invalidation list \<Rightarrow> invalidation set \<Rightarrow> (invalidation \<Rightarrow> bool) \<Rightarrow> bool" where
  "downwards evs X P \<longleftrightarrow> (\<forall>x \<in> X. \<forall>e \<in> set evs. event_number e \<le> event_number x \<longrightarrow> P e)"

definition cursors_inv :: "string \<Rightarrow> session \<Rightarrow> invalidation list \<Rightarrow> invalidation set \<Rightarrow> bool" where
  "cursors_inv key s evs known \<longleftrightarrow>
     log_ok evs \<and> cursor_bound key (ss_cursors s) \<le> log_top evs \<and>
     (\<forall>e \<in> set evs. event_number e < cursor_bound key (ss_cursors s) \<longrightarrow> e \<in> known)"

definition admissions_inv :: "session \<Rightarrow> bool" where
  "admissions_inv s \<longleftrightarrow>
     ss_admissions s \<noteq> [] \<and> ss_runAdmission s < length (ss_admissions s) \<and>
     Admission_pending \<notin> set (butlast (ss_admissions s))"

definition batches_inv :: "session \<Rightarrow> invalidation list \<Rightarrow> invalidation set \<Rightarrow> nat \<Rightarrow> bool" where
  "batches_inv s evs known base \<longleftrightarrow>
     batch_inv (ss_batcher s) \<and> held (ss_batcher s) \<subseteq> set evs \<and>
     downwards evs (held (ss_batcher s)) (covered s known base) \<and>
     (ss_admissions s ! ss_runAdmission s \<noteq> Admission_failed \<longrightarrow>
        downwards evs (set (running (ss_batcher s)))
          (\<lambda>e. e \<in> known \<or> e \<in> set (running (ss_batcher s)) \<or>
             ss_admissions s ! ss_runAdmission s = Admission_pending \<and> event_number e < base))"

definition phase_inv :: "session \<Rightarrow> invalidation list \<Rightarrow> invalidation set \<Rightarrow> nat \<Rightarrow> nat \<Rightarrow> bool" where
  "phase_inv s evs known pos base \<longleftrightarrow>
     base \<le> log_top evs \<and> \<not> bt_disposed (ss_batcher s) \<and> \<not> ss_aborted s \<and>
     (\<forall>c. ss_phase s = Streaming c \<longrightarrow>
        (\<forall>k. cn_cursor c = Some k \<longrightarrow> decimal_pattern k \<and> Suc (parse_dec k) \<le> log_top evs \<and>
           (\<forall>e \<in> set evs. event_number e \<le> parse_dec k \<longrightarrow> e \<in> known)) \<and>
        (cn_connected c \<longrightarrow> pos \<le> log_top evs \<and>
           (\<forall>e \<in> set evs. event_number e < pos \<longrightarrow> covered s known base e))) \<and>
     (last (ss_admissions s) = Admission_pending \<longrightarrow>
        (\<exists>c. ss_phase s = Streaming c \<and> cn_connected c \<and> cn_admission c) \<or>
        (\<exists>c result. ss_phase s = Stream_over c result))"

definition session_inv ::
    "string \<Rightarrow> session \<Rightarrow> invalidation list \<Rightarrow> invalidation set \<Rightarrow> nat \<Rightarrow> nat \<Rightarrow> bool" where
  "session_inv key s evs known pos base \<longleftrightarrow>
     cursors_inv key s evs known \<and> admissions_inv s \<and> batches_inv s evs known base \<and>
     phase_inv s evs known pos base"

lemmas session_inv_defs = session_inv_def cursors_inv_def admissions_inv_def batches_inv_def phase_inv_def

lemma event_below_top: "log_ok evs \<Longrightarrow> e \<in> set evs \<Longrightarrow> event_number e < log_top evs"
proof (cases evs rule: rev_cases)
  case (snoc es x)
  then show "log_ok evs \<Longrightarrow> e \<in> set evs \<Longrightarrow> event_number e < log_top evs"
    by (auto simp: log_ok_def log_top_def sorted_wrt_append less_Suc_eq)
qed simp

lemma event_same_id:
  assumes "log_ok evs" "e \<in> set evs" "x \<in> set evs" "ev_eventId e = ev_eventId x"
  shows "e = x"
proof -
  have "distinct (map event_number evs)" using assms(1) strict_sorted_iff unfolding log_ok_def by blast
  then show ?thesis using assms(2-4) by (simp add: distinct_map inj_on_def)
qed

lemma downwards_mono: "downwards evs X P \<Longrightarrow> Y \<subseteq> X \<Longrightarrow> (\<And>e. e \<in> set evs \<Longrightarrow> P e \<Longrightarrow> Q e) \<Longrightarrow> downwards evs Y Q"
  unfolding downwards_def by blast

lemma downwards_publish:
  assumes "downwards evs X P" "log_ok evs" "X \<subseteq> set evs" "log_top evs \<le> event_number e"
  shows "downwards (evs @ [e]) X P"
  using assms event_below_top unfolding downwards_def by fastforce

section \<open>The invariant is kept\<close>

text \<open>Operations of the loop change neither the batcher nor the admissions.\<close>

definition same_work :: "session \<Rightarrow> session \<Rightarrow> bool" where
  "same_work s t \<longleftrightarrow> ss_batcher t = ss_batcher s \<and> ss_admissions t = ss_admissions s \<and>
     ss_runAdmission t = ss_runAdmission s \<and> ss_aborted t = ss_aborted s"

lemma same_work_inv:
  assumes "same_work s t"
  shows "admissions_inv t = admissions_inv s" "batches_inv t evs known base = batches_inv s evs known base"
    "covered t known base = covered s known base"
  using assms by (simp_all add: same_work_def admissions_inv_def batches_inv_def covered_def [abs_def])

definition settled_phase :: "session \<Rightarrow> bool" where
  "settled_phase s \<longleftrightarrow> (\<forall>c. ss_phase s \<noteq> Streaming c)"

lemma loop_exits:
  "same_work s (loop_top s)" "ss_cursors (loop_top s) = ss_cursors s" "settled_phase (loop_top s)"
  "same_work s (connection_failed s)" "ss_cursors (connection_failed s) = ss_cursors s"
  "settled_phase (connection_failed s)"
  by (auto simp: same_work_def settled_phase_def loop_top_def connection_failed_def)

lemma session_inv_exit:
  assumes "session_inv key s evs known pos base" "same_work s t" "ss_cursors t = ss_cursors s" "settled_phase t"
    "last (ss_admissions s) \<noteq> Admission_pending"
  shows "session_inv key t evs known pos base"
  using assms same_work_inv [OF assms(2)] unfolding session_inv_def
  by (auto simp: cursors_inv_def phase_inv_def same_work_def settled_phase_def)

lemma session_inv_loop:
  assumes "session_inv key s evs known pos base" "last (ss_admissions s) \<noteq> Admission_pending"
  shows "session_inv key (loop_top s) evs known pos base" "session_inv key (connection_failed s) evs known pos base"
  using session_inv_exit [OF assms(1) _ _ _ assms(2)] loop_exits by blast+

text \<open>The token, the attempts and the displayed state play no part.\<close>

lemma session_inv_update [simp]:
  "session_inv key (s\<lparr>ss_token := t\<rparr>) evs known pos base = session_inv key s evs known pos base"
  "session_inv key (s\<lparr>ss_attempt := n\<rparr>) evs known pos base = session_inv key s evs known pos base"
  "session_inv key (s\<lparr>ss_state := d\<rparr>) evs known pos base = session_inv key s evs known pos base"
  by (simp_all add: session_inv_defs covered_def [abs_def])

lemma held_reset: "held (fst (batch_reset b)) = {}" if "batch_inv b"
  using that by (auto simp: held_def batch_reset_def running_def batch_inv_def split: option.splits)

lemma session_inv_clear:
  assumes "session_inv key s evs known pos base" "settled_phase s"
  shows "session_inv key (clearCursor key a s) evs known pos base"
proof -
  have b: "batch_inv (ss_batcher s)" using assms by (simp add: session_inv_defs)
  then have "batch_inv (fst (batch_reset (ss_batcher s)))" using batch_inv_step [of _ 0 Reset] by simp
  then show ?thesis using assms held_reset [OF b]
    by (auto simp: session_inv_defs clearCursor_def cursors.clear_bound downwards_def held_def settled_phase_def
        batch_reset_def)
qed

lemma session_inv_resync:
  assumes "session_inv key s evs known pos base" "last (ss_admissions s) \<noteq> Admission_pending"
  shows "session_inv key (loop_top (clearCursor key a s)) evs known pos base"
proof -
  let ?s = "s\<lparr>ss_phase := Reconnect_wait\<rparr>"
  have "session_inv key ?s evs known pos base" "settled_phase ?s"
    using session_inv_exit [OF assms(1) _ _ _ assms(2), of ?s] by (simp_all add: same_work_def settled_phase_def)
  then have "session_inv key (loop_top (clearCursor key a ?s)) evs known pos base"
    using assms(2) by (intro session_inv_loop session_inv_clear) (simp_all add: clearCursor_def)
  moreover have "loop_top (clearCursor key a ?s) = loop_top (clearCursor key a s)"
    by (cases s) (simp add: loop_top_def clearCursor_def)
  ultimately show ?thesis by (simp only:)
qed

lemma session_inv_over:
  assumes "session_inv key s evs known pos base" "last (ss_admissions s) \<noteq> Admission_pending"
  shows "session_inv key (connection_over key a c result s) evs known pos base"
  using session_inv_loop session_inv_resync assms
  by (auto simp: connection_over_def split: stream_outcome.splits stream_result.splits)

lemma session_inv_ends:
  assumes "session_inv key s evs known pos base"
  shows "session_inv key (stream_ends key a result s) evs known pos base"
proof (cases "ss_phase s")
  case (Streaming c)
  show ?thesis
  proof (cases "cn_admission c \<and> \<not> ss_aborted s \<and> last (ss_admissions s) = Admission_pending")
    case True
    then have t: "same_work s (stream_ends key a result s)" "ss_cursors (stream_ends key a result s) = ss_cursors s"
      "\<exists>c result'. ss_phase (stream_ends key a result s) = Stream_over c result'"
      using Streaming by (simp_all add: stream_ends_def same_work_def)
    then show ?thesis using assms same_work_inv [OF t(1)] unfolding session_inv_def
      by (auto simp: cursors_inv_def phase_inv_def same_work_def)
  next
    case False
    then have "last (ss_admissions s) \<noteq> Admission_pending"
      using assms Streaming by (auto simp: session_inv_defs)
    then show ?thesis using False Streaming session_inv_over [OF assms] by (auto simp: stream_ends_def)
  qed
qed (use assms in \<open>simp_all add: stream_ends_def\<close>)

lemma session_inv_token:
  assumes inv: "session_inv key s evs known pos base"
  shows "session_inv key (token_settles getTime key a now request s) evs known pos base"
proof (cases "ss_phase s = Token_requested")
  case False
  then show ?thesis using inv by (simp add: token_settles_def)
next
  case True
  then have idle: "last (ss_admissions s) \<noteq> Admission_pending" using inv by (auto simp: session_inv_defs)
  obtain r current where g: "token_cache_get getTime TOKEN_RENEWAL_LEAD_MS now request (ss_token s) = (r, current)"
    by (cases "token_cache_get getTime TOKEN_RENEWAL_LEAD_MS now request (ss_token s)")
  obtain c cs where cs: "cursor_get key a (ss_cursors s) = (c, cs)" by (cases "cursor_get key a (ss_cursors s)")
  have safe: "\<forall>n < cursor_bound key (ss_cursors s). \<forall>e \<in> set evs. event_number e = n \<longrightarrow> e \<in> known"
    using inv by (simp add: session_inv_defs)
  have known: "e \<in> known" if "e \<in> set evs" "c = Some k" "event_number e \<le> parse_dec k" for e k
    using cursors.read_safe [OF safe _ that(3)] cs that(1,2) by simp
  have top: "decimal_pattern k \<and> Suc (parse_dec k) \<le> log_top evs" if "c = Some k" for k
    using cursors.get_decimal [of key a "ss_cursors s" k cs] cursors.read_below [of key a "ss_cursors s" k cs] cs that inv
    by (simp add: session_inv_defs)
  show ?thesis
  proof (cases r)
    case (Inl e)
    then show ?thesis using True g inv idle by (simp add: token_settles_def session_inv_loop)
  next
    case (Inr token)
    then show ?thesis using True g cs inv cursors.get_bound [OF cs] known top idle
      by (auto simp: token_settles_def session_inv_defs covered_def [abs_def])
  qed
qed

lemma not_pending:
  "Admission_pending \<notin> set (butlast xs) \<Longrightarrow> last xs \<noteq> Admission_pending \<Longrightarrow> xs \<noteq> [] \<Longrightarrow> Admission_pending \<notin> set xs"
  by (cases xs rule: rev_cases) auto

lemma session_inv_connect:
  assumes inv: "session_inv key s evs known pos base"
    and c: "ss_phase s = Streaming c" "\<not> cn_connected c" "\<not> cn_aborted c"
  shows "session_inv key (stream_connected s) evs known
    (case cn_cursor c of Some k \<Rightarrow> Suc (parse_dec k) | None \<Rightarrow> log_top evs)
    (case cn_cursor c of Some k \<Rightarrow> base | None \<Rightarrow> log_top evs)"
proof (cases "cn_cursor c")
  case (Some k)
  then show ?thesis using inv c
    by (auto simp: stream_connected_def session_inv_defs covered_def [abs_def] less_Suc_eq_le)
next
  case None
  have idle: "last (ss_admissions s) \<noteq> Admission_pending" using inv c by (auto simp: session_inv_defs)
  let ?t = "s\<lparr>ss_admissions := ss_admissions s @ [Admission_pending]\<rparr>"
  have adms: "ss_admissions s \<noteq> []" "Admission_pending \<notin> set (ss_admissions s)" "ss_runAdmission s < length (ss_admissions s)"
    using inv not_pending [OF _ idle] by (simp_all add: session_inv_def admissions_inv_def)
  then have adm: "admissions_inv ?t" by (simp add: admissions_inv_def)
  have run: "ss_admissions ?t ! ss_runAdmission ?t = ss_admissions s ! ss_runAdmission s"
    using adms by (simp add: nth_append)
  have np: "ss_admissions s ! ss_runAdmission s \<noteq> Admission_pending" using adms nth_mem by metis
  have ok: "log_ok evs" and cursors: "cursors_inv key s evs known" and batches: "batches_inv s evs known base"
    and phase: "phase_inv s evs known pos base"
    using inv by (simp_all add: session_inv_def cursors_inv_def)
  have cov: "covered ?t known (log_top evs) e" if "e \<in> set evs" for e
    using event_below_top [OF ok that] by (simp add: covered_def)
  have "batches_inv ?t evs known (log_top evs)"
    using batches run np cov unfolding batches_inv_def by (simp add: downwards_def)
  moreover have "phase_inv (stream_connected s) evs known (log_top evs) (log_top evs)"
    using phase c None cov by (auto simp: phase_inv_def stream_connected_def covered_def [abs_def])
  ultimately show ?thesis using cursors adm c None
    by (simp add: session_inv_def stream_connected_def cursors_inv_def admissions_inv_def batches_inv_def
        covered_def [abs_def])
qed

lemma session_inv_deliver:
  assumes inv: "session_inv key s evs known pos base"
    and c: "ss_phase s = Streaming c" "cn_connected c" "\<not> cn_aborted c"
    and e: "e \<in> set evs" "\<forall>z \<in> set evs. pos \<le> event_number z \<longrightarrow> event_number e \<le> event_number z"
  shows "session_inv key (enqueueInvalidation e s) evs known (Suc (event_number e)) base"
proof -
  let ?b = "ss_batcher s" let ?b' = "fst (batch_enqueue INVALIDATION_BATCH_MS e ?b)"
  have b: "batch_inv ?b" "\<not> bt_disposed ?b" and ok: "log_ok evs" and sub: "held ?b \<subseteq> set evs"
    using inv c by (auto simp: session_inv_defs)
  have w: "running ?b' = running ?b" "held ?b' = insert e (held ?b)"
    using batch_enqueue_work [OF b, of INVALIDATION_BATCH_MS e] event_same_id [OF ok e(1)] sub
    by (auto simp: work_def held_def split: if_splits)
  have cov: "covered s known base z" if "z \<in> set evs" "event_number z < pos" for z
    using inv c that by (auto simp: session_inv_defs)
  have cov': "covered (enqueueInvalidation e s) known base z" if "z \<in> set evs" "event_number z \<le> event_number e" for z
  proof (cases "event_number z < pos")
    case True
    then show ?thesis using cov that by (auto simp: covered_def enqueueInvalidation_def w)
  next
    case False
    then have "event_number z = event_number e" using e(2) that by (meson le_antisym not_le)
    moreover have "inj_on event_number (set evs)"
      using ok strict_sorted_iff [of "map event_number evs"] by (simp add: log_ok_def distinct_map)
    ultimately have "z = e" using that e(1) by (auto dest: inj_onD)
    then show ?thesis by (simp add: covered_def enqueueInvalidation_def w)
  qed
  have mono: "covered (enqueueInvalidation e s) known base z" if "covered s known base z" for z
    using that by (auto simp: covered_def enqueueInvalidation_def w)
  have d: "bt_disposed ?b' \<longleftrightarrow> bt_disposed ?b" using batch_step_disposed [of INVALIDATION_BATCH_MS "Enqueue e" ?b] by simp
  have "Suc (event_number e) \<le> log_top evs" using event_below_top [OF ok e(1)] by simp
  then have phase: "phase_inv (enqueueInvalidation e s) evs known (Suc (event_number e)) base"
    using inv c d cov' by (auto simp: session_inv_def phase_inv_def enqueueInvalidation_def less_Suc_eq_le)
  have "downwards evs (held ?b') (covered (enqueueInvalidation e s) known base)"
    using inv cov' mono unfolding w session_inv_def batches_inv_def downwards_def by blast
  then have "batches_inv (enqueueInvalidation e s) evs known base"
    using inv e(1) batch_inv_enqueue [OF b(1)]
    by (simp add: session_inv_def batches_inv_def w enqueueInvalidation_def)
  with phase show ?thesis using inv
    by (simp add: session_inv_def cursors_inv_def admissions_inv_def enqueueInvalidation_def)
qed

lemma session_inv_phase:
  assumes "session_inv key s evs known pos base" "ss_phase s = Streaming c"
    "cn_cursor c' = cn_cursor c" "cn_connected c' = cn_connected c" "cn_admission c' = cn_admission c"
  shows "session_inv key (s\<lparr>ss_phase := Streaming c'\<rparr>) evs known pos base"
  using assms by (auto simp: session_inv_defs covered_def [abs_def])

lemma session_inv_renewal:
  assumes "session_inv key s evs known pos base"
  shows "session_inv key (renewal_fires s) evs known pos base"
proof (cases "ss_phase s")
  case (Streaming c)
  have "renewal_fires s = (s\<lparr>ss_phase := Streaming (c\<lparr>cn_renewing := True, cn_aborted := True\<rparr>)\<rparr>)\<lparr>ss_token := token_cache_clear (ss_token s)\<rparr>"
    using Streaming by (simp add: renewal_fires_def)
  then show ?thesis using session_inv_phase [OF assms Streaming] by simp
next
  case (Stream_over c result)
  then show ?thesis using assms by (auto simp: renewal_fires_def session_inv_defs covered_def [abs_def])
qed (use assms in \<open>simp_all add: renewal_fires_def\<close>)

text \<open>A reconciliation that succeeds makes all events below \<open>base\<close> known; one that fails leaves them uncovered for good.\<close>

lemma session_inv_verdict:
  assumes inv: "session_inv key s evs known pos base" and pending: "last (ss_admissions s) = Admission_pending"
    and v: "v \<noteq> Admission_pending"
  defines "known' \<equiv> known \<union> (if v = Admission_ok then {e \<in> set evs. event_number e < base} else {})"
  shows "session_inv key (s\<lparr>ss_admissions := butlast (ss_admissions s) @ [v]\<rparr>) evs known' pos base"
proof -
  let ?t = "s\<lparr>ss_admissions := butlast (ss_admissions s) @ [v]\<rparr>"
  have adms: "ss_admissions s \<noteq> []" "ss_runAdmission s < length (ss_admissions s)" "Admission_pending \<notin> set (butlast (ss_admissions s))"
    using inv by (simp_all add: session_inv_defs)
  have run: "(butlast (ss_admissions s) @ [v]) ! ss_runAdmission s =
      (if ss_admissions s ! ss_runAdmission s = Admission_pending then v else ss_admissions s ! ss_runAdmission s)"
  proof (cases "ss_runAdmission s = length (ss_admissions s) - 1")
    case True
    then show ?thesis using adms(1) pending by (simp add: last_conv_nth nth_append)
  next
    case False
    then have i: "ss_runAdmission s < length (butlast (ss_admissions s))" using adms by simp
    then have "ss_admissions s ! ss_runAdmission s \<noteq> Admission_pending" using adms(3) nth_mem nth_butlast by metis
    with i show ?thesis by (simp add: nth_append nth_butlast)
  qed
  have sub: "known \<subseteq> known'" by (simp add: known'_def)
  have cov: "covered ?t known' base e" if "e \<in> set evs" "covered s known base e" for e
    using that v by (auto simp: covered_def known'_def)
  have "downwards evs (held (ss_batcher s)) (covered ?t known' base)"
    using inv cov unfolding session_inv_def batches_inv_def by (blast intro: downwards_mono)
  moreover have "downwards evs (set (running (ss_batcher s))) (\<lambda>e. e \<in> known' \<or> e \<in> set (running (ss_batcher s)))"
    if "(butlast (ss_admissions s) @ [v]) ! ss_runAdmission s \<noteq> Admission_failed"
  proof (cases "ss_admissions s ! ss_runAdmission s = Admission_pending")
    case True
    then have "v = Admission_ok" using that v run by (cases v) simp_all
    then show ?thesis using inv True by (auto simp: session_inv_def batches_inv_def downwards_def known'_def)
  next
    case False
    then show ?thesis using inv that run by (auto simp: session_inv_def batches_inv_def downwards_def known'_def)
  qed
  moreover have "(butlast (ss_admissions s) @ [v]) ! ss_runAdmission s \<noteq> Admission_pending" using run v by simp
  ultimately have "batches_inv ?t evs known' base"
    using inv by (simp add: session_inv_def batches_inv_def)
  moreover have "phase_inv ?t evs known' pos base"
    using inv v unfolding session_inv_def phase_inv_def by (auto intro: cov subsetD [OF sub])
  moreover have "cursors_inv key ?t evs known'"
    using inv by (auto simp: session_inv_def cursors_inv_def intro: subsetD [OF sub])
  moreover have "admissions_inv ?t" using adms by (simp add: admissions_inv_def)
  ultimately show ?thesis by (simp add: session_inv_def)
qed

lemma session_inv_admission:
  assumes inv: "session_inv key s evs known pos base"
  shows "session_inv key (admission_settles key a ok s) evs
    (known \<union> reflected (Admission_settles a ok) s evs base) pos base"
proof (cases "last (ss_admissions s) = Admission_pending")
  case False
  then show ?thesis using inv by (cases ok) (simp_all add: admission_settles_def reflected_def)
next
  case True
  let ?v = "if ok then Admission_ok else Admission_failed"
  let ?t = "s\<lparr>ss_admissions := butlast (ss_admissions s) @ [?v]\<rparr>"
  let ?known = "known \<union> reflected (Admission_settles a ok) s evs base"
  have t: "session_inv key ?t evs ?known pos base"
    using session_inv_verdict [OF inv True, of ?v] True by (cases ok) (simp_all add: reflected_def)
  show ?thesis
  proof (cases "ss_phase s")
    case (Streaming c)
    then have p: "ss_phase ?t = Streaming c" by simp
    have "admission_settles key a ok s =
        (if ok then if \<not> cn_aborted c \<and> \<not> ss_aborted s
           then (?t\<lparr>ss_phase := Streaming (c\<lparr>cn_admitted := True\<rparr>)\<rparr>)\<lparr>ss_attempt := 0, ss_state := Connected\<rparr> else ?t
         else ?t\<lparr>ss_phase := Streaming (c\<lparr>cn_aborted := True\<rparr>)\<rparr>)"
      using True Streaming by (simp add: admission_settles_def Let_def)
    then show ?thesis using t session_inv_phase [OF t p, of "c\<lparr>cn_admitted := True\<rparr>"]
        session_inv_phase [OF t p, of "c\<lparr>cn_aborted := True\<rparr>"]
      by (cases ok; cases "cn_aborted c \<or> ss_aborted s") simp_all
  next
    case (Stream_over c result)
    then show ?thesis using True session_inv_over [OF t] by (simp add: admission_settles_def Let_def)
  qed (use True t in \<open>simp_all add: admission_settles_def Let_def\<close>)
qed

lemma held_work: "held b = set (fst (work b)) \<union> set (snd (work b))"
  by (simp add: held_def work_def)

lemma session_inv_batcher:
  assumes "session_inv key s evs known pos base" "batch_inv b" "running b = running (ss_batcher s)"
    "held b = held (ss_batcher s)" "bt_disposed b = bt_disposed (ss_batcher s)"
  shows "session_inv key (s\<lparr>ss_batcher := b\<rparr>) evs known pos base"
  using assms by (simp add: session_inv_defs covered_def [abs_def])

lemma session_inv_timer:
  assumes inv: "session_inv key s evs known pos base"
  shows "session_inv key (batch_timer s) evs known pos base"
proof (cases "bt_timer (ss_batcher s) \<and> \<not> bt_flushing (ss_batcher s) \<and> bt_pending (ss_batcher s) \<noteq> []")
  case False
  let ?b = "ss_batcher s"
  show ?thesis
  proof (cases "bt_timer ?b")
    case True
    have "batch_timer s = s\<lparr>ss_batcher := ?b\<lparr>bt_timer := False\<rparr>\<rparr>"
      using True False by (auto simp: batch_timer_def timer_fires_eq flushNow_def Let_def)
    moreover have "batch_inv (?b\<lparr>bt_timer := False\<rparr>)"
      using True False inv by (auto simp: session_inv_defs batch_inv_def)
    ultimately show ?thesis using session_inv_batcher [OF inv, of "?b\<lparr>bt_timer := False\<rparr>"] by (simp add: held_def)
  next
    case False
    then have "batch_timer s = s" by (simp add: batch_timer_def timer_fires_def)
    then show ?thesis using inv by simp
  qed
next
  case True
  let ?b = "ss_batcher s" let ?b' = "fst (flushNow ?b)" let ?t = "batch_timer s"
  have b: "batch_inv ?b" and adms: "ss_admissions s \<noteq> []" using inv by (simp_all add: session_inv_defs)
  then have "bt_run ?b = None" using True by (auto simp: batch_inv_def)
  then have h: "held ?b = set (jm_values (bt_pending ?b))" by (simp add: held_def)
  have t: "?t = s\<lparr>ss_batcher := ?b', ss_runAdmission := length (ss_admissions s) - 1\<rparr>"
    using True by (simp add: batch_timer_def timer_fires_eq flushNow_def Let_def)
  have w: "running ?b' = jm_values (bt_pending ?b)" "held ?b' = held ?b"
    using flushNow_work [OF b] True h by (auto simp: work_def held_def)
  have cov: "covered ?t known base = covered s known base" by (simp add: covered_def [abs_def] t w)
  have last: "ss_admissions s ! (length (ss_admissions s) - Suc 0) = last (ss_admissions s)"
    using adms by (simp add: last_conv_nth)
  have "downwards evs (held ?b) (covered s known base)" using inv by (simp add: session_inv_def batches_inv_def)
  then have "downwards evs (set (running ?b'))
      (\<lambda>e. e \<in> known \<or> e \<in> set (running ?b') \<or> last (ss_admissions s) = Admission_pending \<and> event_number e < base)"
    if "last (ss_admissions s) \<noteq> Admission_failed"
    using that unfolding w(1) h downwards_def covered_def
    by (cases "last (ss_admissions s)") simp_all
  then have "batches_inv ?t evs known base"
    using inv batch_inv_flushNow [OF b] cov w(2)
    by (simp add: session_inv_def batches_inv_def t last)
  moreover have "bt_disposed ?b' = bt_disposed ?b" using batch_step_disposed [of 0 Flush_now ?b] by simp
  then have "phase_inv ?t evs known pos base" using inv cov by (simp add: session_inv_def phase_inv_def t)
  ultimately show ?thesis using inv adms by (simp add: session_inv_def cursors_inv_def admissions_inv_def t)
qed

lemma highest_event_in:
  assumes "es \<noteq> []"
  shows "\<exists>x \<in> set es. highest_event_id es = ev_eventId x"
proof -
  have "fold (\<lambda>event highest. if parse_dec (ev_eventId event) > parse_dec highest then ev_eventId event else highest) xs h
      \<in> insert h (ev_eventId ` set xs)" for xs :: "invalidation list" and h
  proof (induction xs arbitrary: h)
    case (Cons x xs)
    from Cons.IH [of h] Cons.IH [of "ev_eventId x"] show ?case by auto
  qed simp
  from this [of es "ev_eventId (hd es)"] show ?thesis using assms
    by (cases es) (auto simp: highest_event_id_def)
qed

lemma flush_settle_acknowledges:
  assumes "batch_inv b"
  shows "acks (snd (flush_settle d ok b)) = (if ok \<and> running b \<noteq> [] then [highest_event_id (running b)] else [])"
proof -
  have "acks (snd (batch_schedule n t)) = []" for n t by (simp add: batch_schedule_def)
  moreover have "batch \<noteq> []" if "bt_run b = Some (batch, e)" for batch e using assms that by (simp add: batch_inv_def)
  ultimately show ?thesis
    by (cases "bt_run b") (auto simp: flush_settle_def running_def Let_def case_prod_beta)
qed

lemma flush_settle_held:
  assumes "batch_inv b"
  shows "running (fst (flush_settle d ok b)) = []"
    "held (fst (flush_settle d ok b)) \<union> (if ok then set (running b) else {}) = held b"
proof -
  have "fst (work (fst (flush_settle d ok b))) = []" by (simp add: flush_settle_work [OF assms])
  then show "running (fst (flush_settle d ok b)) = []" by (simp add: work_def)
  show "held (fst (flush_settle d ok b)) \<union> (if ok then set (running b) else {}) = held b"
    unfolding held_work flush_settle_work [OF assms] by (auto simp: work_def)
qed

lemma session_inv_settles:
  assumes inv: "session_inv key s evs known pos base"
  shows "session_inv key (batch_settles key a ok s) evs (known \<union> reflected (Batch_settles a ok) s evs base) pos base"
proof (cases "ss_admissions s ! ss_runAdmission s = Admission_pending")
  case True
  then show ?thesis using inv by (cases ok) (simp_all add: batch_settles_def reflected_def)
next
  case False
  let ?b = "ss_batcher s" let ?ok = "ok \<and> ss_admissions s ! ss_runAdmission s = Admission_ok"
  let ?b' = "fst (flush_settle INVALIDATION_BATCH_MS ?ok ?b)"
  let ?known = "known \<union> (if ?ok then set (running ?b) else {})"
  have b: "batch_inv ?b" and ok: "log_ok evs" and sub: "set (running ?b) \<subseteq> set evs"
    using inv by (auto simp: session_inv_defs held_def)
  define cs where "cs = ss_cursors (batch_settles key a ok s)"
  have cur: "cs = (if ?ok \<and> running ?b \<noteq> []
      then cursor_acknowledge key a (highest_event_id (running ?b)) (ss_cursors s) else ss_cursors s)"
    using False by (simp add: cs_def batch_settles_def Let_def flush_settle_acknowledges [OF b])
  have t: "batch_settles key a ok s = s\<lparr>ss_batcher := ?b', ss_cursors := cs\<rparr>"
    using False by (simp add: cs_def batch_settles_def Let_def)
  have w: "running ?b' = []" "held ?b' \<union> (if ?ok then set (running ?b) else {}) = held ?b"
    by (rule flush_settle_held [OF b])+
  have cov: "covered (batch_settles key a ok s) ?known base = covered s known base"
    using w(2) unfolding t covered_def [abs_def] by (auto simp: fun_eq_iff split: if_splits)
  have "held ?b' \<subseteq> held ?b" using w(2) by blast
  then have "batches_inv (batch_settles key a ok s) evs ?known base"
    using inv batch_inv_settle [OF b] w(1) cov unfolding t
    by (auto simp: session_inv_def batches_inv_def downwards_def)
  moreover have "bt_disposed ?b' = bt_disposed ?b"
    using batch_step_disposed [of INVALIDATION_BATCH_MS "Settle ?ok" ?b] by simp
  then have "phase_inv (batch_settles key a ok s) evs ?known pos base"
    using inv cov unfolding t session_inv_def phase_inv_def by auto
  moreover have "cursors_inv key (batch_settles key a ok s) evs ?known"
  proof (cases "?ok \<and> running ?b \<noteq> []")
    case False
    then have "cs = ss_cursors s" unfolding cur by (rule if_not_P)
    then show ?thesis using inv unfolding t by (auto simp: cursors_inv_def session_inv_def)
  next
    case True
    then obtain x where x: "x \<in> set (running ?b)" "highest_event_id (running ?b) = ev_eventId x"
      using highest_event_in by blast
    then have "x \<in> set evs" using sub by blast
    have cs: "cs = cursor_acknowledge key a (ev_eventId x) (ss_cursors s)" using cur True x by simp
    have below: "\<forall>n \<le> event_number x. \<forall>e \<in> set evs. event_number e = n \<longrightarrow> e \<in> ?known"
      using inv True x(1) by (auto simp: session_inv_def batches_inv_def downwards_def)
    have safe: "\<forall>n < cursor_bound key (ss_cursors s). \<forall>e \<in> set evs. event_number e = n \<longrightarrow> e \<in> ?known"
      using inv by (simp add: session_inv_defs)
    have "cursor_rank (Some (ev_eventId x)) \<le> log_top evs"
      using event_below_top [OF ok \<open>x \<in> set evs\<close>] by (simp add: cursor_rank_def)
    moreover have "cursor_bound key (ss_cursors s) \<le> log_top evs" using inv by (simp add: session_inv_defs)
    ultimately have "cursor_bound key cs \<le> log_top evs"
      unfolding cs by (intro order_trans [OF cursors.acknowledge_bound]) simp
    then show ?thesis using ok cursors.acknowledge_safe [OF safe below] unfolding t cs by (simp add: cursors_inv_def)
  qed
  moreover have "admissions_inv (batch_settles key a ok s)" using inv unfolding t by (simp add: session_inv_defs)
  moreover have "reflected (Batch_settles a ok) s evs base = (if ?ok then set (running ?b) else {})"
    by (cases ok) (simp_all add: reflected_def)
  ultimately show ?thesis by (simp add: session_inv_def)
qed

text \<open>After the component is unmounted nothing is acknowledged any more.\<close>

definition closed_inv :: "string \<Rightarrow> session \<Rightarrow> invalidation list \<Rightarrow> invalidation set \<Rightarrow> bool" where
  "closed_inv key s evs known \<longleftrightarrow>
     cursors_inv key s evs known \<and> ss_aborted s \<and> batch_inv (ss_batcher s) \<and> bt_disposed (ss_batcher s) \<and>
     \<not> bt_timer (ss_batcher s) \<and> running (ss_batcher s) = [] \<and> (\<forall>c. ss_phase s = Streaming c \<longrightarrow> cn_aborted c)"

lemma closed_inv_update [simp]:
  "closed_inv key (s\<lparr>ss_token := t\<rparr>) evs known = closed_inv key s evs known"
  "closed_inv key (s\<lparr>ss_attempt := n\<rparr>) evs known = closed_inv key s evs known"
  "closed_inv key (s\<lparr>ss_admissions := as\<rparr>) evs known = closed_inv key s evs known"
  by (simp_all add: closed_inv_def cursors_inv_def)

lemma closed_inv_unmount:
  assumes "cursors_inv key s evs known" "batch_inv (ss_batcher s)"
  shows "closed_inv key (session_unmount s) evs known"
proof -
  have "running (fst (batch_dispose (ss_batcher s))) = []"
    using assms(2) by (auto simp: batch_dispose_def running_def batch_inv_def split: option.splits)
  then show ?thesis using assms batch_inv_step [OF assms(2), of 0 Dispose]
    by (auto simp: closed_inv_def session_unmount_def cursors_inv_def batch_dispose_def split: lifecycle_phase.splits)
qed

lemma cursors_inv_clear: "cursors_inv key s evs known \<Longrightarrow> cursors_inv key (clearCursor key a s) evs known"
  by (simp add: cursors_inv_def clearCursor_def cursors.clear_bound)

lemma closed_inv_exit:
  assumes "closed_inv key s evs known"
  shows "closed_inv key (loop_top s) evs known" "closed_inv key (connection_failed s) evs known"
    "closed_inv key (loop_top (clearCursor key a s)) evs known"
proof -
  show "closed_inv key (loop_top s) evs known" "closed_inv key (connection_failed s) evs known"
    using assms by (simp_all add: closed_inv_def loop_top_def connection_failed_def cursors_inv_def)
  have "batch_inv (ss_batcher s)" using assms by (simp add: closed_inv_def)
  then have "batch_inv (fst (batch_reset (ss_batcher s)))" "running (fst (batch_reset (ss_batcher s))) = []"
    using batch_inv_step [of _ 0 Reset] held_reset by (simp_all add: held_def)
  then show "closed_inv key (loop_top (clearCursor key a s)) evs known"
    using assms cursors_inv_clear [of key s evs known a]
    by (simp add: closed_inv_def loop_top_def clearCursor_def cursors_inv_def batch_reset_def)
qed

lemma closed_inv_over:
  assumes "closed_inv key s evs known"
  shows "closed_inv key (connection_over key a c result s) evs known"
  using assms by (auto simp: connection_over_def intro: closed_inv_exit split: stream_outcome.splits stream_result.splits)

lemma closed_inv_batches:
  assumes "closed_inv key s evs known"
  shows "closed_inv key (batch_timer s) evs known" "closed_inv key (batch_settles key a ok s) evs known"
proof -
  let ?b = "ss_batcher s"
  have b: "batch_inv ?b" "running ?b = []" "bt_disposed ?b" "\<not> bt_timer ?b" using assms by (simp_all add: closed_inv_def)
  show "closed_inv key (batch_timer s) evs known" using assms b by (simp add: batch_timer_def timer_fires_def)
  have "\<not> bt_timer (fst (flush_settle INVALIDATION_BATCH_MS r ?b))" for r
    using b by (cases "bt_run ?b") (auto simp: flush_settle_def Let_def case_prod_beta)
  then show "closed_inv key (batch_settles key a ok s) evs known"
    using assms b flush_settle_held(1) [OF b(1)] batch_inv_settle [OF b(1)] flush_settle_acknowledges [OF b(1)]
      batch_step_disposed [of INVALIDATION_BATCH_MS "Settle r" ?b for r]
    by (simp add: batch_settles_def Let_def closed_inv_def cursors_inv_def)
qed

lemma closed_inv_step:
  assumes inv: "closed_inv key s evs known" and "\<forall>e. x \<noteq> Stream_delivers e" "x \<noteq> Stream_connected"
  shows "closed_inv key (session_step getTime key x s) evs known"
proof (cases x)
  case (Token_settles a now request)
  have "closed_inv key (token_settles getTime key a now request s) evs known"
    using closed_inv_exit(2) [of key "s\<lparr>ss_token := t\<rparr>" evs known for t] inv
    by (auto simp: token_settles_def split: prod.splits sum.splits) (simp_all add: closed_inv_def cursors_inv_def)
  then show ?thesis by (simp add: Token_settles)
next
  case (Stream_ends a result)
  then show ?thesis using inv closed_inv_over [OF inv]
    by (auto simp: stream_ends_def closed_inv_def split: lifecycle_phase.splits)
next
  case (Admission_settles a ok)
  have "closed_inv key (s\<lparr>ss_admissions := as\<rparr>) evs known" for as using inv by simp
  from closed_inv_over [OF this] inv show ?thesis
    by (auto simp: Admission_settles admission_settles_def Let_def split: lifecycle_phase.splits)
      (simp_all add: closed_inv_def cursors_inv_def)
next
  case Renewal_fires
  then show ?thesis using inv by (auto simp: renewal_fires_def closed_inv_def cursors_inv_def split: lifecycle_phase.splits)
next
  case Reconnect_due
  then show ?thesis using inv closed_inv_exit(1) [OF inv] by (simp add: reconnect_due_def)
next
  case Unmount
  have "cursors_inv key s evs known" "batch_inv (ss_batcher s)" using inv by (simp_all add: closed_inv_def)
  then show ?thesis by (simp add: Unmount closed_inv_unmount)
qed (use assms closed_inv_batches [OF inv] in simp_all)

lemma closed_inv_mono: "closed_inv key s evs known \<Longrightarrow> known \<subseteq> known' \<Longrightarrow> closed_inv key s evs known'"
  by (auto simp: closed_inv_def cursors_inv_def)

lemma session_inv_step:
  assumes inv: "session_inv key s evs known pos base" and "\<forall>e. x \<noteq> Stream_delivers e" "x \<noteq> Stream_connected" "x \<noteq> Unmount"
  shows "session_inv key (session_step getTime key x s) evs (known \<union> reflected x s evs base) pos base"
proof (cases x)
  case Reconnect_due
  have "last (ss_admissions s) \<noteq> Admission_pending" if "ss_phase s = Reconnect_wait"
    using that inv by (auto simp: session_inv_defs)
  then show ?thesis using Reconnect_due inv session_inv_loop(1) [OF inv]
    by (simp add: reconnect_due_def reflected_def)
qed (use assms session_inv_token [OF inv] session_inv_ends [OF inv] session_inv_admission [OF inv]
      session_inv_renewal [OF inv] session_inv_timer [OF inv] session_inv_settles [OF inv] in
    \<open>simp_all add: reflected_def\<close>)

lemma log_top_append [simp]: "log_top (evs @ [e]) = Suc (event_number e)"
  by (simp add: log_top_def)

lemma cursors_inv_publish:
  assumes "cursors_inv key s evs known" "log_top evs \<le> event_number e" "decimal_pattern (ev_eventId e)"
  shows "cursors_inv key s (evs @ [e]) known"
  using assms event_below_top [of evs] by (fastforce simp: cursors_inv_def log_ok_def sorted_wrt_append)

lemma session_inv_publish:
  assumes inv: "session_inv key s evs known pos base" and e: "log_top evs \<le> event_number e" "decimal_pattern (ev_eventId e)"
  shows "session_inv key s (evs @ [e]) known pos base"
proof -
  have ok: "log_ok evs" and h: "held (ss_batcher s) \<subseteq> set evs" "set (running (ss_batcher s)) \<subseteq> set evs"
    using inv by (auto simp: session_inv_defs held_def)
  have "batches_inv s (evs @ [e]) known base"
    using inv h downwards_publish [OF _ ok _ e(1)] by (auto simp: session_inv_def batches_inv_def)
  moreover have "phase_inv s (evs @ [e]) known pos base"
    using inv e(1) unfolding session_inv_def phase_inv_def by fastforce
  ultimately show ?thesis using inv cursors_inv_publish [OF _ e] by (simp add: session_inv_def)
qed

lemma session_history_inv:
  "session_history getTime key s evs known pos base \<Longrightarrow>
   session_inv key s evs known pos base \<or> closed_inv key s evs known"
proof (induction rule: session_history.induct)
  case (session_start evs cursors known enabled)
  have "held new_batcher = {}" "running new_batcher = []" "\<not> bt_disposed new_batcher"
    by (simp_all add: held_def new_batcher_def)
  then have "session_inv key (session_mount enabled cursors) evs known 0 0"
    using session_start batch_inv_new
    by (simp add: session_mount_def Let_def loop_top_def session_inv_defs downwards_def)
  then show ?case ..
next
  case (session_publish s evs known pos base e)
  then show ?case using session_inv_publish cursors_inv_publish unfolding closed_inv_def by blast
next
  case (session_connect s evs known pos base c)
  then have "session_inv key s evs known pos base" by (auto simp: closed_inv_def)
  from session_inv_connect [OF this] session_connect show ?case by simp
next
  case (session_deliver s evs known pos base c e)
  then have "session_inv key s evs known pos base" by (auto simp: closed_inv_def)
  from session_inv_deliver [OF this] session_deliver show ?case by simp
next
  case (session_other s evs known pos base x)
  show ?case
  proof (cases "session_inv key s evs known pos base")
    case True
    show ?thesis
    proof (cases "x = Unmount")
      case False
      then show ?thesis using session_inv_step [OF True] session_other by simp
    next
      case True
      then show ?thesis using \<open>session_inv key s evs known pos base\<close> closed_inv_unmount
        by (simp add: session_inv_def batches_inv_def reflected_def)
    qed
  next
    case False
    then show ?thesis using session_other closed_inv_step closed_inv_mono Un_upper1 by blast
  qed
qed

text \<open>What the invariant says of an event the user does not see yet.\<close>

lemma unseen_after_cursor:
  assumes "session_history getTime key s evs known pos base" "e \<in> set evs" "e \<notin> known"
    "fst (cursor_get key a (ss_cursors s)) = Some k"
  shows "parse_dec k < event_number e"
proof -
  have inv: "cursors_inv key s evs known"
    using session_history_inv [OF assms(1)] by (auto simp: session_inv_def closed_inv_def)
  obtain cs where g: "cursor_get key a (ss_cursors s) = (Some k, cs)"
    using assms(4) by (cases "cursor_get key a (ss_cursors s)") simp
  have "Suc (parse_dec k) \<le> cursor_bound key (ss_cursors s)" by (rule cursors.read_below [OF g])
  moreover have "cursor_bound key (ss_cursors s) \<le> event_number e"
    using inv assms(2,3) by (auto simp: cursors_inv_def not_less [symmetric])
  ultimately show ?thesis by simp
qed

lemma unseen_delivered_held:
  assumes "session_history getTime key s evs known pos base" "e \<in> set evs" "e \<notin> known"
    "ss_phase s = Streaming c" "cn_connected c" "\<not> cn_aborted c" "last (ss_admissions s) = Admission_ok"
    "event_number e < pos"
  shows "e \<in> held (ss_batcher s)"
  using session_history_inv [OF assms(1)] assms(2-)
  by (auto simp: session_inv_def phase_inv_def closed_inv_def covered_def)

end
