(* ===== verification/Session_Reconnect.thy ===== *)
theory Session_Reconnect
  imports Session_Delivery
begin

text \<open>
  A session run step by step: an ordinary one, and one whose second reconciliation is rejected, after
  which no batch is ever accepted.
\<close>

section \<open>An example\<close>

definition plain_event :: "string \<Rightarrow> invalidation" where
  "plain_event n =
     \<lparr>ev_eventId = n, ev_eventType = ''earn.position.changed'', ev_occurredAt = [], ev_scope = [], ev_state = None,
      ev_reason = None, ev_targetId = None, ev_scheduledSlotId = None, ev_executionId = None, ev_failureCode = None,
      ev_unsupportedState = False\<rparr>"

definition no_cursors :: cursor_state where
  "no_cursors = \<lparr>cu_memory = [], cu_tombstones = [], cu_items = []\<rparr>"

definition fresh_token :: session_op where
  "fresh_token = Token_settles working_storage 0 (Inr \<lparr>tk_accessToken = ''t'', tk_eventsUrl = ''u'', tk_expiresAt = ''x''\<rparr>)"

lemma session_run_snoc: "session_run getTime key (xs @ [x]) s = session_step getTime key x (session_run getTime key xs s)"
  by (induction xs arbitrary: s) simp_all

abbreviation example_run :: "session_op list \<Rightarrow> session" where
  "example_run xs \<equiv> session_run (\<lambda>_. None) ''k'' xs (session_mount True no_cursors)"

text \<open>Event 8 is delivered, accepted and acknowledged; event 9 is delivered and waits in the batcher.\<close>

definition example_start :: "session_op list" where
  "example_start = [fresh_token, Stream_connected, Admission_settles working_storage True, Stream_delivers (plain_event ''8''),
     Batch_timer, Batch_settles working_storage True]"

definition example_session :: session where
  "example_session = example_run (example_start @ [Stream_delivers (plain_event ''9'')])"

lemma history_run_other:
  assumes "session_history getTime key (session_run getTime key xs s) evs known pos base"
    "x \<noteq> Stream_connected" "\<forall>e. x \<noteq> Stream_delivers e" "reflected x (session_run getTime key xs s) evs base = K"
  shows "session_history getTime key (session_run getTime key (xs @ [x]) s) evs (known \<union> K) pos base"
  using session_other [OF assms(1-3)] assms(4) by (simp add: session_run_snoc)

lemma history_run_deliver:
  assumes "session_history getTime key (session_run getTime key xs s) evs known pos base"
    "case ss_phase (session_run getTime key xs s) of Streaming c \<Rightarrow> cn_connected c \<and> \<not> cn_aborted c | _ \<Rightarrow> False"
    "e \<in> set evs" "pos \<le> event_number e"
    "\<forall>z \<in> set evs. pos \<le> event_number z \<longrightarrow> event_number e \<le> event_number z"
  shows "session_history getTime key (session_run getTime key (xs @ [Stream_delivers e]) s) evs known (Suc (event_number e)) base"
  using session_deliver [OF assms(1) _ _ _ assms(3-5)] assms(2)
  by (auto simp: session_run_snoc split: lifecycle_phase.splits)

lemma history_run_connect:
  assumes "session_history getTime key (session_run getTime key xs s) evs known pos base"
    "case ss_phase (session_run getTime key xs s) of
       Streaming c \<Rightarrow> \<not> cn_connected c \<and> \<not> cn_aborted c \<and> cn_cursor c = None | _ \<Rightarrow> False"
  shows "session_history getTime key (session_run getTime key (xs @ [Stream_connected]) s) evs known (log_top evs) (log_top evs)"
proof -
  obtain c where c: "ss_phase (session_run getTime key xs s) = Streaming c" "\<not> cn_connected c" "\<not> cn_aborted c" "cn_cursor c = None"
    using assms(2) by (auto split: lifecycle_phase.splits)
  from session_connect [OF assms(1) c(1-3)] c(4) show ?thesis by (simp add: session_run_snoc)
qed

lemma example_session_history:
  "session_history (\<lambda>_. None) ''k'' example_session [plain_event ''8'', plain_event ''9''] {plain_event ''8''} 10 0"
proof -
  let ?H = "\<lambda>xs. session_history (\<lambda>_. None) ''k'' (example_run xs)"
  let ?e8 = "plain_event ''8''" let ?e9 = "plain_event ''9''"
  let ?A = "Admission_settles working_storage True" let ?B = "Batch_settles working_storage True"
  have n: "event_number ?e8 = 8" "event_number ?e9 = 9" "decimal_pattern (ev_eventId ?e8)" "decimal_pattern (ev_eventId ?e9)"
    by code_simp+
  have "?H [] [] {} 0 0"
    using session_start [of "[]" "''k''" no_cursors "{}" "\<lambda>_. None" True]
    by (simp add: log_ok_def cursor_bound_def no_cursors_def cursor_rank_def isCursor_def)
  from history_run_other [OF this, of fresh_token "{}"] have "?H [fresh_token] [] {} 0 0"
    by (simp add: fresh_token_def reflected_def)
  then have "?H ([fresh_token] @ [Stream_connected]) [] {} (log_top []) (log_top [])"
    by (rule history_run_connect) code_simp
  then have "?H [fresh_token, Stream_connected] [] {} 0 0" by (simp add: log_top_def)
  from history_run_other [OF this, of ?A "{}"] have "?H [fresh_token, Stream_connected, ?A] [] {} 0 0"
    by (simp add: reflected_def)
  then have "?H [fresh_token, Stream_connected, ?A] [?e8] {} 0 0"
    using session_publish [where evs = "[]" and e = ?e8] n by (simp add: log_top_def)
  then have "?H ([fresh_token, Stream_connected, ?A] @ [Stream_delivers ?e8]) [?e8] {} (Suc (event_number ?e8)) 0"
    by (rule history_run_deliver) (code_simp, simp_all)
  then have "?H [fresh_token, Stream_connected, ?A, Stream_delivers ?e8] [?e8] {} 9 0" by (simp add: n)
  from history_run_other [OF this, of Batch_timer "{}"]
  have b: "?H [fresh_token, Stream_connected, ?A, Stream_delivers ?e8, Batch_timer] [?e8] {} 9 0"
    by (simp add: reflected_def)
  have "?H ([fresh_token, Stream_connected, ?A, Stream_delivers ?e8, Batch_timer] @ [?B]) [?e8] ({} \<union> {?e8}) 9 0"
    by (rule history_run_other [OF b]) (simp, simp, code_simp)
  then have "?H example_start [?e8, ?e9] {?e8} 9 0"
    using session_publish [where evs = "[?e8]" and e = ?e9] n by (simp add: example_start_def log_top_def)
  then have "?H (example_start @ [Stream_delivers ?e9]) [?e8, ?e9] {?e8} (Suc (event_number ?e9)) 0"
    by (rule history_run_deliver) (code_simp, simp_all add: n)
  then show ?thesis by (simp add: n example_session_def)
qed

section \<open>A rejected reconciliation\<close>

text \<open>
  The hook's \<open>admissionPromise\<close> is replaced only when a connection without a cursor starts a new
  reconciliation.  When one is rejected while a cursor exists, because a batch of the connection before
  was acknowledged meanwhile, later connections resume from that cursor and never replace it: every
  batch is rejected and nothing is acknowledged until the server asks for a resync.
\<close>

definition stuck_at :: "string \<Rightarrow> nat \<Rightarrow> session \<Rightarrow> bool" where
  "stuck_at key n s \<longleftrightarrow>
     ss_admissions s \<noteq> [] \<and> last (ss_admissions s) = Admission_failed \<and>
     (bt_run (ss_batcher s) \<noteq> None \<longrightarrow> ss_admissions s ! ss_runAdmission s = Admission_failed) \<and>
     cursor_bound key (ss_cursors s) = Suc n \<and> cursor_rank (jm_get (cu_memory (ss_cursors s)) key) = Suc n \<and>
     (\<forall>c. ss_phase s = Streaming c \<longrightarrow> cn_cursor c \<noteq> None) \<and> (\<forall>c result. ss_phase s \<noteq> Stream_over c result)"

fun asks_resync :: "session_op \<Rightarrow> bool" where
  "asks_resync (Stream_ends a (Ended (Resync reason))) = True"
| "asks_resync _ = False"

lemma stuck_at_get:
  assumes "cursor_bound key cs = Suc n" "cursor_rank (jm_get (cu_memory cs) key) = Suc n" "cursor_get key a cs = (c, cs')"
  shows "cursor_rank c = Suc n" "cursor_bound key cs' = Suc n" "cursor_rank (jm_get (cu_memory cs') key) = Suc n"
proof -
  show c: "cursor_rank c = Suc n"
    using cursor_get_rank(1) [where key = key and s = cs and a = a] cursors.get_rank [OF assms(3)] assms by simp
  have "cursor_rank (jm_get (cu_memory cs') key) \<ge> Suc n" using cursor_get_rank(2) [where key = key and s = cs and a = a] assms(3) c by simp
  moreover have "cursor_rank (jm_get (cu_memory cs') key) \<le> cursor_bound key cs'" by (simp add: cursor_bound_def)
  moreover have "cursor_bound key cs' \<le> Suc n" using cursors.get_bound [OF assms(3)] assms(1) by simp
  ultimately show "cursor_bound key cs' = Suc n" "cursor_rank (jm_get (cu_memory cs') key) = Suc n" by linarith+
qed

lemma stuck_at_loop:
  assumes "stuck_at key n s"
  shows "stuck_at key n (loop_top s)" "stuck_at key n (connection_failed s)"
  using assms by (auto simp: stuck_at_def loop_top_def connection_failed_def)

lemma stuck_at_update [simp]:
  "stuck_at key n (s\<lparr>ss_token := t\<rparr>) = stuck_at key n s" "stuck_at key n (s\<lparr>ss_attempt := m\<rparr>) = stuck_at key n s"
  by (simp_all add: stuck_at_def)

lemma stuck_at_token:
  assumes "stuck_at key n s"
  shows "stuck_at key n (token_settles getTime key a now request s)"
proof -
  obtain c cs where g: "cursor_get key a (ss_cursors s) = (c, cs)" by (cases "cursor_get key a (ss_cursors s)")
  have "cursor_rank c = Suc n" "cursor_bound key cs = Suc n" "cursor_rank (jm_get (cu_memory cs) key) = Suc n"
    using stuck_at_get [OF _ _ g] assms by (simp_all add: stuck_at_def)
  moreover from this(1) have "c \<noteq> None" by (cases c) (simp_all add: cursor_rank_def isCursor_def)
  ultimately show ?thesis
    using assms stuck_at_loop(2) [of key n "s\<lparr>ss_token := t\<rparr>" for t] unfolding token_settles_def g
    by (auto split: prod.splits sum.splits) (simp_all add: stuck_at_def)
qed

lemma stuck_at_batches:
  assumes "stuck_at key n s"
  shows "stuck_at key n (batch_timer s)" "stuck_at key n (batch_settles key a ok s)"
    "stuck_at key n (enqueueInvalidation e s)"
proof -
  let ?b = "ss_batcher s"
  show "stuck_at key n (batch_timer s)"
    using assms by (auto simp: stuck_at_def batch_timer_def timer_fires_eq flushNow_def Let_def last_conv_nth)
  show "stuck_at key n (enqueueInvalidation e s)"
    using assms by (auto simp: stuck_at_def enqueueInvalidation_def batch_enqueue_def batch_schedule_def)
  have "acks (snd (flush_settle d r ?b)) = []" if "\<not> r" for d r
    using that by (cases "bt_run ?b") (auto simp: flush_settle_def batch_schedule_def Let_def case_prod_beta)
  moreover have "acks (snd (flush_settle d r ?b)) = []" if "bt_run ?b = None" for d r
    using that by (simp add: flush_settle_def)
  moreover have "bt_run (fst (flush_settle d r ?b)) = None" for d r
    by (cases "bt_run ?b") (auto simp: flush_settle_def batch_schedule_def Let_def case_prod_beta)
  ultimately show "stuck_at key n (batch_settles key a ok s)"
    using assms by (cases "bt_run ?b") (auto simp: stuck_at_def batch_settles_def Let_def)
qed

lemma stuck_at_step:
  assumes "stuck_at key n s" "\<not> asks_resync x"
  shows "stuck_at key n (session_step getTime key x s)"
proof (cases x)
  case (Stream_ends a result)
  then have "stuck_at key n (connection_over key a c result s)" for c
    using assms stuck_at_loop
    by (auto simp: connection_over_def split: stream_outcome.splits stream_result.splits)
  then show ?thesis using assms Stream_ends by (auto simp: stream_ends_def stuck_at_def split: lifecycle_phase.splits)
next
  case Reconnect_due
  then show ?thesis using assms stuck_at_loop by (simp add: reconnect_due_def)
next
  case (Token_settles a now request)
  then show ?thesis using stuck_at_token [OF assms(1)] by simp
qed (use assms stuck_at_batches [OF assms(1)] in \<open>auto simp: stuck_at_def stream_connected_def admission_settles_def
      renewal_fires_def session_unmount_def batch_dispose_def split: lifecycle_phase.splits\<close>)

lemma stuck_at_run:
  "stuck_at key n s \<Longrightarrow> \<forall>x \<in> set xs. \<not> asks_resync x \<Longrightarrow> stuck_at key n (session_run getTime key xs s)"
  by (induction xs arbitrary: s) (simp_all add: stuck_at_step)

text \<open>
  A first connection without a cursor is reconciled and delivers event 8; the stream closes while the
  batch is in flight; the second connection finds no cursor either, then the batch is acknowledged and
  the second reconciliation fails; the third connection resumes from 8 and is shown as connected.
\<close>

definition stuck_session :: session where
  "stuck_session =
     session_run (\<lambda>_. None) ''k''
       [fresh_token, Stream_connected, Admission_settles working_storage True, Stream_delivers (plain_event ''8''),
        Batch_timer, Stream_ends working_storage (Ended Closed), Reconnect_due, fresh_token, Stream_connected,
        Batch_settles working_storage True, Admission_settles working_storage False,
        Stream_ends working_storage Abort_error, Reconnect_due, fresh_token, Stream_connected,
        Stream_delivers (plain_event ''9''), Batch_timer]
       (session_mount True no_cursors)"

lemma stuck_session_state:
  "ss_state stuck_session = Connected \<and> running (ss_batcher stuck_session) = [plain_event ''9''] \<and>
   ss_admissions stuck_session = [Admission_ok, Admission_ok, Admission_failed] \<and>
   ss_runAdmission stuck_session = 2 \<and>
   ss_cursors stuck_session = \<lparr>cu_memory = [(''k'', ''8'')], cu_tombstones = [], cu_items = [(''k'', ''8'')]\<rparr> \<and>
   (case ss_phase stuck_session of Streaming c \<Rightarrow> cn_cursor c = Some ''8'' | _ \<Rightarrow> False)"
  by code_simp

lemma stuck_session_stuck: "stuck_at ''k'' 8 stuck_session"
proof -
  have "cursor_rank (Some ''8'') = Suc 8" by code_simp
  then show ?thesis using stuck_session_state
    by (auto simp: stuck_at_def cursor_bound_def split: lifecycle_phase.splits)
qed

text \<open>
  C3.  A rejected reconciliation can block a session for good.  The session above is connected and holds
  event 9, and whatever happens next, short of a resync asked for by the server, the cursor stays at
  8: neither event 9 nor any later one is ever acknowledged.
\<close>

theorem failed_admission_blocks_batches:
  "ss_state stuck_session = Connected \<and>
   (\<forall>ops a. (\<forall>x \<in> set ops. \<not> asks_resync x) \<longrightarrow>
      (\<exists>k. fst (cursor_get ''k'' a (ss_cursors (session_run (\<lambda>_. None) ''k'' ops stuck_session))) = Some k \<and>
           parse_dec k = 8))"
proof (intro conjI allI impI)
  show "ss_state stuck_session = Connected" using stuck_session_state by blast
  fix ops a assume "\<forall>x \<in> set ops. \<not> asks_resync x"
  then have st: "stuck_at ''k'' 8 (session_run (\<lambda>_. None) ''k'' ops stuck_session)"
    by (rule stuck_at_run [OF stuck_session_stuck])
  let ?cs = "ss_cursors (session_run (\<lambda>_. None) ''k'' ops stuck_session)"
  have "cursor_rank (fst (cursor_get ''k'' a ?cs)) = Suc 8"
    using stuck_at_get(1) [of "''k''" ?cs 8 a] st by (cases "cursor_get ''k'' a ?cs") (simp add: stuck_at_def)
  then show "\<exists>k. fst (cursor_get ''k'' a ?cs) = Some k \<and> parse_dec k = 8"
    by (cases "fst (cursor_get ''k'' a ?cs)") (simp_all add: cursor_rank_def isCursor_def split: if_splits)
qed

theorem failed_admission_blocks_batches_witness:
  "\<exists>k. fst (cursor_get ''k'' working_storage (ss_cursors (session_run (\<lambda>_. None) ''k''
      [Batch_settles working_storage True, Batch_timer, Batch_settles working_storage True] stuck_session))) = Some k \<and>
    parse_dec k = 8"
proof -
  have "\<forall>x \<in> set [Batch_settles working_storage True, Batch_timer, Batch_settles working_storage True]. \<not> asks_resync x"
    by simp
  then show ?thesis using failed_admission_blocks_batches by blast
qed

end
