(* ===== verification/Resource_Coordinator.thy ===== *)
theory Resource_Coordinator
  imports Js_Values
begin

text \<open>
  The resource refresh coordinator, \<open>features/realtime-sync/resource-refresh-coordinator.ts\<close>: it runs at
  most one refresh per resource, repeats it when the resource was invalidated meanwhile, and drops
  everything when the scope changes.  The asynchronous loop of a run is cut at its \<open>await\<close>s:
  \<open>run_begins\<close> (after \<open>Promise.resolve()\<close>), \<open>refresh_settles\<close> and \<open>run_closes\<close> (the \<open>finally\<close> handler, which runs
  in a later microtask).  State objects are shared by reference, so they live in a list and the
  map \<open>states\<close> holds their positions.
\<close>

section \<open>State and operations\<close>

record registration =
  rg_id :: nat
  rg_handlesInFlightInvalidation :: bool

text \<open>\<open>Closing ok\<close>: the loop is over, the \<open>finally\<close> handler has not run; \<open>Settled ok\<close>: it has.\<close>

datatype run_phase = Queued | Refreshing | Closing bool | Settled bool

record refresh_run =
  ru_resource :: string
  ru_generation :: nat
  ru_scope :: "string option"
  ru_dirty :: bool
  ru_inFlight :: bool
  ru_started :: bool
  ru_phase :: run_phase

record coordinator =
  rc_disposed :: bool
  rc_generation :: nat
  rc_scope :: "string option"
  rc_registrations :: "(string, registration) jsmap"
  rc_states :: "(string, nat) jsmap"
  rc_runs :: "refresh_run list"

definition new_coordinator :: coordinator where
  "new_coordinator = \<lparr>rc_disposed = False, rc_generation = 0, rc_scope = None, rc_registrations = [], rc_states = [],
     rc_runs = []\<rparr>"

text \<open>A call of a registered \<open>refresh\<close> function: the resource, the registration and the scope of the context.\<close>

datatype refresh_call = Refresh_call string nat "string option"

definition setScope :: "string option \<Rightarrow> coordinator \<Rightarrow> coordinator" where
  "setScope scope s =
     (if rc_disposed s \<or> scope = rc_scope s then s
      else s\<lparr>rc_scope := scope, rc_generation := rc_generation s + 1, rc_states := []\<rparr>)"

definition coordinator_register :: "string \<Rightarrow> registration \<Rightarrow> coordinator \<Rightarrow> coordinator" where
  "coordinator_register resource registration s =
     s\<lparr>rc_registrations := jm_set resource registration (rc_registrations s)\<rparr>"

text \<open>The function that \<open>register\<close> returns: it removes its own registration only.\<close>

definition coordinator_unregister :: "string \<Rightarrow> registration \<Rightarrow> coordinator \<Rightarrow> coordinator" where
  "coordinator_unregister resource registration s =
     (if jm_get (rc_registrations s) resource = Some registration
      then s\<lparr>rc_registrations := jm_delete resource (rc_registrations s)\<rparr> else s)"

definition coordinator_dispose :: "coordinator \<Rightarrow> coordinator" where
  "coordinator_dispose s =
     (if rc_disposed s then s
      else s\<lparr>rc_disposed := True, rc_generation := rc_generation s + 1, rc_registrations := [], rc_states := []\<rparr>)"

definition update_run :: "nat \<Rightarrow> (refresh_run \<Rightarrow> refresh_run) \<Rightarrow> coordinator \<Rightarrow> coordinator" where
  "update_run i f s = s\<lparr>rc_runs := (rc_runs s)[i := f (rc_runs s ! i)]\<rparr>"

text \<open>The private method \<open>run\<close> up to its return; the new state object starts in \<open>Queued\<close>.\<close>

definition run_resource :: "string \<Rightarrow> coordinator \<Rightarrow> coordinator \<times> refresh_call list" where
  "run_resource resource s =
     (let fresh = \<lparr>ru_resource = resource, ru_generation = rc_generation s, ru_scope = rc_scope s, ru_dirty = False,
                   ru_inFlight = True, ru_started = False, ru_phase = Queued\<rparr> in
      case jm_get (rc_states s) resource of
        Some i \<Rightarrow>
          let existing = rc_runs s ! i in
          if ru_inFlight existing then
            if ru_started existing then
              (case jm_get (rc_registrations s) resource of
                 Some registration \<Rightarrow>
                   if rg_handlesInFlightInvalidation registration
                   then (s, [Refresh_call resource (rg_id registration) (ru_scope existing)])
                   else (update_run i (\<lambda>r. r\<lparr>ru_dirty := True\<rparr>) s, [])
               | None \<Rightarrow> (update_run i (\<lambda>r. r\<lparr>ru_dirty := True\<rparr>) s, []))
            else (s, [])
          else (update_run i (\<lambda>r. fresh\<lparr>ru_dirty := ru_dirty r, ru_started := ru_started r\<rparr>) s, [])
      | None \<Rightarrow>
          (s\<lparr>rc_runs := rc_runs s @ [fresh], rc_states := jm_set resource (length (rc_runs s)) (rc_states s)\<rparr>, []))"

primrec run_all :: "string list \<Rightarrow> coordinator \<Rightarrow> coordinator \<times> refresh_call list" where
  "run_all [] s = (s, [])"
| "run_all (r # rs) s =
     (case run_resource r s of (s1, c1) \<Rightarrow> (case run_all rs s1 of (s2, c2) \<Rightarrow> (s2, c1 @ c2)))"

definition coordinator_invalidate :: "string list \<Rightarrow> coordinator \<Rightarrow> coordinator \<times> refresh_call list" where
  "coordinator_invalidate resources s = (if rc_disposed s then (s, []) else run_all (js_unique resources) s)"

text \<open>\<open>context.isCurrent()\<close>: the scope's signal is aborted exactly when the generation has moved on.\<close>

definition run_isCurrent :: "refresh_run \<Rightarrow> coordinator \<Rightarrow> bool" where
  "run_isCurrent r s \<longleftrightarrow> \<not> rc_disposed s \<and> ru_generation r = rc_generation s"

text \<open>One turn of the \<open>do\<close> loop, up to the call of \<open>refresh\<close>.\<close>

definition loop_turn :: "nat \<Rightarrow> coordinator \<Rightarrow> coordinator \<times> refresh_call list" where
  "loop_turn i s =
     (let s1 = update_run i (\<lambda>r. r\<lparr>ru_dirty := False\<rparr>) s; run = rc_runs s ! i in
      case jm_get (rc_registrations s1) (ru_resource run) of
        None \<Rightarrow> (update_run i (\<lambda>r. r\<lparr>ru_phase := Closing True\<rparr>) s1, [])
      | Some registration \<Rightarrow>
          if \<not> run_isCurrent run s1 then (update_run i (\<lambda>r. r\<lparr>ru_phase := Closing True\<rparr>) s1, [])
          else (update_run i (\<lambda>r. r\<lparr>ru_phase := Refreshing\<rparr>) s1,
                [Refresh_call (ru_resource run) (rg_id registration) (ru_scope run)]))"

definition run_begins :: "nat \<Rightarrow> coordinator \<Rightarrow> coordinator \<times> refresh_call list" where
  "run_begins i s =
     (if i < length (rc_runs s) \<and> ru_phase (rc_runs s ! i) = Queued
      then loop_turn i (update_run i (\<lambda>r. r\<lparr>ru_started := True\<rparr>) s) else (s, []))"

definition refresh_settles :: "nat \<Rightarrow> bool \<Rightarrow> coordinator \<Rightarrow> coordinator \<times> refresh_call list" where
  "refresh_settles i ok s =
     (if i < length (rc_runs s) \<and> ru_phase (rc_runs s ! i) = Refreshing then
        if ru_dirty (rc_runs s ! i) \<and> ru_generation (rc_runs s ! i) = rc_generation s then loop_turn i s
        else (update_run i (\<lambda>r. r\<lparr>ru_phase := Closing ok\<rparr>) s, [])
      else (s, []))"

definition run_closes :: "nat \<Rightarrow> coordinator \<Rightarrow> coordinator" where
  "run_closes i s =
     (if i < length (rc_runs s) then
        case ru_phase (rc_runs s ! i) of
          Closing ok \<Rightarrow>
            let s1 = update_run i (\<lambda>r. r\<lparr>ru_phase := Settled ok\<rparr>) s in
            if jm_get (rc_states s1) (ru_resource (rc_runs s ! i)) = Some i
            then update_run i (\<lambda>r. r\<lparr>ru_inFlight := False, ru_started := False\<rparr>) s1 else s1
        | _ \<Rightarrow> s
      else s)"

section \<open>Histories\<close>

primrec called :: "refresh_call \<Rightarrow> string" where
  "called (Refresh_call resource reg scope) = resource"

text \<open>The state object of a resource is past its loop but not yet closed.\<close>

definition in_gap :: "coordinator \<Rightarrow> string \<Rightarrow> bool" where
  "in_gap s resource \<longleftrightarrow>
     (\<exists>i ok. jm_get (rc_states s) resource = Some i \<and> ru_phase (rc_runs s ! i) = Closing ok)"

text \<open>
  \<open>coordinator_history s owed\<close>: \<open>owed\<close> are the resources invalidated in the current scope whose refresh
  function has not been called since; a run that finds its resource without a registration drops
  it.  No resource is invalidated in the gap.
\<close>

definition dropped :: "nat \<Rightarrow> coordinator \<Rightarrow> string set" where
  "dropped i s =
     (if jm_get (rc_registrations s) (ru_resource (rc_runs s ! i)) = None then {ru_resource (rc_runs s ! i)} else {})"

inductive coordinator_history :: "coordinator \<Rightarrow> string set \<Rightarrow> bool" where
  coordinator_new: "coordinator_history new_coordinator {}"
| coordinator_scope: "coordinator_history s owed \<Longrightarrow>
    coordinator_history (setScope scope s) (if rc_disposed s \<or> scope = rc_scope s then owed else {})"
| coordinator_registers: "coordinator_history s owed \<Longrightarrow> coordinator_history (coordinator_register r g s) owed"
| coordinator_unregisters: "coordinator_history s owed \<Longrightarrow> coordinator_history (coordinator_unregister r g s) owed"
| coordinator_disposes: "coordinator_history s owed \<Longrightarrow> coordinator_history (coordinator_dispose s) {}"
| coordinator_invalidates: "coordinator_history s owed \<Longrightarrow> \<not> rc_disposed s \<Longrightarrow> \<forall>r \<in> set rs. \<not> in_gap s r \<Longrightarrow>
    coordinator_history (fst (coordinator_invalidate rs s))
      ((owed \<union> set rs) - called ` set (snd (coordinator_invalidate rs s)))"
| coordinator_begins: "coordinator_history s owed \<Longrightarrow>
    coordinator_history (fst (run_begins i s)) (owed - (called ` set (snd (run_begins i s)) \<union> dropped i s))"
| coordinator_settles: "coordinator_history s owed \<Longrightarrow>
    coordinator_history (fst (refresh_settles i ok s)) (owed - (called ` set (snd (refresh_settles i ok s)) \<union> dropped i s))"
| coordinator_closes: "coordinator_history s owed \<Longrightarrow> coordinator_history (run_closes i s) owed"

section \<open>Invariant\<close>

definition to_read :: "refresh_run \<Rightarrow> bool" where
  "to_read u \<longleftrightarrow> ru_phase u = Queued \<or> ru_phase u = Refreshing \<and> ru_dirty u"

definition run_ok :: "coordinator \<Rightarrow> string \<Rightarrow> refresh_run \<Rightarrow> bool" where
  "run_ok s r u \<longleftrightarrow>
     ru_resource u = r \<and> ru_generation u = rc_generation s \<and> ru_scope u = rc_scope s \<and>
     (ru_inFlight u \<longleftrightarrow> (\<forall>ok. ru_phase u \<noteq> Settled ok)) \<and>
     (ru_started u \<longleftrightarrow> ru_phase u = Refreshing \<or> (\<exists>ok. ru_phase u = Closing ok))"

definition coordinator_inv :: "coordinator \<Rightarrow> string set \<Rightarrow> bool" where
  "coordinator_inv s owed \<longleftrightarrow>
     (\<forall>r i. jm_get (rc_states s) r = Some i \<longrightarrow> i < length (rc_runs s) \<and> run_ok s r (rc_runs s ! i)) \<and>
     (\<forall>r \<in> owed. \<exists>i. jm_get (rc_states s) r = Some i \<and> to_read (rc_runs s ! i)) \<and>
     (rc_disposed s \<longrightarrow> rc_states s = [])"

lemma coordinator_invD:
  assumes "coordinator_inv s owed" "jm_get (rc_states s) r = Some i"
  shows "i < length (rc_runs s)" "run_ok s r (rc_runs s ! i)" "\<not> rc_disposed s"
  using assms by (auto simp: coordinator_inv_def)

lemma coordinator_inv_mono: "coordinator_inv s owed \<Longrightarrow> owed' \<subseteq> owed \<Longrightarrow> coordinator_inv s owed'"
  unfolding coordinator_inv_def by blast

lemma states_apart:
  "coordinator_inv s owed \<Longrightarrow> jm_get (rc_states s) r = Some i \<Longrightarrow> jm_get (rc_states s) r' = Some i \<Longrightarrow> r = r'"
  using coordinator_invD(2) by (metis run_ok_def)

text \<open>Changing one state object keeps the invariant when the object stays well formed and its resource is still to be read or is dropped.\<close>

lemma coordinator_inv_update:
  assumes inv: "coordinator_inv s owed"
    and ok: "\<And>r. jm_get (rc_states s) r = Some i \<Longrightarrow> run_ok s r (f (rc_runs s ! i)) \<and> (r \<in> owed' \<longrightarrow> to_read (f (rc_runs s ! i)))"
    and sub: "\<And>r. r \<in> owed' \<Longrightarrow> r \<in> owed \<or> jm_get (rc_states s) r = Some i"
  shows "coordinator_inv (update_run i f s) owed'"
proof -
  let ?s = "update_run i f s"
  have same: "rc_states ?s = rc_states s" "rc_disposed ?s = rc_disposed s" "run_ok ?s = run_ok s"
    by (simp_all add: update_run_def run_ok_def [abs_def])
  have "j < length (rc_runs ?s) \<and> run_ok s r (rc_runs ?s ! j)" if "jm_get (rc_states s) r = Some j" for r j
    using coordinator_invD [OF inv that] ok [of r] that by (cases "i = j") (auto simp: update_run_def)
  moreover have "\<exists>j. jm_get (rc_states s) r = Some j \<and> to_read (rc_runs ?s ! j)" if owed: "r \<in> owed'" for r
  proof (cases "jm_get (rc_states s) r = Some i")
    case True
    then show ?thesis using ok [OF True] owed coordinator_invD(1) [OF inv True] by (simp add: update_run_def)
  next
    case False
    then obtain j where "jm_get (rc_states s) r = Some j" "to_read (rc_runs s ! j)" "j \<noteq> i"
      using sub [OF owed] inv by (auto simp: coordinator_inv_def)
    then show ?thesis by (simp add: update_run_def)
  qed
  ultimately show ?thesis using inv same by (simp add: coordinator_inv_def)
qed

lemma run_resource_inv:
  assumes inv: "coordinator_inv s owed" and live: "\<not> rc_disposed s" and gap: "\<not> in_gap s r"
  shows "coordinator_inv (fst (run_resource r s)) (insert r owed - called ` set (snd (run_resource r s)))"
proof (cases "jm_get (rc_states s) r")
  case None
  have "coordinator_inv (fst (run_resource r s)) (insert r owed)"
    unfolding coordinator_inv_def
  proof (intro conjI allI impI ballI)
    fix r' i assume "jm_get (rc_states (fst (run_resource r s))) r' = Some i"
    then show "i < length (rc_runs (fst (run_resource r s)))" "run_ok (fst (run_resource r s)) r' (rc_runs (fst (run_resource r s)) ! i)"
      using None coordinator_invD(1,2) [OF inv, of r' i]
      by (auto simp: run_resource_def jm_get_set nth_append run_ok_def split: if_splits)
  next
    fix r' assume r': "r' \<in> insert r owed"
    show "\<exists>i. jm_get (rc_states (fst (run_resource r s))) r' = Some i \<and> to_read (rc_runs (fst (run_resource r s)) ! i)"
    proof (cases "r' = r")
      case False
      then obtain i where i: "jm_get (rc_states s) r' = Some i" "to_read (rc_runs s ! i)"
        using r' inv by (auto simp: coordinator_inv_def)
      then show ?thesis using None False coordinator_invD(1) [OF inv i(1)]
        by (simp add: run_resource_def jm_get_set nth_append)
    qed (use None in \<open>simp add: run_resource_def jm_get_set to_read_def\<close>)
  qed (use None live in \<open>simp add: run_resource_def\<close>)
  then show ?thesis using None by (simp add: run_resource_def)
next
  case (Some i)
  have ok: "run_ok s r (rc_runs s ! i)" using coordinator_invD(2) [OF inv Some] .
  have only: "r' = r" if "jm_get (rc_states s) r' = Some i" for r' using states_apart [OF inv that Some] .
  have closed: "ru_phase (rc_runs s ! i) \<noteq> Closing b" for b using gap Some by (auto simp: in_gap_def)
  have dirty: "coordinator_inv (update_run i (\<lambda>u. u\<lparr>ru_dirty := True\<rparr>) s) (insert r owed)"
    if "ru_started (rc_runs s ! i)"
  proof (rule coordinator_inv_update [OF inv])
    fix r' assume "jm_get (rc_states s) r' = Some i"
    then have "r' = r" by (rule only)
    then show "run_ok s r' ((rc_runs s ! i)\<lparr>ru_dirty := True\<rparr>) \<and>
        (r' \<in> insert r owed \<longrightarrow> to_read ((rc_runs s ! i)\<lparr>ru_dirty := True\<rparr>))"
      using ok closed that by (simp add: run_ok_def to_read_def)
  qed (use Some in auto)
  show ?thesis
  proof (cases "ru_inFlight (rc_runs s ! i)")
    case False
    let ?f = "\<lambda>u. \<lparr>ru_resource = r, ru_generation = rc_generation s, ru_scope = rc_scope s, ru_dirty = ru_dirty u,
        ru_inFlight = True, ru_started = ru_started u, ru_phase = Queued\<rparr>"
    have "coordinator_inv (update_run i ?f s) (insert r owed)"
    proof (rule coordinator_inv_update [OF inv])
      fix r' assume "jm_get (rc_states s) r' = Some i"
      then have "r' = r" by (rule only)
      then show "run_ok s r' (?f (rc_runs s ! i)) \<and> (r' \<in> insert r owed \<longrightarrow> to_read (?f (rc_runs s ! i)))"
        using False ok by (auto simp: run_ok_def to_read_def)
    qed (use Some in auto)
    then show ?thesis using Some False by (simp add: run_resource_def Let_def)
  next
    case True
    show ?thesis
    proof (cases "ru_started (rc_runs s ! i)")
      case False
      then have "to_read (rc_runs s ! i)" using True ok closed by (cases "ru_phase (rc_runs s ! i)") (auto simp: run_ok_def to_read_def)
      then have "coordinator_inv s (insert r owed)" using inv Some by (auto simp: coordinator_inv_def)
      then show ?thesis using Some True False by (simp add: run_resource_def Let_def)
    next
      case started: True
      show ?thesis
      proof (cases "\<exists>g. jm_get (rc_registrations s) r = Some g \<and> rg_handlesInFlightInvalidation g")
        case h: True
        then have "called ` set (snd (run_resource r s)) = {r}" "fst (run_resource r s) = s"
          using Some True started by (auto simp: run_resource_def Let_def)
        then show ?thesis using coordinator_inv_mono [OF inv] by auto
      next
        case h: False
        then have "run_resource r s = (update_run i (\<lambda>u. u\<lparr>ru_dirty := True\<rparr>) s, [])"
          using Some True started by (auto simp: run_resource_def Let_def split: option.splits)
        then show ?thesis using dirty [OF started] by simp
      qed
    qed
  qed
qed

lemma run_resource_frame:
  "rc_disposed (fst (run_resource r s)) = rc_disposed s"
  "r' \<noteq> r \<Longrightarrow> coordinator_inv s owed \<Longrightarrow> in_gap (fst (run_resource r s)) r' = in_gap s r'"
proof -
  show "rc_disposed (fst (run_resource r s)) = rc_disposed s"
    by (auto simp: run_resource_def Let_def update_run_def split: option.splits)
  assume r': "r' \<noteq> r" and inv: "coordinator_inv s owed"
  have "jm_get (rc_states (fst (run_resource r s))) r' = jm_get (rc_states s) r'"
    using r' by (auto simp: run_resource_def Let_def update_run_def jm_get_set split: option.splits)
  moreover have "rc_runs (fst (run_resource r s)) ! i = rc_runs s ! i" if "jm_get (rc_states s) r' = Some i" for i
  proof -
    have "jm_get (rc_states s) r \<noteq> Some i" using states_apart [OF inv that] r' by blast
    then show ?thesis using coordinator_invD(1) [OF inv that]
      by (auto simp: run_resource_def Let_def update_run_def nth_append split: option.splits)
  qed
  ultimately show "in_gap (fst (run_resource r s)) r' = in_gap s r'" by (auto simp: in_gap_def)
qed

lemma run_all_inv:
  assumes "coordinator_inv s owed" "\<not> rc_disposed s" "\<forall>r \<in> set rs. \<not> in_gap s r" "distinct rs"
  shows "coordinator_inv (fst (run_all rs s)) ((owed \<union> set rs) - called ` set (snd (run_all rs s)))"
  using assms
proof (induction rs arbitrary: s owed)
  case (Cons r rs)
  obtain s1 c1 where r: "run_resource r s = (s1, c1)" by (cases "run_resource r s")
  obtain s2 c2 where rs: "run_all rs s1 = (s2, c2)" by (cases "run_all rs s1")
  have s1: "coordinator_inv s1 (insert r owed - called ` set c1)"
    using run_resource_inv [of s owed r] Cons.prems r by simp
  have "in_gap s1 r' = in_gap s r'" if "r' \<in> set rs" for r'
    using run_resource_frame(2) [OF _ Cons.prems(1), of r' r] that Cons.prems(4) r by auto
  then have "\<not> rc_disposed s1" "\<forall>r \<in> set rs. \<not> in_gap s1 r"
    using run_resource_frame(1) [where r = r and s = s] Cons.prems r by auto
  from Cons.IH [OF s1 this] Cons.prems(4)
  have "coordinator_inv s2 ((insert r owed - called ` set c1) \<union> set rs - called ` set c2)" by (simp add: rs)
  then have "coordinator_inv s2 (owed \<union> set (r # rs) - called ` set (c1 @ c2))"
    by (rule coordinator_inv_mono) auto
  then show ?case by (simp add: r rs)
qed simp

text \<open>A turn of the loop.\<close>

lemma loop_turn_eq:
  assumes "i < length (rc_runs s)"
  shows "\<exists>p. fst (loop_turn i s) = update_run i (\<lambda>u. u\<lparr>ru_dirty := False, ru_phase := p\<rparr>) s \<and>
    (p = Refreshing \<or> p = Closing True) \<and>
    (run_isCurrent (rc_runs s ! i) s \<longrightarrow> ru_resource (rc_runs s ! i) \<in> called ` set (snd (loop_turn i s)) \<union> dropped i s)"
proof (cases "jm_get (rc_registrations s) (ru_resource (rc_runs s ! i)) \<noteq> None \<and> run_isCurrent (rc_runs s ! i) s")
  case True
  then show ?thesis using assms
    by (intro exI [of _ Refreshing]) (auto simp: loop_turn_def Let_def update_run_def run_isCurrent_def)
next
  case False
  then show ?thesis using assms
    by (intro exI [of _ "Closing True"])
      (auto simp: loop_turn_def Let_def update_run_def run_isCurrent_def dropped_def split: option.splits)
qed

lemma turn_inv:
  assumes inv: "coordinator_inv s owed" and p: "p = Refreshing \<or> (\<exists>ok. p = Closing ok)"
    and inFlight: "\<And>ok. ru_phase (rc_runs s ! i) \<noteq> Settled ok"
    and read: "\<And>r. jm_get (rc_states s) r = Some i \<Longrightarrow> r \<in> D"
  shows "coordinator_inv (update_run i (\<lambda>u. u\<lparr>ru_started := True, ru_dirty := False, ru_phase := p\<rparr>) s) (owed - D)"
proof (rule coordinator_inv_update [OF inv])
  fix r assume r: "jm_get (rc_states s) r = Some i"
  show "run_ok s r ((rc_runs s ! i)\<lparr>ru_started := True, ru_dirty := False, ru_phase := p\<rparr>) \<and>
      (r \<in> owed - D \<longrightarrow> to_read ((rc_runs s ! i)\<lparr>ru_started := True, ru_dirty := False, ru_phase := p\<rparr>))"
    using coordinator_invD(2) [OF inv r] read [OF r] p inFlight by (auto simp: run_ok_def)
qed auto

lemma state_is_current: "coordinator_inv s owed \<Longrightarrow> jm_get (rc_states s) r = Some i \<Longrightarrow>
   run_isCurrent (rc_runs s ! i) s \<and> ru_resource (rc_runs s ! i) = r"
  using coordinator_invD(2,3) by (auto simp: run_ok_def run_isCurrent_def)

lemma update_run_twice: "i < length (rc_runs s) \<Longrightarrow> update_run i g (update_run i f s) = update_run i (\<lambda>u. g (f u)) s"
  by (simp add: update_run_def)

lemma run_begins_inv:
  assumes inv: "coordinator_inv s owed"
  shows "coordinator_inv (fst (run_begins i s)) (owed - (called ` set (snd (run_begins i s)) \<union> dropped i s))"
proof (cases "i < length (rc_runs s) \<and> ru_phase (rc_runs s ! i) = Queued")
  case False
  then show ?thesis using coordinator_inv_mono [OF inv] by (auto simp: run_begins_def)
next
  case True
  let ?s = "update_run i (\<lambda>r. r\<lparr>ru_started := True\<rparr>) s"
  have eq: "run_begins i s = loop_turn i ?s" using True by (simp add: run_begins_def)
  have "i < length (rc_runs ?s)" using True by (simp add: update_run_def)
  from loop_turn_eq [OF this] obtain p where p: "fst (loop_turn i ?s) = update_run i (\<lambda>u. u\<lparr>ru_dirty := False, ru_phase := p\<rparr>) ?s"
    "p = Refreshing \<or> p = Closing True"
    "run_isCurrent (rc_runs ?s ! i) ?s \<Longrightarrow> ru_resource (rc_runs ?s ! i) \<in> called ` set (snd (loop_turn i ?s)) \<union> dropped i ?s"
    by blast
  have same: "run_isCurrent (rc_runs ?s ! i) ?s = run_isCurrent (rc_runs s ! i) s"
    "ru_resource (rc_runs ?s ! i) = ru_resource (rc_runs s ! i)" "dropped i ?s = dropped i s"
    using True by (simp_all add: update_run_def run_isCurrent_def dropped_def)
  have "r \<in> called ` set (snd (loop_turn i ?s)) \<union> dropped i s" if "jm_get (rc_states s) r = Some i" for r
    using state_is_current [OF inv that] p(3) unfolding same by blast
  then have "coordinator_inv (update_run i (\<lambda>u. u\<lparr>ru_started := True, ru_dirty := False, ru_phase := p\<rparr>) s)
      (owed - (called ` set (snd (loop_turn i ?s)) \<union> dropped i s))"
    using True p(2) by (intro turn_inv [OF inv]) auto
  then show ?thesis unfolding eq p(1) using True by (simp add: update_run_twice)
qed

lemma refresh_settles_inv:
  assumes inv: "coordinator_inv s owed"
  shows "coordinator_inv (fst (refresh_settles i ok s)) (owed - (called ` set (snd (refresh_settles i ok s)) \<union> dropped i s))"
proof (cases "i < length (rc_runs s) \<and> ru_phase (rc_runs s ! i) = Refreshing")
  case False
  then show ?thesis using coordinator_inv_mono [OF inv] by (auto simp: refresh_settles_def)
next
  case True
  show ?thesis
  proof (cases "ru_dirty (rc_runs s ! i) \<and> ru_generation (rc_runs s ! i) = rc_generation s")
    case again: True
    then have eq: "refresh_settles i ok s = loop_turn i s" using True by (simp add: refresh_settles_def)
    obtain p where p: "fst (loop_turn i s) = update_run i (\<lambda>u. u\<lparr>ru_dirty := False, ru_phase := p\<rparr>) s"
      "p = Refreshing \<or> p = Closing True"
      "run_isCurrent (rc_runs s ! i) s \<Longrightarrow> ru_resource (rc_runs s ! i) \<in> called ` set (snd (loop_turn i s)) \<union> dropped i s"
      using loop_turn_eq [of i s] True by blast
    show ?thesis unfolding eq p(1)
    proof (rule coordinator_inv_update [OF inv])
      fix r assume r: "jm_get (rc_states s) r = Some i"
      then show "run_ok s r ((rc_runs s ! i)\<lparr>ru_dirty := False, ru_phase := p\<rparr>) \<and>
          (r \<in> owed - (called ` set (snd (loop_turn i s)) \<union> dropped i s) \<longrightarrow>
           to_read ((rc_runs s ! i)\<lparr>ru_dirty := False, ru_phase := p\<rparr>))"
        using coordinator_invD(2) [OF inv r] state_is_current [OF inv r] p(2,3) True by (auto simp: run_ok_def)
    qed auto
  next
    case over: False
    then have eq: "refresh_settles i ok s = (update_run i (\<lambda>r. r\<lparr>ru_phase := Closing ok\<rparr>) s, [])"
      using True by (auto simp: refresh_settles_def)
    show ?thesis unfolding eq fst_conv
    proof (rule coordinator_inv_update [OF inv])
      fix r assume r: "jm_get (rc_states s) r = Some i"
      then have "\<not> ru_dirty (rc_runs s ! i)" using coordinator_invD(2) [OF inv r] over by (simp add: run_ok_def)
      then have "r \<notin> owed" using inv r True by (auto simp: coordinator_inv_def to_read_def)
      then show "run_ok s r ((rc_runs s ! i)\<lparr>ru_phase := Closing ok\<rparr>) \<and>
          (r \<in> owed - (called ` set (snd (update_run i (\<lambda>r. r\<lparr>ru_phase := Closing ok\<rparr>) s, [])) \<union> dropped i s) \<longrightarrow>
           to_read ((rc_runs s ! i)\<lparr>ru_phase := Closing ok\<rparr>))"
        using coordinator_invD(2) [OF inv r] True by (auto simp: run_ok_def)
    qed auto
  qed
qed

lemma run_closes_inv:
  assumes inv: "coordinator_inv s owed"
  shows "coordinator_inv (run_closes i s) owed"
proof (cases "i < length (rc_runs s) \<and> (\<exists>ok. ru_phase (rc_runs s ! i) = Closing ok)")
  case False
  then have "run_closes i s = s" by (auto simp: run_closes_def split: run_phase.splits)
  then show ?thesis using inv by simp
next
  case True
  then obtain ok where ok: "ru_phase (rc_runs s ! i) = Closing ok" by blast
  let ?current = "jm_get (rc_states s) (ru_resource (rc_runs s ! i)) = Some i"
  let ?f = "\<lambda>u. if ?current then u\<lparr>ru_phase := Settled ok, ru_inFlight := False, ru_started := False\<rparr>
      else u\<lparr>ru_phase := Settled ok\<rparr>"
  have "run_closes i s = update_run i ?f s" using True ok by (simp add: run_closes_def update_run_def Let_def)
  moreover have "coordinator_inv (update_run i ?f s) owed"
  proof (rule coordinator_inv_update [OF inv])
    fix r assume r: "jm_get (rc_states s) r = Some i"
    have "r \<notin> owed" using inv r ok by (auto simp: coordinator_inv_def to_read_def)
    then show "run_ok s r (?f (rc_runs s ! i)) \<and> (r \<in> owed \<longrightarrow> to_read (?f (rc_runs s ! i)))"
      using coordinator_invD(2) [OF inv r] state_is_current [OF inv r] r by (auto simp: run_ok_def)
  qed simp
  ultimately show ?thesis by simp
qed

lemma coordinator_history_inv: "coordinator_history s owed \<Longrightarrow> coordinator_inv s owed"
proof (induction rule: coordinator_history.induct)
  case (coordinator_invalidates s owed rs)
  then show ?case using run_all_inv [of s owed "js_unique rs"] by (simp add: coordinator_invalidate_def)
next
  case (coordinator_begins s owed i)
  then show ?case by (simp add: run_begins_inv)
next
  case (coordinator_settles s owed i ok)
  then show ?case by (simp add: refresh_settles_inv)
next
  case (coordinator_closes s owed i)
  then show ?case by (simp add: run_closes_inv)
qed (auto simp: coordinator_inv_def new_coordinator_def setScope_def coordinator_register_def coordinator_unregister_def
    coordinator_dispose_def run_ok_def)

section \<open>Properties\<close>


definition example_registration :: registration where
  "example_registration = \<lparr>rg_id = 1, rg_handlesInFlightInvalidation = False\<rparr>"

text \<open>The resource is invalidated again while its refresh is under way.\<close>

definition example_coordinator :: coordinator where
  "example_coordinator =
     fst (coordinator_invalidate [''p''] (fst (run_begins 0 (fst (coordinator_invalidate [''p'']
       (coordinator_register ''p'' example_registration (setScope (Some ''w'') new_coordinator)))))))"

lemma example_coordinator_history: "coordinator_history example_coordinator {''p''}"
proof -
  let ?s1 = "coordinator_register ''p'' example_registration (setScope (Some ''w'') new_coordinator)"
  let ?s2 = "fst (coordinator_invalidate [''p''] ?s1)" let ?s3 = "fst (run_begins 0 ?s2)"
  have "coordinator_history ?s1 {}"
    using coordinator_registers [OF coordinator_scope [OF coordinator_new]] by (auto simp: new_coordinator_def)
  moreover have "\<not> rc_disposed ?s1" "rc_states ?s1 = []" "snd (coordinator_invalidate [''p''] ?s1) = []" by code_simp+
  ultimately have "coordinator_history ?s2 {''p''}"
    using coordinator_invalidates [of ?s1 "{}" "[''p'']"] by (simp add: in_gap_def)
  moreover have "called ` set (snd (run_begins 0 ?s2)) \<union> dropped 0 ?s2 = {''p''}" by code_simp
  ultimately have "coordinator_history ?s3 {}" using coordinator_begins [of ?s2 "{''p''}" 0] by simp
  moreover have "\<not> rc_disposed ?s3" "snd (coordinator_invalidate [''p''] ?s3) = []"
    "jm_get (rc_states ?s3) ''p'' = Some 0" "ru_phase (rc_runs ?s3 ! 0) = Refreshing"
    by code_simp+
  ultimately show ?thesis
    using coordinator_invalidates [of ?s3 "{}" "[''p'']"] unfolding example_coordinator_def
    by (simp add: in_gap_def)
qed


text \<open>
  The condition on the gap is needed.  When a resource is invalidated after the last turn of its loop
  and before the \<open>finally\<close> handler has run, the run is still registered as in flight: the
  invalidation only sets the dirty flag, which nobody reads any more.  Nothing is called, and when the
  handler has run the resource is idle.
\<close>

theorem coordinator_gap_forgets:
  "let s = fst (refresh_settles 0 True (fst (run_begins 0 (fst (coordinator_invalidate [''p'']
             (coordinator_register ''p'' example_registration new_coordinator))))));
       t = run_closes 0 (fst (coordinator_invalidate [''p''] s)) in
   in_gap s ''p'' \<and> snd (coordinator_invalidate [''p''] s) = [] \<and>
   jm_get (rc_states t) ''p'' = Some 0 \<and> ru_phase (rc_runs t ! 0) = Settled True \<and> \<not> ru_inFlight (rc_runs t ! 0)"
proof -
  let ?s = "fst (refresh_settles 0 True (fst (run_begins 0 (fst (coordinator_invalidate [''p'']
             (coordinator_register ''p'' example_registration new_coordinator))))))"
  have "jm_get (rc_states ?s) ''p'' = Some 0" "ru_phase (rc_runs ?s ! 0) = Closing True" by code_simp+
  then have "in_gap ?s ''p''" by (auto simp: in_gap_def)
  moreover have "snd (coordinator_invalidate [''p''] ?s) = [] \<and>
      (let t = run_closes 0 (fst (coordinator_invalidate [''p''] ?s)) in
       jm_get (rc_states t) ''p'' = Some 0 \<and> ru_phase (rc_runs t ! 0) = Settled True \<and> \<not> ru_inFlight (rc_runs t ! 0))"
    by code_simp
  ultimately show ?thesis by (simp add: Let_def)
qed

end
