(* ===== verification/Autodeposit_State.thy ===== *)
theory Autodeposit_State
  imports Realtime_Types
begin

text \<open>
  The autodeposit state a client loads, \<open>packages/shared/src/earn-autodeposit-loaded-state.ts\<close>: the guards
  that accept a stored configuration, the labels derived from raw amounts and timestamps, and which
  scheduled sweeps are shown.  \<open>BigInt\<close>s are integers; a \<open>Number\<close> made of a \<open>BigInt\<close> is exact here, and
  infinite from \<open>number_limit\<close> on.  Parsing and printing of dates are parameters.
\<close>

section \<open>Data\<close>

text \<open>In \<open>'a option option\<close> the outer \<open>None\<close> is \<open>undefined\<close>, the inner one \<open>null\<close>.\<close>

record scheduled_sweep =
  sw_classification :: string
  sw_confidence :: string
  sw_eligibleAfter :: string
  sw_executeNowAvailableAt :: "string option option"
  sw_id :: string
  sw_lotCount :: "js_number option"
  sw_originalAmountRaw :: string
  sw_reason :: string
  sw_remainingAmountRaw :: string
  sw_slotId :: "string option"
  sw_status :: string

datatype loaded_status = Active | Paused | Pending

text \<open>The fields that the derived configuration uses.\<close>

record loaded_state =
  ls_amountPerPeriodRaw :: string
  ls_depositedThisPeriodRaw :: "string option"
  ls_expiryTimestamp :: "string option"
  ls_nonce :: "string option"
  ls_policyAccount :: string
  ls_policySeed :: string
  ls_periodLengthSeconds :: "string option"
  ls_recurringDelegation :: "string option"
  ls_scheduledSweeps :: "scheduled_sweep list option"
  ls_startTimestamp :: "string option"
  ls_status :: loaded_status
  ls_walletBalanceFloorRaw :: "string option"

datatype config_state = Created | Creating | Paused_config

record loaded_config =
  lc_amount :: string
  lc_depositedAmount :: string
  lc_keepAmount :: string
  lc_nextPeriodLabel :: "string option"
  lc_expiryTimestamp :: "string option"
  lc_periodLengthSeconds :: "string option"
  lc_policyAccount :: string
  lc_policySeed :: string
  lc_recurringDelegation :: string
  lc_setupNonce :: "string option"
  lc_nonce :: string
  lc_scheduledSweeps :: "scheduled_sweep list option"
  lc_startTimestamp :: "string option"
  lc_state :: config_state

datatype display_status = Config_status config_state | Loaded_status loaded_status | Closing | Pausing | Resuming

section \<open>Scheduled sweeps\<close>

definition isScheduledSweepExecuting :: "scheduled_sweep \<Rightarrow> bool" where
  "isScheduledSweepExecuting sweep \<longleftrightarrow> sw_status sweep = ''requested'' \<or> sw_status sweep = ''selected''"

definition getDisplayableEarnAutodepositScheduledSweeps ::
    "display_status \<Rightarrow> scheduled_sweep list option \<Rightarrow> scheduled_sweep list" where
  "getDisplayableEarnAutodepositScheduledSweeps status scheduledSweeps =
     (if status \<noteq> Loaded_status Active \<and> status \<noteq> Config_status Created then []
      else
        let sweeps = (case scheduledSweeps of None \<Rightarrow> [] | Some xs \<Rightarrow> xs) in
        if list_ex isScheduledSweepExecuting sweeps
        then filter (\<lambda>sweep. sw_status sweep \<noteq> ''scheduled'') sweeps
        else sweeps)"

definition getLoadedScheduledSweepExecuteNowAvailableAtMs ::
    "(string \<Rightarrow> int option) \<Rightarrow> scheduled_sweep \<Rightarrow> int option" where
  "getLoadedScheduledSweepExecuteNowAvailableAtMs getTime sweep =
     (case sw_executeNowAvailableAt sweep of
        Some (Some t) \<Rightarrow> if t = [] then None else getTime t
      | _ \<Rightarrow> None)"

definition formatLoadedScheduledSweepAvailableIn :: "int \<Rightarrow> int \<Rightarrow> string option" where
  "formatLoadedScheduledSweepAvailableIn availableAtMs nowMs =
     (let remainingSeconds = \<lceil>(of_int (availableAtMs - nowMs) / 1000 :: rat)\<rceil> in
      if remainingSeconds > 0 then Some (''Available in '' @ show_dec (nat remainingSeconds) @ ''s'') else None)"

section \<open>Guards\<close>

definition is_string :: "json \<Rightarrow> string \<Rightarrow> bool" where
  "is_string v k \<longleftrightarrow> string_prop v k \<noteq> None"

definition string_or_null :: "json \<Rightarrow> string \<Rightarrow> bool" where
  "string_or_null v k \<longleftrightarrow> is_string v k \<or> get_prop v k = Some JNull"

definition isLoadedScheduledSweep :: "json \<Rightarrow> bool" where
  "isLoadedScheduledSweep v \<longleftrightarrow>
     isObject v \<and> is_string v ''classification'' \<and> is_string v ''confidence'' \<and> is_string v ''eligibleAfter'' \<and>
     (get_prop v ''executeNowAvailableAt'' = None \<or> string_or_null v ''executeNowAvailableAt'') \<and>
     is_string v ''id'' \<and> is_string v ''originalAmountRaw'' \<and> is_string v ''reason'' \<and>
     is_string v ''remainingAmountRaw'' \<and> is_string v ''status''"

definition isLoadedEarnAutodepositConfig :: "json \<Rightarrow> bool" where
  "isLoadedEarnAutodepositConfig v \<longleftrightarrow>
     isObject v \<and> is_string v ''amount'' \<and> is_string v ''depositedAmount'' \<and> is_string v ''keepAmount'' \<and>
     string_or_null v ''nextPeriodLabel'' \<and> string_or_null v ''expiryTimestamp'' \<and>
     string_or_null v ''periodLengthSeconds'' \<and> is_string v ''policyAccount'' \<and> is_string v ''policySeed'' \<and>
     is_string v ''recurringDelegation'' \<and> string_or_null v ''setupNonce'' \<and> is_string v ''nonce'' \<and>
     string_or_null v ''startTimestamp'' \<and>
     (string_prop v ''state'' = Some ''created'' \<or> string_prop v ''state'' = Some ''creating'' \<or>
      string_prop v ''state'' = Some ''paused'') \<and>
     (case get_prop v ''scheduledSweeps'' of
        None \<Rightarrow> True
      | Some (JArray xs) \<Rightarrow> list_all isLoadedScheduledSweep xs
      | Some _ \<Rightarrow> False)"

section \<open>Labels\<close>

text \<open>\<open>padStart(6, "0")\<close> and \<open>replace(/0+$/, "")\<close>.\<close>

definition padStart :: "nat \<Rightarrow> char \<Rightarrow> string \<Rightarrow> string" where
  "padStart n c s = replicate (n - length s) c @ s"

definition strip_zeros :: "string \<Rightarrow> string" where
  "strip_zeros s = rev (dropWhile (\<lambda>c. c = CHR ''0'') (rev s))"

definition rawTokenAmountToLabel :: "string option \<Rightarrow> string" where
  "rawTokenAmountToLabel amountRaw =
     (case amountRaw of
        None \<Rightarrow> ''0''
      | Some s \<Rightarrow>
          if s = [] \<or> \<not> decimal_pattern s then ''0''
          else
            let raw = parse_dec s; whole = raw div 1000000; fraction = raw mod 1000000 in
            if fraction = 0 then show_dec whole
            else show_dec whole @ ''.'' @ strip_zeros (padStart 6 (CHR ''0'') (show_dec fraction)))"

definition number_limit :: int where
  "number_limit = 2 ^ 1024 - 2 ^ 970"

definition formatNextPeriodLabel ::
    "(int \<Rightarrow> string) \<Rightarrow> int \<Rightarrow> string option \<Rightarrow> string option \<Rightarrow> string option" where
  "formatNextPeriodLabel toLocaleDateString nowMs startTimestamp periodLengthSeconds =
     (case (startTimestamp, periodLengthSeconds) of
        (Some start, Some period) \<Rightarrow>
          if \<not> decimal_pattern start \<or> \<not> decimal_pattern period then None
          else
            let startMs = int (parse_dec start) * 1000; periodMs = int (parse_dec period) * 1000 in
            if startMs \<ge> number_limit \<or> periodMs \<ge> number_limit \<or> periodMs \<le> 0 then None
            else
              let periodsElapsed = (if nowMs < startMs then 0 else (nowMs - startMs) div periodMs + 1) in
              Some (toLocaleDateString (startMs + periodsElapsed * periodMs))
      | _ \<Rightarrow> None)"

definition earnAutodepositConfigFromLoadedState ::
    "(int \<Rightarrow> string) \<Rightarrow> int \<Rightarrow> loaded_state option \<Rightarrow> loaded_config option" where
  "earnAutodepositConfigFromLoadedState toLocaleDateString nowMs autodeposit =
     (case autodeposit of
        None \<Rightarrow> None
      | Some autodeposit \<Rightarrow>
          let state = (case ls_status autodeposit of Active \<Rightarrow> Created | Paused \<Rightarrow> Paused_config | Pending \<Rightarrow> Creating) in
          Some
            \<lparr>lc_amount = rawTokenAmountToLabel (Some (ls_amountPerPeriodRaw autodeposit)),
             lc_depositedAmount = rawTokenAmountToLabel (ls_depositedThisPeriodRaw autodeposit),
             lc_keepAmount = rawTokenAmountToLabel (ls_walletBalanceFloorRaw autodeposit),
             lc_nextPeriodLabel = formatNextPeriodLabel toLocaleDateString nowMs (ls_startTimestamp autodeposit)
               (ls_periodLengthSeconds autodeposit),
             lc_expiryTimestamp = ls_expiryTimestamp autodeposit,
             lc_periodLengthSeconds = ls_periodLengthSeconds autodeposit,
             lc_policyAccount = ls_policyAccount autodeposit,
             lc_policySeed = ls_policySeed autodeposit,
             lc_recurringDelegation = (case ls_recurringDelegation autodeposit of None \<Rightarrow> [] | Some d \<Rightarrow> d),
             lc_setupNonce = ls_nonce autodeposit,
             lc_nonce = ls_policySeed autodeposit,
             lc_scheduledSweeps = Some (getDisplayableEarnAutodepositScheduledSweeps (Config_status state)
               (ls_scheduledSweeps autodeposit)),
             lc_startTimestamp = ls_startTimestamp autodeposit,
             lc_state = state\<rparr>)"

section \<open>Raw amounts\<close>

definition EARN_AUTODEPOSIT_MIN_VISIBLE_SCHEDULED_SWEEP_RAW :: int where
  "EARN_AUTODEPOSIT_MIN_VISIBLE_SCHEDULED_SWEEP_RAW = 10000"

definition rawTokenAmountToNumber :: "string \<Rightarrow> nat \<Rightarrow> rat" where
  "rawTokenAmountToNumber amountRaw decimals =
     (if \<not> decimal_pattern amountRaw then 0
      else
        let raw = parse_dec amountRaw; scale = 10 ^ decimals in
        of_nat (raw div scale) + of_nat (raw mod scale) / 10 ^ decimals)"

definition parseUnsignedRawTokenAmount :: "string option \<Rightarrow> int option" where
  "parseUnsignedRawTokenAmount amountRaw =
     (case amountRaw of
        None \<Rightarrow> None
      | Some s \<Rightarrow> if s = [] \<or> \<not> decimal_pattern s then None else Some (int (parse_dec s)))"

abbreviation sweep_amount :: "scheduled_sweep \<Rightarrow> int option" where
  "sweep_amount sweep \<equiv> parseUnsignedRawTokenAmount (Some (sw_remainingAmountRaw sweep))"

text \<open>The \<open>for\<close> loop over the sweeps above the threshold, with the surplus that remains.\<close>

primrec visible_loop :: "int \<Rightarrow> scheduled_sweep list \<Rightarrow> scheduled_sweep list" where
  "visible_loop remainingSurplusRaw [] = []"
| "visible_loop remainingSurplusRaw (sweep # sweeps) =
     (case sweep_amount sweep of
        None \<Rightarrow> visible_loop remainingSurplusRaw sweeps
      | Some remainingAmountRaw \<Rightarrow>
          let displayAmountRaw =
                (if remainingAmountRaw < remainingSurplusRaw then remainingAmountRaw else remainingSurplusRaw);
              rest = remainingSurplusRaw - displayAmountRaw in
          if displayAmountRaw < EARN_AUTODEPOSIT_MIN_VISIBLE_SCHEDULED_SWEEP_RAW then []
          else
            (if displayAmountRaw = remainingAmountRaw then sweep
             else sweep\<lparr>sw_remainingAmountRaw := show_dec (nat displayAmountRaw)\<rparr>) #
            (if rest < EARN_AUTODEPOSIT_MIN_VISIBLE_SCHEDULED_SWEEP_RAW then [] else visible_loop rest sweeps))"

definition above_display_threshold :: "scheduled_sweep \<Rightarrow> bool" where
  "above_display_threshold sweep \<longleftrightarrow>
     (case sweep_amount sweep of
        None \<Rightarrow> False
      | Some remainingAmountRaw \<Rightarrow> remainingAmountRaw \<ge> EARN_AUTODEPOSIT_MIN_VISIBLE_SCHEDULED_SWEEP_RAW)"

definition getVisibleEarnAutodepositScheduledSweeps ::
    "scheduled_sweep list \<Rightarrow> int option \<Rightarrow> int option \<Rightarrow> scheduled_sweep list" where
  "getVisibleEarnAutodepositScheduledSweeps scheduledSweeps walletBalanceFloorRaw walletBalanceRaw =
     (let sweepsAboveDisplayThreshold = filter above_display_threshold scheduledSweeps in
      case (walletBalanceRaw, walletBalanceFloorRaw) of
        (Some balance, Some keep) \<Rightarrow>
          if balance - keep < EARN_AUTODEPOSIT_MIN_VISIBLE_SCHEDULED_SWEEP_RAW then []
          else visible_loop (balance - keep) sweepsAboveDisplayThreshold
      | _ \<Rightarrow> sweepsAboveDisplayThreshold)"

section \<open>Polling the progress of a sweep\<close>

text \<open>
  \<open>fetchEarnAutodepositProgress\<close> of \<open>earn-realtime/fallback.ts\<close>.  \<open>fetch\<close> tells, for a URL, whether the response is ok
  and what its body parses to; percent-encoding leaves a decimal id as it is.
\<close>

definition fetchEarnAutodepositProgress ::
    "(string \<Rightarrow> bool \<times> json option) \<Rightarrow> string \<Rightarrow> autodeposit_progress option" where
  "fetchEarnAutodepositProgress fetch scheduledSlotId =
     (if \<not> decimal_pattern scheduledSlotId then None
      else case fetch (''/api/smart-accounts/yield-optimization/autodeposit/sweeps/execute?slotId='' @ scheduledSlotId) of
        (ok, body) \<Rightarrow>
          if \<not> ok then None
          else case body of
            None \<Rightarrow> None
          | Some value \<Rightarrow>
              let state = Option.bind (string_prop value ''state'') (map_of EARN_AUTODEPOSIT_PROGRESS_STATES) in
              if string_prop value ''scheduledSlotId'' \<noteq> Some scheduledSlotId \<or> state = None \<or>
                 (get_prop value ''eventId'' \<noteq> None \<and>
                  (case string_prop value ''eventId'' of None \<Rightarrow> True | Some eventId \<Rightarrow> \<not> decimal_pattern eventId)) \<or>
                 (get_prop value ''failureCode'' \<noteq> None \<and> string_prop value ''failureCode'' = None) \<or>
                 string_prop value ''occurredAt'' = None
              then None
              else Some \<lparr>ap_eventId = string_prop value ''eventId'', ap_failureCode = string_prop value ''failureCode'',
                         ap_occurredAt = string_prop value ''occurredAt'', ap_scheduledSlotId = scheduledSlotId,
                         ap_state = Progress (the state)\<rparr>)"

section \<open>The guard and the type\<close>

text \<open>
  \<open>sweep_reads v w\<close> and \<open>config_reads v c\<close>: the JSON value \<open>v\<close> has, in every field the guards look at, the value
  that field has in the record.  Two fields of a sweep, \<open>lotCount\<close> and \<open>slotId\<close>, are not looked at.
\<close>

definition null_string :: "json \<Rightarrow> string \<Rightarrow> string option \<Rightarrow> bool" where
  "null_string v k x \<longleftrightarrow> get_prop v k = Some (case x of None \<Rightarrow> JNull | Some s \<Rightarrow> JString s)"

definition sweep_reads :: "json \<Rightarrow> scheduled_sweep \<Rightarrow> bool" where
  "sweep_reads v w \<longleftrightarrow>
     isObject v \<and> string_prop v ''classification'' = Some (sw_classification w) \<and>
     string_prop v ''confidence'' = Some (sw_confidence w) \<and> string_prop v ''eligibleAfter'' = Some (sw_eligibleAfter w) \<and>
     (case sw_executeNowAvailableAt w of
        None \<Rightarrow> get_prop v ''executeNowAvailableAt'' = None
      | Some x \<Rightarrow> null_string v ''executeNowAvailableAt'' x) \<and>
     string_prop v ''id'' = Some (sw_id w) \<and> string_prop v ''originalAmountRaw'' = Some (sw_originalAmountRaw w) \<and>
     string_prop v ''reason'' = Some (sw_reason w) \<and> string_prop v ''remainingAmountRaw'' = Some (sw_remainingAmountRaw w) \<and>
     string_prop v ''status'' = Some (sw_status w)"

fun config_state_name :: "config_state \<Rightarrow> string" where
  "config_state_name Created = ''created''"
| "config_state_name Creating = ''creating''"
| "config_state_name Paused_config = ''paused''"

definition config_reads :: "json \<Rightarrow> loaded_config \<Rightarrow> bool" where
  "config_reads v c \<longleftrightarrow>
     isObject v \<and> string_prop v ''amount'' = Some (lc_amount c) \<and>
     string_prop v ''depositedAmount'' = Some (lc_depositedAmount c) \<and> string_prop v ''keepAmount'' = Some (lc_keepAmount c) \<and>
     null_string v ''nextPeriodLabel'' (lc_nextPeriodLabel c) \<and> null_string v ''expiryTimestamp'' (lc_expiryTimestamp c) \<and>
     null_string v ''periodLengthSeconds'' (lc_periodLengthSeconds c) \<and>
     string_prop v ''policyAccount'' = Some (lc_policyAccount c) \<and> string_prop v ''policySeed'' = Some (lc_policySeed c) \<and>
     string_prop v ''recurringDelegation'' = Some (lc_recurringDelegation c) \<and>
     null_string v ''setupNonce'' (lc_setupNonce c) \<and> string_prop v ''nonce'' = Some (lc_nonce c) \<and>
     null_string v ''startTimestamp'' (lc_startTimestamp c) \<and>
     string_prop v ''state'' = Some (config_state_name (lc_state c)) \<and>
     (case lc_scheduledSweeps c of
        None \<Rightarrow> get_prop v ''scheduledSweeps'' = None
      | Some ws \<Rightarrow> (\<exists>js. get_prop v ''scheduledSweeps'' = Some (JArray js) \<and> list_all2 sweep_reads js ws))"

lemma is_string_iff: "is_string v k \<longleftrightarrow> (\<exists>s. string_prop v k = Some s)"
  by (simp add: is_string_def)

lemma string_or_null_iff: "string_or_null v k \<longleftrightarrow> (\<exists>x. null_string v k x)"
proof
  assume "string_or_null v k"
  then show "\<exists>x. null_string v k x"
    unfolding string_or_null_def is_string_def
  proof
    assume "string_prop v k \<noteq> None"
    then obtain s where "get_prop v k = Some (JString s)"
      by (auto simp: string_prop_def split: option.splits json.splits)
    then have "null_string v k (Some s)" by (simp add: null_string_def)
    then show ?thesis ..
  next
    assume "get_prop v k = Some JNull"
    then have "null_string v k None" by (simp add: null_string_def)
    then show ?thesis ..
  qed
qed (auto simp: string_or_null_def is_string_def null_string_def string_prop_def split: option.splits)

lemma sweep_guard: "isLoadedScheduledSweep v \<longleftrightarrow> (\<exists>w. sweep_reads v w)"
proof
  assume g: "isLoadedScheduledSweep v"
  have "\<exists>x. case x of None \<Rightarrow> get_prop v ''executeNowAvailableAt'' = None | Some y \<Rightarrow> null_string v ''executeNowAvailableAt'' y"
  proof (cases "get_prop v ''executeNowAvailableAt''")
    case None
    then show ?thesis by (intro exI [of _ None]) simp
  next
    case (Some j)
    then obtain y where "null_string v ''executeNowAvailableAt'' y"
      using g by (auto simp: isLoadedScheduledSweep_def string_or_null_iff)
    then show ?thesis by (intro exI [of _ "Some y"]) simp
  qed
  then obtain x where x: "case x of None \<Rightarrow> get_prop v ''executeNowAvailableAt'' = None | Some y \<Rightarrow> null_string v ''executeNowAvailableAt'' y" ..
  let ?s = "\<lambda>k. the (string_prop v k)"
  have "sweep_reads v \<lparr>sw_classification = ?s ''classification'', sw_confidence = ?s ''confidence'',
      sw_eligibleAfter = ?s ''eligibleAfter'', sw_executeNowAvailableAt = x, sw_id = ?s ''id'', sw_lotCount = None,
      sw_originalAmountRaw = ?s ''originalAmountRaw'', sw_reason = ?s ''reason'',
      sw_remainingAmountRaw = ?s ''remainingAmountRaw'', sw_slotId = None, sw_status = ?s ''status''\<rparr>"
    using g x by (auto simp: isLoadedScheduledSweep_def sweep_reads_def is_string_def)
  then show "\<exists>w. sweep_reads v w" ..
next
  assume "\<exists>w. sweep_reads v w"
  then show "isLoadedScheduledSweep v"
    by (auto simp: sweep_reads_def isLoadedScheduledSweep_def is_string_def string_or_null_iff split: option.splits)
qed

lemma sweeps_guard: "list_all isLoadedScheduledSweep js \<longleftrightarrow> (\<exists>ws. list_all2 sweep_reads js ws)"
proof (induction js)
  case (Cons j js)
  have "(\<exists>ws. list_all2 sweep_reads (j # js) ws) \<longleftrightarrow> (\<exists>w. sweep_reads j w) \<and> (\<exists>ws. list_all2 sweep_reads js ws)"
    by (auto simp: list_all2_Cons1)
  with Cons show ?case by (simp add: sweep_guard)
qed simp


section \<open>Labels are exact\<close>

text \<open>The number a decimal label denotes.\<close>

definition label_value :: "string \<Rightarrow> rat" where
  "label_value s =
     (let whole = takeWhile (\<lambda>c. c \<noteq> CHR ''.'') s; fraction = drop (length whole + 1) s in
      of_nat (parse_dec whole) + of_nat (parse_dec fraction) / 10 ^ length fraction)"

lemma parse_dec_append: "parse_dec (s @ t) = parse_dec s * 10 ^ length t + parse_dec t"
proof (induction t rule: rev_induct)
  case (snoc c t)
  have "parse_dec (s @ t @ [c]) = parse_dec (s @ t) * 10 + digit_value c"
    using parse_dec_snoc [of "s @ t" c] by simp
  with snoc show ?case by (simp add: parse_dec_snoc algebra_simps)
qed (simp add: parse_dec_def)

lemma parse_dec_zeros [simp]: "parse_dec (replicate n (CHR ''0'')) = 0"
  by (induction n) (simp_all add: parse_dec_def digit_value_def)

lemma parse_padStart: "parse_dec (padStart n (CHR ''0'') s) = parse_dec s"
  by (simp add: padStart_def parse_dec_append)

lemma strip_zeros_append: "\<exists>m. s = strip_zeros s @ replicate m (CHR ''0'')"
proof -
  let ?z = "takeWhile (\<lambda>c. c = CHR ''0'') (rev s)"
  have "\<forall>c \<in> set (rev ?z). c = CHR ''0''" using set_takeWhileD by fastforce
  then have "replicate (length (rev ?z)) (CHR ''0'') = rev ?z" by (rule replicate_length_same)
  moreover have "s = strip_zeros s @ rev ?z"
    unfolding strip_zeros_def by (metis rev_append rev_rev_ident takeWhile_dropWhile_id)
  ultimately show ?thesis by (intro exI [of _ "length (rev ?z)"]) (simp only:)
qed

lemma strip_zeros_value:
  "(of_nat (parse_dec (strip_zeros s)) / 10 ^ length (strip_zeros s) :: rat) = of_nat (parse_dec s) / 10 ^ length s"
proof -
  obtain m where m: "s = strip_zeros s @ replicate m (CHR ''0'')" using strip_zeros_append by blast
  have "parse_dec s = parse_dec (strip_zeros s) * 10 ^ m" by (subst m) (simp add: parse_dec_append)
  moreover have "length s = length (strip_zeros s) + m" by (subst m) simp
  ultimately show ?thesis by (simp add: power_add)
qed

lemma length_show_dec: "n < 10 ^ Suc k \<Longrightarrow> length (show_dec n) \<le> Suc k"
proof (induction k arbitrary: n)
  case (Suc k)
  show ?case
  proof (cases "n < 10")
    case False
    have "n div 10 < 10 ^ Suc k" using Suc.prems by (simp add: div_less_iff_less_mult)
    from Suc.IH [OF this] False show ?thesis by (subst show_dec.simps) simp
  qed (simp add: show_dec.simps)
qed (simp add: show_dec.simps)

lemma takeWhile_dec: "takeWhile (\<lambda>c. c \<noteq> CHR ''.'') (show_dec n @ t) = show_dec n @ takeWhile (\<lambda>c. c \<noteq> CHR ''.'') t"
proof -
  have "c \<noteq> CHR ''.''" if "c \<in> set (show_dec n)" for c
    using that show_dec_decimal [of n] by (auto simp: decimal_pattern_def list_all_iff digit_char_def)
  then show ?thesis by (simp add: takeWhile_append2)
qed

lemma label_value_whole: "label_value (show_dec n) = of_nat n"
proof -
  have "takeWhile (\<lambda>c. c \<noteq> CHR ''.'') (show_dec n) = show_dec n"
    using takeWhile_dec [of n "[]"] by (simp only: append_Nil2 takeWhile.simps)
  then have "label_value (show_dec n) = of_nat (parse_dec (show_dec n)) + of_nat (parse_dec []) / 10 ^ 0"
    unfolding label_value_def Let_def by (simp only: drop_all list.size le_add1)
  then show ?thesis by (simp add: parse_dec_def [of "[]"])
qed

lemma label_value_fraction: "label_value (show_dec w @ CHR ''.'' # f) = of_nat w + of_nat (parse_dec f) / 10 ^ length f"
proof -
  have "takeWhile (\<lambda>c. c \<noteq> CHR ''.'') (show_dec w @ CHR ''.'' # f) = show_dec w" by (simp add: takeWhile_dec)
  then show ?thesis by (simp add: label_value_def Let_def)
qed

lemma rawTokenAmountToLabel_eq:
  assumes "decimal_pattern s" "whole = parse_dec s div 1000000" "fraction = parse_dec s mod 1000000"
  shows "rawTokenAmountToLabel (Some s) = (if fraction = 0 then show_dec whole
    else show_dec whole @ CHR ''.'' # strip_zeros (padStart 6 (CHR ''0'') (show_dec fraction)))"
proof -
  have "s \<noteq> []" using assms(1) by (simp add: decimal_pattern_def)
  with assms(1) show ?thesis
    unfolding rawTokenAmountToLabel_def Let_def assms(2,3) option.case by (simp only: simp_thms if_False append.simps)
qed

section \<open>Sweeps that are shown\<close>

abbreviation shown_amount :: "scheduled_sweep \<Rightarrow> int" where
  "shown_amount sweep \<equiv> the (sweep_amount sweep)"

definition with_amount :: "scheduled_sweep \<Rightarrow> int \<Rightarrow> scheduled_sweep" where
  "with_amount sweep n = (if shown_amount sweep = n then sweep else sweep\<lparr>sw_remainingAmountRaw := show_dec (nat n)\<rparr>)"

lemma sweep_amount_with: "0 \<le> n \<Longrightarrow> sweep_amount sweep = Some m \<Longrightarrow> sweep_amount (with_amount sweep n) = Some n"
  by (auto simp: with_amount_def parseUnsignedRawTokenAmount_def split: if_splits)

text \<open>The loop fills the surplus in order: whole sweeps, then one that may be cut to what remains.\<close>

primrec fill :: "int \<Rightarrow> int list \<Rightarrow> int list" where
  "fill surplus [] = []"
| "fill surplus (a # as) =
     min a surplus # (if surplus - min a surplus < EARN_AUTODEPOSIT_MIN_VISIBLE_SCHEDULED_SWEEP_RAW then []
                      else fill (surplus - min a surplus) as)"

abbreviation (input) least_shown :: int where
  "least_shown \<equiv> EARN_AUTODEPOSIT_MIN_VISIBLE_SCHEDULED_SWEEP_RAW"

lemma visible_loop_fill:
  "list_all above_display_threshold sweeps \<Longrightarrow> least_shown \<le> surplus \<Longrightarrow>
   visible_loop surplus sweeps = map2 with_amount sweeps (fill surplus (map shown_amount sweeps))"
proof (induction sweeps arbitrary: surplus)
  case (Cons w ws)
  obtain a where a: "sweep_amount w = Some a" "least_shown \<le> a"
    using Cons.prems(1) by (auto simp: above_display_threshold_def split: option.splits)
  have "(if a < surplus then a else surplus) = min a surplus" by simp
  moreover have "\<not> min a surplus < least_shown" using a(2) Cons.prems(2) by simp
  ultimately show ?case using Cons a(1) by (simp add: Let_def with_amount_def)
qed simp

lemma fill_props:
  assumes "\<forall>a \<in> set as. least_shown \<le> a" "least_shown \<le> surplus"
  shows "length (fill surplus as) \<le> length as" "\<forall>b \<in> set (fill surplus as). least_shown \<le> b"
    "sum_list (fill surplus as) \<le> surplus" "list_all2 (\<le>) (fill surplus as) (take (length (fill surplus as)) as)"
    "butlast (fill surplus as) = take (length (fill surplus as) - 1) as"
    "sum_list (fill surplus as) = sum_list as \<or> surplus - sum_list (fill surplus as) < least_shown"
proof -
  have pos: "0 < least_shown" by (simp add: EARN_AUTODEPOSIT_MIN_VISIBLE_SCHEDULED_SWEEP_RAW_def)
  show "length (fill surplus as) \<le> length as" by (induction as arbitrary: surplus) auto
  show "\<forall>b \<in> set (fill surplus as). least_shown \<le> b"
    using assms by (induction as arbitrary: surplus) (auto simp: not_less split: if_splits)
  show "sum_list (fill surplus as) \<le> surplus"
    using assms
  proof (induction as arbitrary: surplus)
    case (Cons a as)
    have "sum_list (fill (surplus - min a surplus) as) \<le> surplus - min a surplus" if "least_shown \<le> surplus - min a surplus"
      using Cons.IH [OF _ that] Cons.prems(1) by simp
    then show ?case by (auto simp: not_less)
  qed (use pos in simp)
  show "list_all2 (\<le>) (fill surplus as) (take (length (fill surplus as)) as)"
    by (induction as arbitrary: surplus) auto
  show "butlast (fill surplus as) = take (length (fill surplus as) - 1) as"
    using assms pos
  proof (induction as arbitrary: surplus)
    case (Cons a as)
    show ?case
    proof (cases "surplus - min a surplus < least_shown \<or> as = []")
      case False
      then have "fill (surplus - min a surplus) as \<noteq> []" by (cases as) simp_all
      moreover have "min a surplus = a" using False pos by (simp add: min_def split: if_splits)
      ultimately show ?thesis using False Cons.IH [of "surplus - min a surplus"] Cons.prems
        by (cases "fill (surplus - min a surplus) as") auto
    qed auto
  qed simp
  show "sum_list (fill surplus as) = sum_list as \<or> surplus - sum_list (fill surplus as) < least_shown"
    using assms
  proof (induction as arbitrary: surplus)
    case (Cons a as)
    show ?case
    proof (cases "surplus - min a surplus < least_shown")
      case False
      then have "min a surplus = a" using pos by (simp add: min_def split: if_splits)
      then show ?thesis using False Cons.IH [of "surplus - a"] Cons.prems by auto
    qed simp
  qed simp
qed

lemma shown_amounts_fill:
  assumes "list_all above_display_threshold F" "least_shown \<le> surplus"
  shows "map shown_amount (visible_loop surplus F) = fill surplus (map shown_amount F)"
proof -
  have amounts: "\<forall>a \<in> set (map shown_amount F). least_shown \<le> a"
    using assms(1) by (auto simp: list_all_iff above_display_threshold_def split: option.splits)
  have pos: "0 < least_shown" by (simp add: EARN_AUTODEPOSIT_MIN_VISIBLE_SCHEDULED_SWEEP_RAW_def)
  have "map shown_amount (map2 with_amount F bs) = take (length F) bs" if "\<forall>b \<in> set bs. least_shown \<le> b" for bs
    using that assms(1)
  proof (induction F arbitrary: bs)
    case (Cons w ws)
    show ?case
    proof (cases bs)
      case (Cons b bs')
      moreover obtain m where "sweep_amount w = Some m"
        using Cons.prems(2) by (auto simp: above_display_threshold_def split: option.splits)
      moreover have "0 \<le> b" using Cons.prems(1) Cons pos by auto
      ultimately show ?thesis using Cons.IH [of bs'] Cons.prems sweep_amount_with [of b w] by simp
    qed simp
  qed simp
  from this [OF fill_props(2) [OF amounts assms(2)]] show ?thesis
    using fill_props(1) [OF amounts assms(2)] by (simp add: visible_loop_fill [OF assms])
qed


section \<open>Further lemmas\<close>

text \<open>A sweep in execution hides the scheduled ones, whose funds it is consuming.\<close>

lemma displayable_not_twice:
  assumes "w \<in> set (getDisplayableEarnAutodepositScheduledSweeps status ws)" "isScheduledSweepExecuting w"
    "v \<in> set (getDisplayableEarnAutodepositScheduledSweeps status ws)"
  shows "sw_status v \<noteq> ''scheduled''"
proof -
  have "w \<in> set (case ws of None \<Rightarrow> [] | Some xs \<Rightarrow> xs)"
    using assms(1) by (auto simp: getDisplayableEarnAutodepositScheduledSweeps_def Let_def split: if_splits)
  then have "list_ex isScheduledSweepExecuting (case ws of None \<Rightarrow> [] | Some xs \<Rightarrow> xs)"
    using assms(2) by (auto simp: list_ex_iff)
  then show ?thesis using assms(3)
    by (auto simp: getDisplayableEarnAutodepositScheduledSweeps_def Let_def split: if_splits)
qed

text \<open>The next period is the first boundary after now, or the start when it has not come yet.\<close>

lemma next_period_is_next:
  fixes start period :: string
  defines "s \<equiv> int (parse_dec start) * 1000" and "p \<equiv> int (parse_dec period) * 1000"
  assumes "formatNextPeriodLabel f nowMs (Some start) (Some period) = Some label"
  shows "\<exists>k. 0 \<le> k \<and> label = f (s + k * p) \<and> nowMs < s + k * p \<and> (0 < k \<longrightarrow> s + (k - 1) * p \<le> nowMs)"
proof -
  have p: "0 < p" and label: "label = f (s + (if nowMs < s then 0 else (nowMs - s) div p + 1) * p)"
    using assms(3) unfolding formatNextPeriodLabel_def Let_def s_def p_def by (auto split: if_splits)
  show ?thesis
  proof (cases "nowMs < s")
    case False
    have "s + q * p \<le> nowMs \<and> nowMs < s + (q + 1) * p" if "q * p + r = nowMs - s" "0 \<le> r" "r < p" for q r
      using that by (simp add: distrib_right)
    from this [OF div_mult_mod_eq] p
    have "s + (nowMs - s) div p * p \<le> nowMs \<and> nowMs < s + ((nowMs - s) div p + 1) * p" by simp
    moreover have "0 \<le> (nowMs - s) div p" using False p by (simp add: pos_imp_zdiv_nonneg_iff)
    ultimately show ?thesis using label False by (intro exI [of _ "(nowMs - s) div p + 1"]) simp
  qed (use label in \<open>intro exI [of _ 0], simp\<close>)
qed

text \<open>The guard of a sweep does not look at two of the typed fields.\<close>

lemma sweep_guard_ignores_slotId:
  "isLoadedScheduledSweep (JObject
     [(''classification'', JString []), (''confidence'', JString []), (''eligibleAfter'', JString []), (''id'', JString []),
      (''lotCount'', JString ''many''), (''originalAmountRaw'', JString []), (''reason'', JString []),
      (''remainingAmountRaw'', JString []), (''slotId'', JBool True), (''status'', JString [])])"
  by code_simp

end
