(* ===== verification/Spending_Limits.thy ===== *)
theory Spending_Limits
  imports Autodeposit_State
begin

text \<open>
  Spending limits of a smart account, \<open>packages/smart-account-vaults/src/spending-limits.ts\<close>: what is left of
  a limit now, when it is reset next, and how token amounts and periods are printed.  Times and
  periods are numbers of seconds (rationals); a quotient by zero is infinite.
\<close>

section \<open>Limits\<close>

datatype limit_period = One_time | Day | Week | Month | Custom

definition getSpendingLimitPeriodSeconds :: "limit_period \<Rightarrow> rat option" where
  "getSpendingLimitPeriodSeconds period =
     (case period of
        One_time \<Rightarrow> None
      | Day \<Rightarrow> Some (24 * 60 * 60)
      | Week \<Rightarrow> Some (7 * 24 * 60 * 60)
      | Month \<Rightarrow> Some (30 * 24 * 60 * 60)
      | Custom \<Rightarrow> None)"

text \<open>\<open>args.periodSeconds ?? getSpendingLimitPeriodSeconds(args.period)\<close>.\<close>

definition reset_period :: "limit_period \<Rightarrow> rat option \<Rightarrow> rat option" where
  "reset_period period periodSeconds =
     (case periodSeconds of Some p \<Rightarrow> Some p | None \<Rightarrow> getSpendingLimitPeriodSeconds period)"

text \<open>\<open>BigInt\<close> of an infinite number of periods throws.\<close>

datatype limit_error = Range_error

definition getEffectiveSpendingLimitRemainingAmount ::
    "int \<Rightarrow> bool \<Rightarrow> rat \<Rightarrow> rat \<Rightarrow> limit_period \<Rightarrow> rat option \<Rightarrow> int \<Rightarrow> limit_error + int" where
  "getEffectiveSpendingLimitRemainingAmount amount accumulateUnused lastReset now period periodSeconds remainingAmount =
     (case reset_period period periodSeconds of
        None \<Rightarrow> Inr remainingAmount
      | Some resetPeriod \<Rightarrow>
          let elapsed = now - lastReset in
          if elapsed \<le> resetPeriod then Inr remainingAmount
          else if resetPeriod = 0 then (if accumulateUnused then Inl Range_error else Inr amount)
          else
            let periodsPassed = \<lfloor>elapsed / resetPeriod\<rfloor> in
            if periodsPassed \<le> 0 then Inr remainingAmount
            else if accumulateUnused then Inr (remainingAmount + amount * periodsPassed)
            else Inr amount)"

definition getSpendingLimitNextReset :: "rat \<Rightarrow> rat \<Rightarrow> limit_period \<Rightarrow> rat option \<Rightarrow> js_number option" where
  "getSpendingLimitNextReset lastReset now period periodSeconds =
     (case reset_period period periodSeconds of
        None \<Rightarrow> None
      | Some resetPeriod \<Rightarrow>
          if resetPeriod = 0 then Some Non_finite
          else
            let elapsed = max 0 (now - lastReset); periodsElapsed = \<lfloor>elapsed / resetPeriod\<rfloor> in
            Some (Finite (lastReset + of_int (periodsElapsed + 1) * resetPeriod)))"

section \<open>Printing\<close>

definition show_int :: "int \<Rightarrow> string" where
  "show_int n = (if n < 0 then ''-'' @ show_dec (nat (- n)) else show_dec (nat n))"

text \<open>Division of \<open>BigInt\<close>s truncates towards zero.\<close>

definition formatTokenAmount :: "int \<Rightarrow> nat \<Rightarrow> string" where
  "formatTokenAmount amountRaw decimals =
     (if decimals = 0 then show_int amountRaw
      else
        let base = 10 ^ decimals;
            whole = sgn amountRaw * (\<bar>amountRaw\<bar> div base);
            fraction = sgn amountRaw * (\<bar>amountRaw\<bar> mod base) in
        if fraction = 0 then show_int whole
        else show_int whole @ ''.'' @ strip_zeros (padStart decimals (CHR ''0'') (show_int fraction)))"

text \<open>\<open>to_number\<close> stands for \<open>Number(text)\<close>.\<close>

definition tokenAmountToNumber :: "(string \<Rightarrow> js_number) \<Rightarrow> int \<Rightarrow> nat \<Rightarrow> rat option" where
  "tokenAmountToNumber to_number amountRaw decimals =
     (case to_number (formatTokenAmount amountRaw decimals) of Finite q \<Rightarrow> Some q | Non_finite \<Rightarrow> None)"

definition toSpendingLimitPeriodLabel :: "limit_period \<Rightarrow> js_number option \<Rightarrow> string" where
  "toSpendingLimitPeriodLabel period periodSeconds =
     (case period of
        One_time \<Rightarrow> ''one-time''
      | Day \<Rightarrow> ''day''
      | Week \<Rightarrow> ''week''
      | Month \<Rightarrow> ''month''
      | Custom \<Rightarrow>
          (case periodSeconds of
             Some (Finite s) \<Rightarrow>
               let days = s / (24 * 60 * 60) in
               if isInteger (Finite days) then show_int \<lfloor>days\<rfloor> @ '' day'' @ (if days = 1 then [] else ''s'') else ''custom''
           | _ \<Rightarrow> ''custom''))"

section \<open>A limit is reset period by period\<close>

text \<open>One reset: the amount is granted anew, on top of what is left when unused amounts accumulate.\<close>

definition reset_once :: "int \<Rightarrow> bool \<Rightarrow> int \<Rightarrow> int" where
  "reset_once amount accumulateUnused remaining = (if accumulateUnused then remaining + amount else amount)"

lemma reset_iterated:
  "(reset_once amount acc ^^ n) remaining =
     (if n = 0 then remaining else if acc then remaining + amount * int n else amount)"
  by (induction n) (auto simp: reset_once_def algebra_simps)

lemma effective_iterated:
  assumes "reset_period period ps = Some p" "0 < p" "now - lastReset \<noteq> p"
  shows "getEffectiveSpendingLimitRemainingAmount amount acc lastReset now period ps remaining =
    Inr ((reset_once amount acc ^^ nat \<lfloor>(now - lastReset) / p\<rfloor>) remaining)"
proof (cases "now - lastReset < p")
  case True
  then have "\<lfloor>(now - lastReset) / p\<rfloor> \<le> 0" using assms(2) by (simp add: floor_le_iff)
  then have "nat \<lfloor>(now - lastReset) / p\<rfloor> = 0" by simp
  with True show ?thesis using assms(1)
    by (simp add: getEffectiveSpendingLimitRemainingAmount_def Let_def)
next
  case False
  then have "1 \<le> \<lfloor>(now - lastReset) / p\<rfloor>" using assms(2) by (simp add: le_floor_iff)
  with False show ?thesis using assms
    by (simp add: getEffectiveSpendingLimitRemainingAmount_def Let_def reset_iterated)
qed

lemma next_reset_bounds:
  assumes "0 < (p :: rat)" "t = lastReset + of_int (\<lfloor>(now - lastReset) / p\<rfloor> + 1) * p"
  shows "now < t" "t \<le> now + p" "now \<le> n \<Longrightarrow> n < t \<Longrightarrow> \<lfloor>(n - lastReset) / p\<rfloor> = \<lfloor>(now - lastReset) / p\<rfloor>"
proof -
  define k where "k = \<lfloor>(now - lastReset) / p\<rfloor>"
  have "of_int k \<le> (now - lastReset) / p" "(now - lastReset) / p < of_int k + 1"
    unfolding k_def using floor_correct [of "(now - lastReset) / p"] by simp_all
  then have k: "of_int k * p \<le> now - lastReset" "now - lastReset < (of_int k + 1) * p"
    using assms(1) by (simp_all add: pos_le_divide_eq pos_divide_less_eq)
  show "now < t" "t \<le> now + p" using k by (simp_all add: assms(2) k_def [symmetric] algebra_simps)
  assume n: "now \<le> n" "n < t"
  then have "of_int k * p \<le> n - lastReset" "n - lastReset < (of_int k + 1) * p"
    using k by (simp_all add: assms(2) k_def [symmetric] algebra_simps)
  then show "\<lfloor>(n - lastReset) / p\<rfloor> = k" using assms(1)
    by (intro floor_unique) (simp_all add: pos_le_divide_eq pos_divide_less_eq)
qed

text \<open>
  C39.  A spending limit is reset once for every full period since its last reset, and what is shown
  stays true until the reset shown next.  For a positive period, away from the instant at which the
  first period has just elapsed, the remaining amount is that of resetting the limit period by
  period; the next reset lies after now, at most one period ahead, and at every instant before it
  the remaining amount is the same as now.
\<close>

theorem spending_limit_until_reset:
  fixes amount remaining :: int and acc :: bool
  assumes "reset_period period ps = Some p" "0 < p" "lastReset \<le> now" "now - lastReset \<noteq> p"
  defines "left \<equiv> \<lambda>n. getEffectiveSpendingLimitRemainingAmount amount acc lastReset n period ps remaining"
  shows "left now = Inr ((reset_once amount acc ^^ nat \<lfloor>(now - lastReset) / p\<rfloor>) remaining) \<and>
    (\<exists>t. getSpendingLimitNextReset lastReset now period ps = Some (Finite t) \<and> now < t \<and> t \<le> now + p \<and>
         (\<forall>n. now \<le> n \<and> n < t \<longrightarrow> left n = left now))"
proof -
  let ?k = "\<lambda>n. \<lfloor>(n - lastReset) / p\<rfloor>"
  let ?t = "lastReset + of_int (?k now + 1) * p"
  note t = next_reset_bounds [where now = now and lastReset = lastReset, OF assms(2) refl]
  have reset: "getSpendingLimitNextReset lastReset now period ps = Some (Finite ?t)"
    using assms(1-3) by (simp add: getSpendingLimitNextReset_def Let_def)
  have same: "left n = left now" if n: "now \<le> n" "n < ?t" for n
  proof (cases "now - lastReset < p")
    case True
    then have "?k now = 0" using assms(2,3) by (simp add: floor_eq_iff)
    then have "n - lastReset \<noteq> p" using n(2) by simp
    then show ?thesis unfolding left_def
      using effective_iterated [OF assms(1,2)] assms(4) t(3) [OF n] by simp
  next
    case False
    then have "n - lastReset \<noteq> p" using n(1) assms(4) by simp
    then show ?thesis unfolding left_def
      using effective_iterated [OF assms(1,2)] assms(4) t(3) [OF n] by simp
  qed
  show ?thesis using effective_iterated [OF assms(1,2,4)] reset t(1,2) same unfolding left_def by blast
qed

theorem spending_limit_until_reset_witness:
  "getEffectiveSpendingLimitRemainingAmount 50 True 0 200000 Day None 7 = Inr (7 + 50 * 2) \<and>
   (\<exists>t. getSpendingLimitNextReset 0 200000 Day None = Some (Finite t) \<and> 200000 < t \<and> t \<le> 200000 + 86400)"
proof -
  have p: "reset_period Day None = Some 86400" by (simp add: reset_period_def getSpendingLimitPeriodSeconds_def)
  have "\<lfloor>(200000 - 0) / 86400 :: rat\<rfloor> = 2" by (simp add: floor_eq_iff)
  then show ?thesis
    using spending_limit_until_reset [OF p, of 0 200000 50 True 7] by (simp add: reset_iterated) blast
qed

text \<open>
  At the excluded instant the two functions disagree: one period after the last reset the remaining
  amount is not reset yet, while the next reset is shown a whole period ahead.
\<close>

lemma boundary_disagrees:
  assumes "reset_period period ps = Some p" "0 < p" "now = lastReset + p"
  shows "getEffectiveSpendingLimitRemainingAmount amount acc lastReset now period ps remaining = Inr remaining"
    "getSpendingLimitNextReset lastReset now period ps = Some (Finite (now + p))"
  using assms
  by (simp_all add: getEffectiveSpendingLimitRemainingAmount_def getSpendingLimitNextReset_def Let_def max_def)

section \<open>Amounts are printed exactly\<close>

lemma formatTokenAmount_nat:
  assumes "0 < d" "w = n div 10 ^ d" "f = n mod 10 ^ d"
  shows "formatTokenAmount (int n) d = (if f = 0 then show_dec w
    else show_dec w @ CHR ''.'' # strip_zeros (padStart d (CHR ''0'') (show_dec f)))"
proof -
  have "sgn (int n) * (\<bar>int n\<bar> div 10 ^ d) = int w" "sgn (int n) * (\<bar>int n\<bar> mod 10 ^ d) = int f"
    using assms(2,3) by (cases n; simp add: zdiv_int zmod_int)+
  then have "formatTokenAmount (int n) d = (if int f = 0 then show_int (int w)
      else show_int (int w) @ ''.'' @ strip_zeros (padStart d (CHR ''0'') (show_int (int f))))"
    using assms(1) unfolding formatTokenAmount_def Let_def by (simp only: if_False gr_implies_not0)
  then show ?thesis by (simp add: show_int_def)
qed

text \<open>The label of an autodeposit amount is the general format with six decimals.\<close>

lemma label_is_token_format:
  assumes "decimal_pattern s"
  shows "rawTokenAmountToLabel (Some s) = formatTokenAmount (int (parse_dec s)) 6"
  using rawTokenAmountToLabel_eq [OF assms refl refl] formatTokenAmount_nat [of 6 _ "parse_dec s", OF _ refl refl]
  by simp

text \<open>
  C40.  Token amounts are printed exactly: read back as a decimal number, the text of a non-negative
  raw amount with any number of decimals is the amount divided by that power of ten; and the
  labels of autodeposit amounts are this text for six decimals.
\<close>

theorem token_amount_exact:
  "label_value (formatTokenAmount (int n) d) = of_nat n / 10 ^ d \<and>
   rawTokenAmountToLabel (Some (show_dec n)) = formatTokenAmount (int n) 6"
proof
  show "rawTokenAmountToLabel (Some (show_dec n)) = formatTokenAmount (int n) 6"
    by (simp add: label_is_token_format)
  show "label_value (formatTokenAmount (int n) d) = of_nat n / 10 ^ d"
  proof (cases "d = 0")
    case True
    then show ?thesis by (simp add: formatTokenAmount_def show_int_def label_value_whole)
  next
    case False
    define w f where "w = n div 10 ^ d" and "f = n mod 10 ^ d"
    have "n = w * 10 ^ d + f" unfolding w_def f_def by (rule div_mult_mod_eq [symmetric])
    then have split: "(of_nat n / 10 ^ d :: rat) = of_nat w + of_nat f / 10 ^ d"
      by (simp add: add_divide_distrib)
    obtain e where e: "d = Suc e" using False by (cases d) simp_all
    have "f < 10 ^ Suc e" unfolding f_def e by simp
    then have "length (padStart d (CHR ''0'') (show_dec f)) = d"
      using length_show_dec [of f e] by (simp add: padStart_def e)
    then have "(of_nat (parse_dec (strip_zeros (padStart d (CHR ''0'') (show_dec f)))) /
        10 ^ length (strip_zeros (padStart d (CHR ''0'') (show_dec f))) :: rat) = of_nat f / 10 ^ d"
      by (simp add: strip_zeros_value parse_padStart)
    then show ?thesis
      using formatTokenAmount_nat [OF _ w_def f_def] False
      by (cases "f = 0") (simp_all add: label_value_whole label_value_fraction split)
  qed
qed

end
