(* ===== verification/Earnings_Index.thy ===== *)
theory Earnings_Index
  imports Js_Values "HOL-Library.Multiset"
begin

text \<open>
  The lookups of \<open>lib/yield-optimization/earnings-calculator.server.ts\<close>: events in accounting order, the
  binary search over sorted times, the APY index per reserve and the running principal.  Times are
  milliseconds, raw amounts integers, floating-point quantities exact rationals.  The midpoint
  \<open>(low + high) >> 1\<close> is integer division by two, as for every array shorter than \<open>2 ^ 30\<close> elements.
\<close>

section \<open>Events\<close>

datatype position_event_type = Deposit_event | Withdrawal_event

record position_event =
  pv_amountRaw :: int
  pv_confirmedAt :: int
  pv_confirmedSlot :: "int option"
  pv_holdingEventId :: "int option"
  pv_positionId :: "int option"
  pv_initializesPosition :: "bool option"
  pv_principalDeltaRaw :: "int option"
  pv_settlesPosition :: "bool option"
  pv_liquidityMint :: "string option"
  pv_type :: position_event_type

datatype history_error = Order_ambiguous | Delta_invalid | Position_incomplete

text \<open>The comparator of \<open>sortEarningsEvents\<close>.\<close>

definition compare_events :: "position_event \<Rightarrow> position_event \<Rightarrow> history_error + int" where
  "compare_events left right =
     (let timeDelta = pv_confirmedAt left - pv_confirmedAt right;
          flag = (\<lambda>b. b = Some True);
          by_holding =
            (case (pv_holdingEventId left, pv_holdingEventId right) of
               (Some l, Some r) \<Rightarrow> if l \<noteq> r then Some (if l < r then -1 else 1) else None
             | _ \<Rightarrow> None);
          by_slot =
            (case (pv_confirmedSlot left, pv_confirmedSlot right) of
               (Some l, Some r) \<Rightarrow> if l \<noteq> r then Some (if l < r then -1 else 1) else None
             | _ \<Rightarrow> None) in
      if timeDelta \<noteq> 0 then Inr timeDelta
      else case by_slot of Some c \<Rightarrow> Inr c | None \<Rightarrow>
        (case by_holding of Some c \<Rightarrow> Inr c | None \<Rightarrow>
          (if pv_type left = pv_type right \<and> \<not> flag (pv_initializesPosition left) \<and> \<not> flag (pv_initializesPosition right) \<and>
              \<not> flag (pv_settlesPosition left) \<and> \<not> flag (pv_settlesPosition right)
           then Inr 0 else Inl Order_ambiguous)))"

text \<open>
  \<open>Array.prototype.sort\<close> with a comparator that may throw, as a stable insertion sort.  An engine may
  compare other pairs; when the comparator orders every pair consistently, each engine returns the
  same list.
\<close>

fun insert_by :: "('a \<Rightarrow> 'a \<Rightarrow> 'e + int) \<Rightarrow> 'a \<Rightarrow> 'a list \<Rightarrow> 'e + 'a list" where
  "insert_by cmp x [] = Inr [x]"
| "insert_by cmp x (y # ys) =
     rbind (cmp x y) (\<lambda>c. if c < 0 then Inr (x # y # ys) else rbind (insert_by cmp x ys) (\<lambda>zs. Inr (y # zs)))"

fun sort_by :: "('a \<Rightarrow> 'a \<Rightarrow> 'e + int) \<Rightarrow> 'a list \<Rightarrow> 'a list \<Rightarrow> 'e + 'a list" where
  "sort_by cmp acc [] = Inr acc"
| "sort_by cmp acc (x # xs) = rbind (insert_by cmp x acc) (\<lambda>acc'. sort_by cmp acc' xs)"

definition sortEarningsEvents :: "position_event list \<Rightarrow> history_error + position_event list" where
  "sortEarningsEvents events = sort_by compare_events [] events"

section \<open>Binary search\<close>

function search_loop :: "int list \<Rightarrow> int \<Rightarrow> int \<Rightarrow> int \<Rightarrow> int \<Rightarrow> int" where
  "search_loop ts atMs low high found =
     (if low \<le> high then
        let mid = (low + high) div 2 in
        if ts ! nat mid \<le> atMs then search_loop ts atMs (mid + 1) high mid
        else search_loop ts atMs low (mid - 1) found
      else found)"
  by pat_completeness auto
termination
  by (relation "measure (\<lambda>(ts, atMs, low, high, found). nat (high - low + 1))") auto

declare search_loop.simps [simp del]

definition lastIndexAtOrBefore :: "int list \<Rightarrow> int \<Rightarrow> int" where
  "lastIndexAtOrBefore ts atMs = search_loop ts atMs 0 (int (length ts) - 1) (-1)"

section \<open>APY samples\<close>

record apy_sample =
  as_observedAt :: int
  as_reserve :: "string option"
  as_supplyApy :: rat

record apy_series =
  sr_apys :: "rat list"
  sr_positions :: "int list"
  sr_times :: "int list"

definition makeSeries :: apy_series where
  "makeSeries = \<lparr>sr_apys = [], sr_positions = [], sr_times = []\<rparr>"

definition series_push :: "apy_sample \<Rightarrow> nat \<Rightarrow> apy_series \<Rightarrow> apy_series" where
  "series_push sample position series =
     \<lparr>sr_apys = sr_apys series @ [as_supplyApy sample], sr_positions = sr_positions series @ [int position],
      sr_times = sr_times series @ [as_observedAt sample]\<rparr>"

record apy_index =
  ix_all :: apy_series
  ix_byReserve :: "(string, apy_series) jsmap"
  ix_unscoped :: apy_series

definition index_sample :: "apy_index \<Rightarrow> nat \<times> apy_sample \<Rightarrow> apy_index" where
  "index_sample index p =
     (case p of (position, sample) \<Rightarrow>
        let index1 = index\<lparr>ix_all := series_push sample position (ix_all index)\<rparr> in
        case as_reserve sample of
          None \<Rightarrow> index1\<lparr>ix_unscoped := series_push sample position (ix_unscoped index1)\<rparr>
        | Some reserve \<Rightarrow>
            let series = (case jm_get (ix_byReserve index1) reserve of None \<Rightarrow> makeSeries | Some series \<Rightarrow> series) in
            index1\<lparr>ix_byReserve := jm_set reserve (series_push sample position series) (ix_byReserve index1)\<rparr>)"

definition getApyIndex :: "apy_sample list \<Rightarrow> apy_index" where
  "getApyIndex samples =
     foldl index_sample \<lparr>ix_all = makeSeries, ix_byReserve = [], ix_unscoped = makeSeries\<rparr> (enumerate 0 samples)"

definition getApyAt :: "apy_sample list \<Rightarrow> string option \<Rightarrow> int \<Rightarrow> rat option" where
  "getApyAt samples reserve atMs =
     (let index = getApyIndex samples in
      if \<not> truthy reserve then
        let found = lastIndexAtOrBefore (sr_times (ix_all index)) atMs in
        if found = -1 then None else Some (sr_apys (ix_all index) ! nat found)
      else
        let scoped = jm_get (ix_byReserve index) (the reserve);
            scopedFound = (case scoped of Some series \<Rightarrow> lastIndexAtOrBefore (sr_times series) atMs | None \<Rightarrow> -1);
            unscopedFound = lastIndexAtOrBefore (sr_times (ix_unscoped index)) atMs;
            scopedPosition = (case scoped of
                                Some series \<Rightarrow> if scopedFound \<noteq> -1 then sr_positions series ! nat scopedFound else -1
                              | None \<Rightarrow> -1);
            unscopedPosition = (if unscopedFound = -1 then -1 else sr_positions (ix_unscoped index) ! nat unscopedFound) in
        if scopedPosition = -1 \<and> unscopedPosition = -1 then None
        else case scoped of
          Some series \<Rightarrow>
            Some (if scopedPosition > unscopedPosition then sr_apys series ! nat scopedFound
                  else sr_apys (ix_unscoped index) ! nat unscopedFound)
        | None \<Rightarrow> Some (sr_apys (ix_unscoped index) ! nat unscopedFound))"

section \<open>Principal\<close>

datatype principal_clamp = Clamp_total | Clamp_per_mint | Clamp_position

definition clampedSubtract :: "int \<Rightarrow> int \<Rightarrow> int" where
  "clampedSubtract current amount = (if current > amount then current - amount else 0)"

text \<open>\<open>String(event.positionId)\<close> and the mint are the two kinds of keys of the running map.\<close>

datatype principal_key = Position_key "int option" | Mint_key string

record principal_state =
  pr_byMint :: "(principal_key, int) jsmap"
  pr_total :: int

definition principal_amount :: "position_event \<Rightarrow> history_error + int" where
  "principal_amount event =
     (case pv_principalDeltaRaw event of
        None \<Rightarrow> Inr (pv_amountRaw event)
      | Some delta \<Rightarrow>
          if (if pv_type event = Deposit_event then delta < 0 else delta > 0) then Inl Delta_invalid
          else Inr (if pv_type event = Deposit_event then delta else - delta))"

definition principal_step :: "principal_clamp \<Rightarrow> position_event \<Rightarrow> principal_state \<Rightarrow> history_error + principal_state" where
  "principal_step clamp event s =
     rbind (principal_amount event) (\<lambda>amount.
       if clamp = Clamp_total then
         Inr (s\<lparr>pr_total := (if pv_type event = Deposit_event then pr_total s + amount
                            else clampedSubtract (pr_total s) amount)\<rparr>)
       else
         let mint = (if clamp = Clamp_position then Position_key (pv_positionId event)
                     else Mint_key (case pv_liquidityMint event of Some m \<Rightarrow> m | None \<Rightarrow> [])) in
         if clamp = Clamp_position \<and> (pv_positionId event = None \<or> pv_initializesPosition event = None) then
           Inl Position_incomplete
         else if clamp = Clamp_position \<and> \<not> jm_has (pr_byMint s) mint \<and>
                 (pv_type event \<noteq> Deposit_event \<or> pv_initializesPosition event \<noteq> Some True) then
           Inl Position_incomplete
         else
           let current = (case jm_get (pr_byMint s) mint of Some c \<Rightarrow> c | None \<Rightarrow> 0);
               nxt = (if pv_settlesPosition event = Some True then 0
                      else if pv_type event = Deposit_event then
                        (if clamp = Clamp_position \<and> pv_initializesPosition event = Some True then 0 else current) + amount
                      else clampedSubtract current amount) in
           Inr \<lparr>pr_byMint = jm_set mint nxt (pr_byMint s), pr_total = pr_total s + (nxt - current)\<rparr>)"

primrec principal_totals ::
    "principal_clamp \<Rightarrow> position_event list \<Rightarrow> principal_state \<Rightarrow> history_error + int list" where
  "principal_totals clamp [] s = Inr []"
| "principal_totals clamp (event # events) s =
     rbind (principal_step clamp event s) (\<lambda>s1.
       rbind (principal_totals clamp events s1) (\<lambda>totals. Inr (pr_total s1 # totals)))"

record principal_index =
  pi_totals :: "int list"
  pi_times :: "int list"

definition getPrincipalIndex :: "position_event list \<Rightarrow> principal_clamp \<Rightarrow> history_error + principal_index" where
  "getPrincipalIndex events clamp =
     rbind (sortEarningsEvents events) (\<lambda>sorted_events.
       rbind (principal_totals clamp sorted_events \<lparr>pr_byMint = [], pr_total = 0\<rparr>) (\<lambda>totals.
         Inr \<lparr>pi_totals = totals, pi_times = map pv_confirmedAt sorted_events\<rparr>))"

definition principalAt :: "position_event list \<Rightarrow> int \<Rightarrow> principal_clamp \<Rightarrow> history_error + int" where
  "principalAt events atMs clamp =
     rbind (getPrincipalIndex events clamp) (\<lambda>index.
       let found = lastIndexAtOrBefore (pi_times index) atMs in
       Inr (if found = -1 then 0 else pi_totals index ! nat found))"

section \<open>Correctness of the search\<close>

lemma takeWhile_bound:
  assumes "sorted ts" "i < length ts"
  shows "i < length (takeWhile (\<lambda>t. t \<le> u) ts) \<longleftrightarrow> ts ! i \<le> (u :: int)"
proof
  assume "i < length (takeWhile (\<lambda>t. t \<le> u) ts)"
  then show "ts ! i \<le> u" by (metis nth_mem set_takeWhileD takeWhile_nth)
next
  assume le: "ts ! i \<le> u"
  show "i < length (takeWhile (\<lambda>t. t \<le> u) ts)"
  proof (rule ccontr)
    assume "\<not> ?thesis"
    then have "length (takeWhile (\<lambda>t. t \<le> u) ts) \<le> i" by simp
    then have "ts ! length (takeWhile (\<lambda>t. t \<le> u) ts) \<le> ts ! i" using assms by (simp add: sorted_nth_mono)
    moreover have "\<not> ts ! length (takeWhile (\<lambda>t. t \<le> u) ts) \<le> u"
      using assms(2) \<open>length (takeWhile (\<lambda>t. t \<le> u) ts) \<le> i\<close> by (intro nth_length_takeWhile) simp
    ultimately show False using le by simp
  qed
qed

lemma search_loop_spec:
  assumes "sorted ts" "0 \<le> low" "high < int (length ts)" "low \<le> high + 1" "found = low - 1"
    and "low \<le> int (length (takeWhile (\<lambda>t. t \<le> u) ts))" "int (length (takeWhile (\<lambda>t. t \<le> u) ts)) \<le> high + 1"
  shows "search_loop ts u low high found = int (length (takeWhile (\<lambda>t. t \<le> u) ts)) - 1"
  using assms
proof (induction ts u low high found rule: search_loop.induct)
  case (1 ts u low high found)
  let ?n = "length (takeWhile (\<lambda>t. t \<le> u) ts)"
  show ?case
  proof (cases "low \<le> high")
    case True
    define mid where "mid = (low + high) div 2"
    have mid: "low \<le> mid" "mid \<le> high" using True unfolding mid_def by simp_all
    have bound: "nat mid < ?n \<longleftrightarrow> ts ! nat mid \<le> u"
      using "1.prems"(1-3) mid by (intro takeWhile_bound) auto
    show ?thesis
    proof (cases "ts ! nat mid \<le> u")
      case le: True
      have "search_loop ts u (mid + 1) high mid = int ?n - 1"
        using "1.prems" mid bound le by (intro "1.IH"(1) [OF True mid_def]) auto
      with True le show ?thesis by (subst search_loop.simps) (simp add: mid_def [symmetric])
    next
      case gt: False
      have "search_loop ts u low (mid - 1) found = int ?n - 1"
        using "1.prems" mid bound gt by (intro "1.IH"(2) [OF True mid_def]) auto
      with True gt show ?thesis by (subst search_loop.simps) (simp add: mid_def [symmetric])
    qed
  next
    case False
    with "1.prems" show ?thesis by (subst search_loop.simps) simp
  qed
qed

lemma lastIndex_spec:
  "sorted ts \<Longrightarrow> lastIndexAtOrBefore ts u = int (length (takeWhile (\<lambda>t. t \<le> u) ts)) - 1"
  unfolding lastIndexAtOrBefore_def
  by (rule search_loop_spec) (auto simp: length_takeWhile_le)

text \<open>A lookup in an array sorted by time finds the last element at or before the time.\<close>

lemma takeWhile_sorted: "sorted (map f xs) \<Longrightarrow> takeWhile (\<lambda>x. f x \<le> u) xs = filter (\<lambda>x. f x \<le> (u :: int)) xs"
proof (induction xs)
  case (Cons x xs)
  have "filter (\<lambda>x. f x \<le> u) xs = []" if "\<not> f x \<le> u"
    using Cons.prems that by (force simp: filter_empty_conv)
  with Cons show ?case by simp
qed simp

lemma lookup_spec:
  fixes u :: int
  assumes "sorted (map f xs)" and "length ys = length xs"
  defines "found \<equiv> lastIndexAtOrBefore (map f xs) u"
  shows "found = -1 \<longleftrightarrow> filter (\<lambda>x. f x \<le> u) xs = []"
    and "found \<noteq> -1 \<Longrightarrow> xs ! nat found = last (filter (\<lambda>x. f x \<le> u) xs)"
    and "found \<noteq> -1 \<Longrightarrow> nat found < length xs"
    and "found \<noteq> -1 \<Longrightarrow> ys ! nat found = last (take (length (filter (\<lambda>x. f x \<le> u) xs)) ys)"
proof -
  let ?k = "length (filter (\<lambda>x. f x \<le> u) xs)"
  have found: "found = int ?k - 1"
    unfolding found_def using assms(1) by (simp add: lastIndex_spec takeWhile_map comp_def takeWhile_sorted)
  then show "found = -1 \<longleftrightarrow> filter (\<lambda>x. f x \<le> u) xs = []" by simp
  have le: "?k \<le> length xs" by simp
  show "nat found < length xs" if "found \<noteq> -1" using that found le by linarith
  have pre: "filter (\<lambda>x. f x \<le> u) xs = take ?k xs"
    using takeWhile_sorted [OF assms(1), of u] by (metis takeWhile_eq_take)
  have pos: "nat found = ?k - 1" "0 < ?k" if "found \<noteq> -1" using that found by auto
  show "xs ! nat found = last (filter (\<lambda>x. f x \<le> u) xs)" if "found \<noteq> -1"
  proof -
    have "last (take ?k xs) = xs ! (?k - 1)" using pos [OF that] le by (subst last_conv_nth) auto
    with pos [OF that] pre show ?thesis by simp
  qed
  show "ys ! nat found = last (take ?k ys)" if "found \<noteq> -1"
    using pos [OF that] le assms(2) by (subst last_conv_nth) auto
qed

section \<open>The APY index\<close>

definition series_of :: "(nat \<times> apy_sample) list \<Rightarrow> apy_series" where
  "series_of ps = \<lparr>sr_apys = map (\<lambda>(i, x). as_supplyApy x) ps, sr_positions = map (\<lambda>(i, x). int i) ps,
     sr_times = map (\<lambda>(i, x). as_observedAt x) ps\<rparr>"

definition index_of :: "(nat \<times> apy_sample) list \<Rightarrow> apy_index \<Rightarrow> bool" where
  "index_of ps index \<longleftrightarrow>
     ix_all index = series_of ps \<and>
     ix_unscoped index = series_of (filter (\<lambda>(i, x). as_reserve x = None) ps) \<and>
     (\<forall>r. jm_get (ix_byReserve index) r =
        (let scoped = filter (\<lambda>(i, x). as_reserve x = Some r) ps in
         if scoped = [] then None else Some (series_of scoped)))"

lemma series_push_of: "series_push x i (series_of ps) = series_of (ps @ [(i, x)])"
  by (simp add: series_push_def series_of_def)

lemma index_of_snoc:
  assumes "index_of ps index"
  shows "index_of (ps @ [(i, x)]) (index_sample index (i, x))"
proof (cases "as_reserve x")
  case None
  with assms show ?thesis by (simp add: index_of_def index_sample_def series_push_of Let_def)
next
  case (Some r)
  have make: "makeSeries = series_of []" by (simp add: makeSeries_def series_of_def)
  with assms Some show ?thesis
    by (auto simp: index_of_def index_sample_def series_push_of jm_get_set Let_def make split: if_splits)
qed

lemma getApyIndex_of: "index_of (enumerate 0 samples) (getApyIndex samples)"
proof -
  have "index_of ps (foldl index_sample \<lparr>ix_all = makeSeries, ix_byReserve = [], ix_unscoped = makeSeries\<rparr> ps)" for ps
  proof (induction ps rule: rev_induct)
    case Nil
    show ?case by (simp add: index_of_def makeSeries_def series_of_def)
  next
    case (snoc p ps)
    then show ?case by (cases p) (simp add: index_of_snoc)
  qed
  then show ?thesis by (simp add: getApyIndex_def)
qed

text \<open>A lookup in one series: the position and the rate of its last sample at or before the time.\<close>

lemma series_lookup:
  fixes u :: int
  assumes "sorted (map (\<lambda>(i, x). as_observedAt x) ps)"
  defines "ok \<equiv> filter (\<lambda>(i, x). as_observedAt x \<le> u) ps" and "found \<equiv> lastIndexAtOrBefore (sr_times (series_of ps)) u"
  shows "found = -1 \<longleftrightarrow> ok = []"
    and "ok \<noteq> [] \<Longrightarrow> sr_apys (series_of ps) ! nat found = as_supplyApy (snd (last ok))"
    and "ok \<noteq> [] \<Longrightarrow> sr_positions (series_of ps) ! nat found = int (fst (last ok))"
proof -
  note look = lookup_spec [OF assms(1) refl, where u = u]
  have ok: "ok = filter (\<lambda>p. (case p of (i, x) \<Rightarrow> as_observedAt x) \<le> u) ps"
    by (simp add: ok_def case_prod_unfold)
  have f: "found = lastIndexAtOrBefore (map (\<lambda>(i, x). as_observedAt x) ps) u" by (simp add: found_def series_of_def)
  show none: "found = -1 \<longleftrightarrow> ok = []" using look(1) by (simp add: ok f)
  assume ne: "ok \<noteq> []"
  then have "found \<noteq> -1" using none by simp
  then have "ps ! nat found = last ok" "nat found < length ps" using look(2,3) by (simp_all add: ok f)
  then show "sr_apys (series_of ps) ! nat found = as_supplyApy (snd (last ok))"
    "sr_positions (series_of ps) ! nat found = int (fst (last ok))"
    by (simp_all add: series_of_def case_prod_unfold)
qed

lemma last_filter_disj:
  assumes "sorted_wrt (<) (map fst ps)" "\<And>p. p \<in> set ps \<Longrightarrow> \<not> (P p \<and> Q p)"
  shows "filter (\<lambda>p. P p \<or> Q p) ps \<noteq> [] \<Longrightarrow> last (filter (\<lambda>p. P p \<or> Q p) ps) =
    (if filter Q ps = [] \<or> (filter P ps \<noteq> [] \<and> fst (last (filter Q ps)) < (fst (last (filter P ps)) :: nat))
     then last (filter P ps) else last (filter Q ps))"
  using assms
proof (induction ps rule: rev_induct)
  case (snoc p ps)
  have less: "fst q < fst p" if "q \<in> set ps" for q
    using snoc.prems(2) that by (auto simp: sorted_wrt_append)
  have last: "filter R ps \<noteq> [] \<Longrightarrow> fst (last (filter R ps)) < fst p" for R
    using less last_in_set [of "filter R ps"] by auto
  have "\<not> (P p \<and> Q p)" using snoc.prems(3) by simp
  with snoc last [of P] last [of Q] show ?case
    by (auto simp: sorted_wrt_append dest: less_asym)
qed simp

text \<open>The linear scan the index replaces: the last sample at or before the time that applies to the reserve.\<close>

definition apy_applies :: "string option \<Rightarrow> apy_sample \<Rightarrow> bool" where
  "apy_applies reserve x \<longleftrightarrow> \<not> truthy reserve \<or> as_reserve x = None \<or> as_reserve x = reserve"

definition apy_scan :: "apy_sample list \<Rightarrow> string option \<Rightarrow> int \<Rightarrow> rat option" where
  "apy_scan samples reserve u =
     (case filter (\<lambda>x. apy_applies reserve x \<and> as_observedAt x \<le> u) samples of
        [] \<Rightarrow> None
      | xs \<Rightarrow> Some (as_supplyApy (last xs)))"

lemma filter_enumerate:
  "map snd (filter (\<lambda>(i, x). P x) (enumerate n xs)) = filter P xs"
  by (induction xs arbitrary: n) auto

lemma sorted_filter_enumerate:
  "sorted (map f xs) \<Longrightarrow> sorted (map (\<lambda>(i, x). f x) (filter (\<lambda>(i, x). P x) (enumerate n xs)))"
proof -
  assume "sorted (map f xs)"
  then have "sorted (map f (filter P xs))" by (rule sorted_filter)
  then have "sorted (map f (map snd (filter (\<lambda>(i, x). P x) (enumerate n xs))))" by (simp only: filter_enumerate)
  then show ?thesis by (simp add: case_prod_unfold comp_def)
qed

lemma last_filter_enumerate:
  assumes "filter (\<lambda>(i, x). P x) (enumerate n xs) \<noteq> []"
  shows "snd (last (filter (\<lambda>(i, x). P x) (enumerate n xs))) = last (filter P xs)" "filter P xs \<noteq> []"
  using assms filter_enumerate [of P n xs] by (metis last_map, metis map_is_Nil_conv)

lemma apy_scan_some:
  assumes "filter (\<lambda>(i, x). apy_applies reserve x \<and> as_observedAt x \<le> u) (enumerate 0 samples) \<noteq> []"
  shows "apy_scan samples reserve u =
    Some (as_supplyApy (snd (last (filter (\<lambda>(i, x). apy_applies reserve x \<and> as_observedAt x \<le> u) (enumerate 0 samples)))))"
  using last_filter_enumerate [OF assms] by (simp add: apy_scan_def split: list.splits)

lemma apy_scan_none:
  assumes "filter (\<lambda>(i, x). apy_applies reserve x \<and> as_observedAt x \<le> u) (enumerate 0 samples) = []"
  shows "apy_scan samples reserve u = None"
  using assms filter_enumerate [of "\<lambda>x. apy_applies reserve x \<and> as_observedAt x \<le> u" 0 samples] by (simp add: apy_scan_def)

lemma getApyAt_unscoped:
  assumes "sorted (map as_observedAt samples)" "\<not> truthy reserve"
  shows "getApyAt samples reserve u = apy_scan samples reserve u"
proof -
  let ?ps = "enumerate 0 samples"
  have ix: "ix_all (getApyIndex samples) = series_of ?ps" using getApyIndex_of [of samples] by (simp add: index_of_def)
  have sorted: "sorted (map (\<lambda>(i, x). as_observedAt x) ?ps)"
    using sorted_filter_enumerate [OF assms(1), of "\<lambda>_. True" 0] by (simp add: case_prod_unfold)
  let ?ok = "filter (\<lambda>(i, x). as_observedAt x \<le> u) ?ps"
  have ok: "filter (\<lambda>(i, x). apy_applies reserve x \<and> as_observedAt x \<le> u) ?ps = ?ok"
    using assms(2) by (simp add: apy_applies_def)
  show ?thesis
  proof (cases "?ok = []")
    case True
    then show ?thesis using assms(2) series_lookup(1) [OF sorted, of u] apy_scan_none [of reserve u samples] ok
      by (simp add: getApyAt_def ix Let_def)
  next
    case False
    then show ?thesis
      using assms(2) series_lookup [OF sorted, of u] apy_scan_some [of reserve u samples] ok
      by (simp add: getApyAt_def ix Let_def)
  qed
qed

lemma getApyAt_scoped_value:
  fixes u :: int
  assumes "sorted (map as_observedAt samples)" "truthy reserve"
  defines "S \<equiv> filter (\<lambda>(i, x). as_reserve x = reserve) (enumerate 0 samples)"
    and "U \<equiv> filter (\<lambda>(i, x). as_reserve x = None) (enumerate 0 samples)"
  defines "s \<equiv> filter (\<lambda>(i, x). as_observedAt x \<le> u) S" and "n \<equiv> filter (\<lambda>(i, x). as_observedAt x \<le> u) U"
  shows "getApyAt samples reserve u =
      (if s = [] \<and> n = [] then None
       else Some (as_supplyApy (snd (if n = [] \<or> (s \<noteq> [] \<and> fst (last n) < fst (last s)) then last s else last n))))"
proof -
  obtain r where r: "reserve = Some r" using assms(2) by (auto simp: truthy_Some)
  note ix = getApyIndex_of [of samples, unfolded index_of_def Let_def]
  have scoped: "jm_get (ix_byReserve (getApyIndex samples)) r = (if S = [] then None else Some (series_of S))"
    using ix r unfolding S_def by simp
  have uns: "ix_unscoped (getApyIndex samples) = series_of U" using ix unfolding U_def by simp
  note S = series_lookup [OF sorted_filter_enumerate [OF assms(1), of "\<lambda>x. as_reserve x = reserve" 0, folded S_def], of u, folded s_def]
  note U = series_lookup [OF sorted_filter_enumerate [OF assms(1), of "\<lambda>x. as_reserve x = None" 0, folded U_def], of u, folded n_def]
  define fs where "fs = lastIndexAtOrBefore (sr_times (series_of S)) u"
  define fu where "fu = lastIndexAtOrBefore (sr_times (series_of U)) u"
  have fs: "fs = -1 \<longleftrightarrow> s = []" "s \<noteq> [] \<Longrightarrow> sr_apys (series_of S) ! nat fs = as_supplyApy (snd (last s))"
    "s \<noteq> [] \<Longrightarrow> sr_positions (series_of S) ! nat fs = int (fst (last s))"
    unfolding fs_def by (rule S(1), erule S(2), erule S(3))
  have fu: "fu = -1 \<longleftrightarrow> n = []" "n \<noteq> [] \<Longrightarrow> sr_apys (series_of U) ! nat fu = as_supplyApy (snd (last n))"
    "n \<noteq> [] \<Longrightarrow> sr_positions (series_of U) ! nat fu = int (fst (last n))"
    unfolding fu_def by (rule U(1), erule U(2), erule U(3))
  define sp where "sp = (if fs \<noteq> -1 then sr_positions (series_of S) ! nat fs else -1)"
  define up where "up = (if fu = -1 then -1 else sr_positions (series_of U) ! nat fu)"
  have sp: "sp = (if s = [] then -1 else int (fst (last s)))" and up: "up = (if n = [] then -1 else int (fst (last n)))"
    unfolding sp_def up_def using fs fu by auto
  have get: "getApyAt samples reserve u =
      (if S = [] then if up = -1 then None else Some (sr_apys (series_of U) ! nat fu)
       else if sp = -1 \<and> up = -1 then None
       else Some (if sp > up then sr_apys (series_of S) ! nat fs else sr_apys (series_of U) ! nat fu))"
    using assms(2) scoped unfolding getApyAt_def Let_def uns
    by (simp add: r sp_def up_def fs_def fu_def)
  show ?thesis
  proof (cases "S = []")
    case True
    then have "s = []" by (simp add: s_def)
    with True fu get up show ?thesis by auto
  next
    case False
    with fs fu get sp up show ?thesis by auto
  qed
qed

lemma getApyAt_scoped:
  assumes "sorted (map as_observedAt samples)" "truthy reserve"
  shows "getApyAt samples reserve u = apy_scan samples reserve u"
proof -
  let ?ps = "enumerate 0 samples"
  let ?S = "filter (\<lambda>(i, x). as_reserve x = reserve) ?ps" and ?U = "filter (\<lambda>(i, x). as_reserve x = None) ?ps"
  let ?s = "filter (\<lambda>(i, x). as_observedAt x \<le> u) ?S" and ?n = "filter (\<lambda>(i, x). as_observedAt x \<le> u) ?U"
  let ?ok = "filter (\<lambda>(i, x). apy_applies reserve x \<and> as_observedAt x \<le> u) ?ps"
  have split: "?ok = filter (\<lambda>p. (case p of (i, x) \<Rightarrow> as_reserve x = reserve \<and> as_observedAt x \<le> u) \<or>
      (case p of (i, x) \<Rightarrow> as_reserve x = None \<and> as_observedAt x \<le> u)) ?ps"
    using assms(2) by (intro filter_cong) (auto simp: apy_applies_def)
  have parts: "?s = filter (\<lambda>p. case p of (i, x) \<Rightarrow> as_reserve x = reserve \<and> as_observedAt x \<le> u) ?ps"
    "?n = filter (\<lambda>p. case p of (i, x) \<Rightarrow> as_reserve x = None \<and> as_observedAt x \<le> u) ?ps"
    by (simp_all add: case_prod_unfold conj_commute)
  have last: "?ok \<noteq> [] \<Longrightarrow> last ?ok = (if ?n = [] \<or> (?s \<noteq> [] \<and> fst (last ?n) < fst (last ?s)) then last ?s else last ?n)"
    unfolding split parts by (rule last_filter_disj) (use assms(2) in \<open>auto simp: truthy_def\<close>)
  have empty: "?ok = [] \<longleftrightarrow> ?s = [] \<and> ?n = []" unfolding split parts by (auto simp: filter_empty_conv)
  note val = getApyAt_scoped_value [OF assms, of u]
  show ?thesis
  proof (cases "?ok = []")
    case True
    with val empty apy_scan_none [of reserve u samples] show ?thesis by simp
  next
    case False
    with val empty last apy_scan_some [of reserve u samples] show ?thesis by auto
  qed
qed

lemma getApyAt_scan: "sorted (map as_observedAt samples) \<Longrightarrow> getApyAt samples reserve u = apy_scan samples reserve u"
  using getApyAt_scoped getApyAt_unscoped by (cases "truthy reserve") auto

section \<open>Sorting\<close>

text \<open>\<open>x\<close> may stand right before \<open>y\<close>: their order is known and it is not the other one.\<close>

definition may_precede :: "position_event \<Rightarrow> position_event \<Rightarrow> bool" where
  "may_precede x y \<longleftrightarrow> (\<exists>c \<le> 0. compare_events x y = Inr c)"

lemma compare_flip: "compare_events y x = Inr c \<Longrightarrow> c \<ge> 0 \<Longrightarrow> may_precede x y"
  by (auto simp: compare_events_def may_precede_def Let_def split: if_splits option.splits prod.splits)

lemma may_precede_time: "may_precede x y \<Longrightarrow> pv_confirmedAt x \<le> pv_confirmedAt y"
  by (auto simp: compare_events_def may_precede_def Let_def split: if_splits option.splits prod.splits)

lemma insert_by_chain:
  assumes "insert_by compare_events x ys = Inr zs" "successively may_precede ys"
  shows "mset zs = add_mset x (mset ys) \<and> successively may_precede zs \<and> (hd zs = x \<or> (ys \<noteq> [] \<and> hd zs = hd ys))"
  using assms
proof (induction ys arbitrary: zs)
  case (Cons y ys)
  obtain c where c: "compare_events x y = Inr c" using Cons.prems(1) by (auto simp: rbind_eq_Inr)
  show ?case
  proof (cases "c < 0")
    case True
    then have "may_precede x y" using c by (auto simp: may_precede_def)
    with True c Cons.prems show ?thesis by (auto simp: successively_Cons)
  next
    case False
    then obtain zs' where z: "insert_by compare_events x ys = Inr zs'" "zs = y # zs'"
      using Cons.prems(1) c by (auto simp: rbind_eq_Inr)
    have yx: "may_precede y x" by (rule compare_flip [OF c]) (use False in simp)
    have "mset zs' = add_mset x (mset ys) \<and> successively may_precede zs' \<and> (hd zs' = x \<or> (ys \<noteq> [] \<and> hd zs' = hd ys))"
      using Cons.IH [OF z(1)] Cons.prems(2) by (cases ys) (auto simp: successively_Cons)
    moreover from this have "zs' \<noteq> []" by auto
    ultimately show ?thesis using yx z(2) Cons.prems(2) by (cases zs') (auto simp: successively_Cons)
  qed
qed auto

lemma sort_by_chain:
  "sort_by compare_events ys xs = Inr zs \<Longrightarrow> successively may_precede ys \<Longrightarrow>
   mset zs = mset ys + mset xs \<and> successively may_precede zs"
proof (induction xs arbitrary: ys)
  case (Cons x xs)
  then obtain ys' where y: "insert_by compare_events x ys = Inr ys'" "sort_by compare_events ys' xs = Inr zs"
    by (auto simp: rbind_eq_Inr)
  from insert_by_chain [OF y(1) Cons.prems(2)] Cons.IH [OF y(2)] show ?case by simp
qed auto

lemma sortEarningsEvents_chain:
  assumes "sortEarningsEvents events = Inr zs"
  shows "mset zs = mset events" "successively may_precede zs" "sorted (map pv_confirmedAt zs)"
proof -
  show *: "mset zs = mset events" "successively may_precede zs"
    using sort_by_chain [OF assms [unfolded sortEarningsEvents_def]] by simp_all
  from *(2) have "successively (\<le>) (map pv_confirmedAt zs)"
    by (induction zs rule: induct_list012) (auto simp: may_precede_time)
  then show "sorted (map pv_confirmedAt zs)"
    by (simp add: successively_conv_sorted_wrt [OF transp_on_le] transp_on_le)
qed

section \<open>Running principal\<close>

text \<open>The invariant of the running state: no negative part, and the total is the sum of the parts.\<close>

definition principal_inv :: "principal_clamp \<Rightarrow> principal_state \<Rightarrow> bool" where
  "principal_inv clamp s \<longleftrightarrow>
     jm_wf (pr_byMint s) \<and> (\<forall>v \<in> set (jm_values (pr_byMint s)). 0 \<le> v) \<and> 0 \<le> pr_total s \<and>
     (clamp \<noteq> Clamp_total \<longrightarrow> pr_total s = sum_list (jm_values (pr_byMint s)))"

lemma sum_list_jm_set:
  fixes v :: int
  shows "jm_wf m \<Longrightarrow> sum_list (jm_values (jm_set k v m)) =
     sum_list (jm_values m) + (v - (case jm_get m k of Some c \<Rightarrow> c | None \<Rightarrow> 0))"
proof (induction m)
  case (Cons p m)
  then have "jm_wf m" by (simp add: jm_wf_def)
  moreover have "jm_get m k = None" if "fst p = k"
    using Cons.prems that by (auto simp: jm_wf_def map_of_eq_None_iff)
  ultimately show ?case using Cons.IH by (cases p) auto
qed simp

lemma principal_amount_nonneg: "principal_amount e = Inr a \<Longrightarrow> 0 \<le> pv_amountRaw e \<Longrightarrow> 0 \<le> a"
  by (auto simp: principal_amount_def split: option.splits if_splits)

lemma principal_step_inv:
  assumes "principal_step clamp e s = Inr s'" "principal_inv clamp s" "0 \<le> pv_amountRaw e"
  shows "principal_inv clamp s'"
proof -
  obtain a where a: "principal_amount e = Inr a" using assms(1) by (auto simp: principal_step_def rbind_eq_Inr)
  have a0: "0 \<le> a" by (rule principal_amount_nonneg [OF a assms(3)])
  show ?thesis
  proof (cases "clamp = Clamp_total")
    case True
    with assms a a0 show ?thesis by (auto simp: principal_step_def principal_inv_def clampedSubtract_def)
  next
    case False
    obtain k v where s': "s' = \<lparr>pr_byMint = jm_set k v (pr_byMint s),
        pr_total = pr_total s + (v - (case jm_get (pr_byMint s) k of Some c \<Rightarrow> c | None \<Rightarrow> 0))\<rparr>" and v: "0 \<le> v"
    proof -
      let ?k = "if clamp = Clamp_position then Position_key (pv_positionId e)
        else Mint_key (case pv_liquidityMint e of Some m \<Rightarrow> m | None \<Rightarrow> [])"
      let ?c = "case jm_get (pr_byMint s) ?k of Some c \<Rightarrow> c | None \<Rightarrow> 0"
      let ?v = "if pv_settlesPosition e = Some True then 0
        else if pv_type e = Deposit_event then
          (if clamp = Clamp_position \<and> pv_initializesPosition e = Some True then 0 else ?c) + a
        else clampedSubtract ?c a"
      have "0 \<le> ?c" using assms(2) by (auto simp: principal_inv_def split: option.splits dest!: map_of_SomeD)
      then have "0 \<le> ?v" using a0 by (simp add: clampedSubtract_def)
      moreover have "s' = \<lparr>pr_byMint = jm_set ?k ?v (pr_byMint s), pr_total = pr_total s + (?v - ?c)\<rparr>"
        using assms(1) False a unfolding principal_step_def by (simp add: Let_def split: if_splits)
      ultimately show thesis using that by blast
    qed
    have parts: "\<forall>x \<in> set (jm_values (jm_set k v (pr_byMint s))). 0 \<le> x"
      using jm_values_set [of k v "pr_byMint s"] assms(2) v unfolding principal_inv_def by blast
    have "pr_total s' = sum_list (jm_values (jm_set k v (pr_byMint s)))"
      using assms(2) False by (simp add: s' principal_inv_def sum_list_jm_set)
    moreover have "0 \<le> sum_list (jm_values (jm_set k v (pr_byMint s)))" using parts by (intro sum_list_nonneg) blast
    ultimately show ?thesis using parts assms(2) False by (simp add: principal_inv_def s')
  qed
qed

primrec principal_replay :: "principal_clamp \<Rightarrow> position_event list \<Rightarrow> principal_state \<Rightarrow> history_error + principal_state" where
  "principal_replay clamp [] s = Inr s"
| "principal_replay clamp (event # events) s = rbind (principal_step clamp event s) (principal_replay clamp events)"

lemma principal_replay_inv:
  "principal_replay clamp es s = Inr s' \<Longrightarrow> principal_inv clamp s \<Longrightarrow> \<forall>e \<in> set es. 0 \<le> pv_amountRaw e \<Longrightarrow>
   principal_inv clamp s'"
  by (induction es arbitrary: s) (auto simp: rbind_eq_Inr dest: principal_step_inv)

lemma principal_totals_length: "principal_totals clamp es s = Inr totals \<Longrightarrow> length totals = length es"
  by (induction es arbitrary: s totals) (auto simp: rbind_eq_Inr)

text \<open>Each total is that of the replay of the events up to it.\<close>

lemma principal_totals_replay:
  assumes "principal_totals clamp es s = Inr totals" "0 < n" "n \<le> length es"
  shows "\<exists>s'. principal_replay clamp (take n es) s = Inr s' \<and> pr_total s' = totals ! (n - 1)"
  using assms
proof (induction es arbitrary: s totals n)
  case (Cons e es)
  from Cons.prems(1) obtain s1 ts where s1: "principal_step clamp e s = Inr s1"
    and ts: "principal_totals clamp es s1 = Inr ts" "totals = pr_total s1 # ts" by (auto simp: rbind_eq_Inr)
  obtain m where n: "n = Suc m" using Cons.prems(2) by (cases n) auto
  show ?case
  proof (cases m)
    case 0
    with s1 ts n show ?thesis by simp
  next
    case (Suc k)
    with Cons.IH [OF ts(1), of m] Cons.prems(3) n s1 ts(2) show ?thesis by auto
  qed
qed simp

lemma principalAt_replay:
  assumes "principalAt events u clamp = Inr p"
  shows "\<exists>zs s. sortEarningsEvents events = Inr zs \<and>
    principal_replay clamp (filter (\<lambda>e. pv_confirmedAt e \<le> u) zs) \<lparr>pr_byMint = [], pr_total = 0\<rparr> = Inr s \<and> pr_total s = p"
proof -
  obtain zs totals where zs: "sortEarningsEvents events = Inr zs"
    and tot: "principal_totals clamp zs \<lparr>pr_byMint = [], pr_total = 0\<rparr> = Inr totals"
    and p: "p = (let found = lastIndexAtOrBefore (map pv_confirmedAt zs) u in if found = -1 then 0 else totals ! nat found)"
    using assms by (auto simp: principalAt_def getPrincipalIndex_def rbind_eq_Inr Let_def)
  let ?early = "filter (\<lambda>e. pv_confirmedAt e \<le> u) zs" and ?found = "lastIndexAtOrBefore (map pv_confirmedAt zs) u"
  have sorted: "sorted (map pv_confirmedAt zs)" by (rule sortEarningsEvents_chain(3) [OF zs])
  note look = lookup_spec [OF sorted principal_totals_length [OF tot], of u]
  have pre: "?early = take (length ?early) zs"
    using takeWhile_sorted [OF sorted, of u] by (metis takeWhile_eq_take)
  show ?thesis
  proof (cases "?found = -1")
    case True
    with zs p look(1) show ?thesis by simp
  next
    case False
    then have ne: "0 < length ?early" using look(1) by simp
    have "totals ! nat ?found = last (take (length ?early) totals)" by (rule look(4) [OF False])
    also have "\<dots> = totals ! (length ?early - 1)"
      using ne principal_totals_length [OF tot] by (subst last_conv_nth) (auto simp: min_absorb2)
    finally have "p = totals ! (length ?early - 1)" using p False by (simp add: Let_def)
    with principal_totals_replay [OF tot ne length_filter_le] zs pre show ?thesis by auto
  qed
qed

section \<open>Properties\<close>

text \<open>
  C28.  The indexed APY lookup agrees with a linear scan: on samples sorted by time, the binary searches
  over the per-reserve and the unscoped series return the rate of the last sample at or before the
  time that applies to the reserve, and nothing when there is none.
\<close>

theorem apy_index_exact:
  assumes "sorted (map as_observedAt samples)"
  shows "getApyAt samples reserve u = apy_scan samples reserve u"
  by (rule getApyAt_scan [OF assms])

definition example_samples :: "apy_sample list" where
  "example_samples =
     [\<lparr>as_observedAt = 1, as_reserve = None, as_supplyApy = 1 / 10\<rparr>, \<lparr>as_observedAt = 2, as_reserve = Some ''a'', as_supplyApy = 2 / 10\<rparr>,
      \<lparr>as_observedAt = 2, as_reserve = Some ''b'', as_supplyApy = 3 / 10\<rparr>, \<lparr>as_observedAt = 5, as_reserve = None, as_supplyApy = 4 / 10\<rparr>]"

theorem apy_index_exact_witness:
  "getApyAt example_samples (Some ''a'') 4 = apy_scan example_samples (Some ''a'') 4 \<and>
   apy_scan example_samples (Some ''a'') 4 = Some (2 / 10)"
proof
  have "sorted (map as_observedAt example_samples)" by (simp add: example_samples_def)
  then show "getApyAt example_samples (Some ''a'') 4 = apy_scan example_samples (Some ''a'') 4" by (rule apy_index_exact)
  show "apy_scan example_samples (Some ''a'') 4 = Some (2 / 10)"
    by (simp add: apy_scan_def example_samples_def apy_applies_def truthy_def)
qed


definition example_position_event :: "position_event_type \<Rightarrow> int \<Rightarrow> int \<Rightarrow> position_event" where
  "example_position_event ty slot amount = \<lparr>pv_amountRaw = amount, pv_confirmedAt = 10, pv_confirmedSlot = Some slot,
     pv_holdingEventId = None, pv_positionId = Some 1, pv_initializesPosition = Some (ty = Deposit_event),
     pv_principalDeltaRaw = None, pv_settlesPosition = None, pv_liquidityMint = None, pv_type = ty\<rparr>"

definition example_events :: "position_event list" where
  "example_events = [example_position_event Withdrawal_event 7 30, example_position_event Deposit_event 4 100]"


text \<open>
  C30.  The principal at a time is the one obtained by replaying, in accounting order, exactly the events
  confirmed by then; with amounts that are not negative it never falls below zero, and when mints or
  positions are clamped separately it is the sum of their parts.
\<close>

theorem principal_is_replay:
  assumes "principalAt events u clamp = Inr p" and "\<forall>e \<in> set events. 0 \<le> pv_amountRaw e"
  shows "\<exists>ordered s. sortEarningsEvents events = Inr ordered \<and>
    principal_replay clamp (filter (\<lambda>e. pv_confirmedAt e \<le> u) ordered) \<lparr>pr_byMint = [], pr_total = 0\<rparr> = Inr s \<and>
    pr_total s = p \<and> 0 \<le> p \<and> (clamp \<noteq> Clamp_total \<longrightarrow> p = sum_list (jm_values (pr_byMint s)))"
proof -
  obtain zs s where zs: "sortEarningsEvents events = Inr zs"
    and s: "principal_replay clamp (filter (\<lambda>e. pv_confirmedAt e \<le> u) zs) \<lparr>pr_byMint = [], pr_total = 0\<rparr> = Inr s" "pr_total s = p"
    using principalAt_replay [OF assms(1)] by blast
  have "set zs = set events" using sortEarningsEvents_chain(1) [OF zs] by (metis set_mset_mset)
  with assms(2) have "principal_inv clamp s"
    by (intro principal_replay_inv [OF s(1)]) (auto simp: principal_inv_def)
  with zs s show ?thesis by (auto simp: principal_inv_def)
qed

theorem principal_is_replay_witness:
  "principalAt example_events 10 Clamp_position = Inr 70 \<and>
   (\<exists>ordered. sortEarningsEvents example_events = Inr ordered)"
proof
  show p: "principalAt example_events 10 Clamp_position = Inr 70" by code_simp
  have "\<forall>e \<in> set example_events. 0 \<le> pv_amountRaw e" by code_simp
  from principal_is_replay [OF p this] show "\<exists>ordered. sortEarningsEvents example_events = Inr ordered" by blast
qed

end
