(* ===== verification/Cross_Mint_Index.thy ===== *)
theory Cross_Mint_Index
  imports Spending_Limits Earnings_Index
begin

text \<open>
  The index of a smart account's cross-mint policies, \<open>earn-cross-mint-policy-index.shared.ts\<close>: from the
  rows the observers of the chain have projected it decides whether the pair of policies that a
  cross-mint deposit needs exists, and refuses every state it cannot tell apart.  Shards, commitments
  and mutations are the strings of the rows.
\<close>

section \<open>Data\<close>

record projected_policy =
  xp_account :: string
  xp_dailySourceMintSpendingCap :: string
  xp_delegatedSigner :: string
  xp_lastSeenSignature :: string
  xp_lastSeenSlot :: string
  xp_maxSlippageBps :: rat
  xp_seed :: string
  xp_sourceCommitment :: string
  xp_sourceShard :: string

datatype index_state = Index_ambiguous | Index_complete | Index_empty | Index_partial

record policy_index =
  ix_policies :: "projected_policy list"
  ix_state :: index_state

record projection_row =
  xr_active :: bool
  xr_dailySourceMintSpendingCap :: "int option"
  xr_delegatedSigner :: "string option"
  xr_lastMutation :: string
  xr_lastSeenSignature :: string
  xr_lastSeenSlot :: int
  xr_maxSlippageBps :: "rat option"
  xr_policyAccount :: string
  xr_policySeed :: "int option"
  xr_sourceCommitment :: string
  xr_sourceShard :: "string option"
  xr_startEligible :: bool

section \<open>Deriving the index\<close>

definition isPolicyShard :: "string option \<Rightarrow> bool" where
  "isPolicyShard v \<longleftrightarrow> v = Some ''classic'' \<or> v = Some ''token_2022''"

definition isSupportedCommitment :: "string \<Rightarrow> bool" where
  "isSupportedCommitment v \<longleftrightarrow> v = ''confirmed'' \<or> v = ''finalized''"

definition active_row :: "projection_row \<Rightarrow> bool" where
  "active_row row \<longleftrightarrow> xr_active row \<and> (xr_lastMutation row = ''create'' \<or> xr_lastMutation row = ''update'')"

text \<open>The guard of the loop; a row that passes has the fields \<open>row_candidate\<close> reads.\<close>

definition row_refused :: "projection_row \<Rightarrow> bool" where
  "row_refused row \<longleftrightarrow>
     \<not> xr_startEligible row \<or> \<not> isPolicyShard (xr_sourceShard row) \<or> \<not> isSupportedCommitment (xr_sourceCommitment row) \<or>
     xr_policySeed row = None \<or> xr_maxSlippageBps row = None \<or> xr_dailySourceMintSpendingCap row = None \<or>
     \<not> truthy (xr_delegatedSigner row)"

definition row_candidate :: "projection_row \<Rightarrow> projected_policy" where
  "row_candidate row =
     \<lparr>xp_account = xr_policyAccount row,
      xp_dailySourceMintSpendingCap = show_int (the (xr_dailySourceMintSpendingCap row)),
      xp_delegatedSigner = the (xr_delegatedSigner row),
      xp_lastSeenSignature = xr_lastSeenSignature row,
      xp_lastSeenSlot = show_int (xr_lastSeenSlot row),
      xp_maxSlippageBps = the (xr_maxSlippageBps row),
      xp_seed = show_int (the (xr_policySeed row)),
      xp_sourceCommitment = xr_sourceCommitment row,
      xp_sourceShard = the (xr_sourceShard row)\<rparr>"

text \<open>The loop over the active rows; \<open>None\<close> is its early return.\<close>

fun collect_candidates :: "projection_row list \<Rightarrow> projected_policy list \<Rightarrow> projected_policy list option" where
  "collect_candidates [] candidates = Some candidates"
| "collect_candidates (row # rows) candidates =
     (if row_refused row then None else collect_candidates rows (candidates @ [row_candidate row]))"

definition parameters_match :: "projected_policy \<Rightarrow> projected_policy \<Rightarrow> bool" where
  "parameters_match fst_candidate candidate \<longleftrightarrow>
     xp_delegatedSigner candidate = xp_delegatedSigner fst_candidate \<and>
     xp_maxSlippageBps candidate = xp_maxSlippageBps fst_candidate \<and>
     xp_dailySourceMintSpendingCap candidate = xp_dailySourceMintSpendingCap fst_candidate"

text \<open>The comparator only looks at its left argument.\<close>

definition sort_shards :: "projected_policy list \<Rightarrow> projected_policy list" where
  "sort_shards candidates =
     (case sort_by (\<lambda>left _. Inr (if xp_sourceShard left = ''classic'' then -1 else 1) :: unit + int) [] candidates of
        Inr zs \<Rightarrow> zs | Inl _ \<Rightarrow> candidates)"

definition deriveEarnCrossMintPolicyIndex :: "projection_row list \<Rightarrow> policy_index" where
  "deriveEarnCrossMintPolicyIndex rows =
     (let activeRows = filter active_row rows; ambiguous = \<lparr>ix_policies = [], ix_state = Index_ambiguous\<rparr> in
      if length activeRows = 0 then \<lparr>ix_policies = [], ix_state = Index_empty\<rparr>
      else case collect_candidates activeRows [] of
        None \<Rightarrow> ambiguous
      | Some [] \<Rightarrow> ambiguous
      | Some (c # cs) \<Rightarrow>
          let candidates = c # cs;
              accounts = js_unique (map xp_account candidates);
              seeds = js_unique (map xp_seed candidates);
              shards = js_unique (map xp_sourceShard candidates);
              parametersMatch = list_all (parameters_match c) candidates in
          if length candidates > 2 \<or> length accounts \<noteq> length candidates \<or> length seeds \<noteq> length candidates \<or>
             length shards \<noteq> length candidates \<or> \<not> parametersMatch
          then ambiguous
          else \<lparr>ix_policies = sort_shards candidates,
                ix_state = (if length candidates = 2 then Index_complete else Index_partial)\<rparr>)"

section \<open>What the index says\<close>

text \<open>A pair of rows that describe the two shards of one cross-mint policy set.\<close>

definition shard_pair :: "projection_row \<Rightarrow> projection_row \<Rightarrow> bool" where
  "shard_pair c t \<longleftrightarrow>
     \<not> row_refused c \<and> \<not> row_refused t \<and>
     xr_sourceShard c = Some ''classic'' \<and> xr_sourceShard t = Some ''token_2022'' \<and>
     xr_policyAccount c \<noteq> xr_policyAccount t \<and> xr_policySeed c \<noteq> xr_policySeed t \<and>
     xr_delegatedSigner c = xr_delegatedSigner t \<and> xr_maxSlippageBps c = xr_maxSlippageBps t \<and>
     xr_dailySourceMintSpendingCap c = xr_dailySourceMintSpendingCap t"

lemma show_int_inject [simp]: "show_int a = show_int b \<longleftrightarrow> a = b"
proof -
  have "CHR ''-'' # s \<noteq> show_dec n" for s n
  proof
    assume "CHR ''-'' # s = show_dec n"
    then have "decimal_pattern (CHR ''-'' # s)" by simp
    then show False by (simp add: decimal_pattern_def digit_char_def)
  qed
  then show ?thesis by (auto simp: show_int_def dest: sym)
qed

lemma collect_candidates_eq:
  "collect_candidates rows acc =
     (if list_ex row_refused rows then None else Some (acc @ map row_candidate rows))"
  by (induction rows arbitrary: acc) auto

lemma js_unique_length: "length (js_unique xs) = length xs \<longleftrightarrow> distinct xs"
proof
  assume "length (js_unique xs) = length xs"
  then have "card (set xs) = length xs" using distinct_card [OF distinct_js_unique, of xs] by simp
  then show "distinct xs" by (rule card_distinct)
qed (simp add: js_unique_distinct)

lemma derive_candidates:
  assumes "filter active_row rows = r # rs" "candidates = map row_candidate (r # rs)"
  shows "deriveEarnCrossMintPolicyIndex rows =
    (if list_ex row_refused (r # rs) \<or> 2 < length candidates \<or> \<not> distinct (map xp_account candidates) \<or>
        \<not> distinct (map xp_seed candidates) \<or> \<not> distinct (map xp_sourceShard candidates) \<or>
        \<not> list_all (parameters_match (row_candidate r)) candidates
     then \<lparr>ix_policies = [], ix_state = Index_ambiguous\<rparr>
     else \<lparr>ix_policies = sort_shards candidates,
           ix_state = (if length candidates = 2 then Index_complete else Index_partial)\<rparr>)"
proof -
  have unique: "length (js_unique (map f candidates)) \<noteq> length candidates \<longleftrightarrow> \<not> distinct (map f candidates)" for f :: "_ \<Rightarrow> string"
    using js_unique_length [of "map f candidates"] by simp
  have "collect_candidates (r # rs) [] = (if list_ex row_refused (r # rs) then None else Some candidates)"
    unfolding collect_candidates_eq assms(2) by simp
  moreover have "candidates = row_candidate r # map row_candidate rs" using assms(2) by simp
  ultimately show ?thesis unfolding deriveEarnCrossMintPolicyIndex_def Let_def assms(1) unique [symmetric]
    by (cases "list_ex row_refused (r # rs)") (simp_all only: if_True if_False option.case list.case list.size simp_thms, simp_all)
qed

lemma derive_none:
  "filter active_row rows = [] \<Longrightarrow>
   deriveEarnCrossMintPolicyIndex rows = \<lparr>ix_policies = [], ix_state = Index_empty\<rparr>"
  by (simp add: deriveEarnCrossMintPolicyIndex_def)

lemma derive_one:
  assumes "filter active_row rows = [r]"
  shows "deriveEarnCrossMintPolicyIndex rows =
    (if row_refused r then \<lparr>ix_policies = [], ix_state = Index_ambiguous\<rparr>
     else \<lparr>ix_policies = [row_candidate r], ix_state = Index_partial\<rparr>)"
  by (simp add: derive_candidates [OF assms refl] parameters_match_def sort_shards_def)

lemma derive_two:
  assumes "filter active_row rows = [a, b]"
  shows "deriveEarnCrossMintPolicyIndex rows =
    (if shard_pair a b then \<lparr>ix_policies = [row_candidate a, row_candidate b], ix_state = Index_complete\<rparr>
     else if shard_pair b a then \<lparr>ix_policies = [row_candidate b, row_candidate a], ix_state = Index_complete\<rparr>
     else \<lparr>ix_policies = [], ix_state = Index_ambiguous\<rparr>)"
proof (cases "row_refused a \<or> row_refused b")
  case True
  then have "list_ex row_refused [a, b]" "\<not> shard_pair a b" "\<not> shard_pair b a" by (auto simp: shard_pair_def)
  then show ?thesis unfolding derive_candidates [OF assms refl] by (simp only: simp_thms if_True if_False)
next
  case False
  let ?differ = "xr_policyAccount a \<noteq> xr_policyAccount b \<and> xr_policySeed a \<noteq> xr_policySeed b \<and>
    xr_sourceShard a \<noteq> xr_sourceShard b"
  let ?match = "xr_delegatedSigner a = xr_delegatedSigner b \<and> xr_maxSlippageBps a = xr_maxSlippageBps b \<and>
    xr_dailySourceMintSpendingCap a = xr_dailySourceMintSpendingCap b"
  from False obtain sa sb where shards: "xr_sourceShard a = Some sa" "xr_sourceShard b = Some sb"
    "sa = ''classic'' \<or> sa = ''token_2022''" "sb = ''classic'' \<or> sb = ''token_2022''"
    by (auto simp: row_refused_def isPolicyShard_def)
  have fields: "\<exists>x. xr_policySeed r = Some x" "\<exists>x. xr_maxSlippageBps r = Some x"
    "\<exists>x. xr_dailySourceMintSpendingCap r = Some x" "\<exists>x. xr_delegatedSigner r = Some x"
    if "r \<in> {a, b}" for r using that False by (auto simp: row_refused_def truthy_Some)
  let ?cs = "map row_candidate [a, b]"
  have match: "list_all (parameters_match (row_candidate a)) ?cs \<longleftrightarrow> ?match"
    using fields [of a] fields [of b] by (auto simp: parameters_match_def row_candidate_def)
  have differ: "distinct (map xp_account ?cs) \<and> distinct (map xp_seed ?cs) \<and> distinct (map xp_sourceShard ?cs) \<longleftrightarrow> ?differ"
    using fields(1) [of a] fields(1) [of b] shards by (auto simp: row_candidate_def)
  have cond: "(list_ex row_refused [a, b] \<or> 2 < length ?cs \<or> \<not> distinct (map xp_account ?cs) \<or> \<not> distinct (map xp_seed ?cs) \<or>
      \<not> distinct (map xp_sourceShard ?cs) \<or> \<not> list_all (parameters_match (row_candidate a)) ?cs) = (\<not> (?differ \<and> ?match))"
  proof -
    have "\<not> list_ex row_refused [a, b]" "\<not> 2 < length ?cs" using False by simp_all
    with differ match show ?thesis by blast
  qed
  have "deriveEarnCrossMintPolicyIndex rows =
    (if \<not> (?differ \<and> ?match) then \<lparr>ix_policies = [], ix_state = Index_ambiguous\<rparr>
     else \<lparr>ix_policies = sort_shards [row_candidate a, row_candidate b], ix_state = Index_complete\<rparr>)"
    unfolding derive_candidates [OF assms refl] cond by simp
  note derived = this
  have ordered: "sort_shards [row_candidate a, row_candidate b] =
    (if sb = ''classic'' then [row_candidate b, row_candidate a] else [row_candidate a, row_candidate b])"
    using shards by (simp add: sort_shards_def row_candidate_def)
  have pairs: "shard_pair a b \<longleftrightarrow> sa = ''classic'' \<and> sb = ''token_2022'' \<and> ?differ \<and> ?match"
    "shard_pair b a \<longleftrightarrow> sb = ''classic'' \<and> sa = ''token_2022'' \<and> ?differ \<and> ?match"
    using False by (auto simp: shard_pair_def shards(1,2))
  have distinct_shards: "?differ \<Longrightarrow> sa \<noteq> sb" by (simp add: shards(1,2))
  have either: "?differ \<and> ?match \<longleftrightarrow> shard_pair a b \<or> shard_pair b a"
    unfolding pairs using shards(3,4) distinct_shards by blast
  have "shard_pair a b \<Longrightarrow> sb \<noteq> ''classic''" "shard_pair b a \<Longrightarrow> sb = ''classic''"
    unfolding pairs by simp_all
  with either show ?thesis unfolding derived ordered by (simp only: de_Morgan_disj) (auto simp only: if_True if_False simp_thms split: if_split)
qed

lemma derive_many:
  assumes "filter active_row rows = a # b # c # rs"
  shows "deriveEarnCrossMintPolicyIndex rows = \<lparr>ix_policies = [], ix_state = Index_ambiguous\<rparr>"
  by (simp add: derive_candidates [OF assms refl])

text \<open>
  C37.  The index calls a set of policies complete exactly when the active rows, in whatever order the
  database returned them, are one classic and one Token-2022 row, both fully known, with distinct
  accounts and seeds and the same signer, slippage limit and daily cap; the policies are then those
  two, classic first.  It is partial exactly for one fully known active row, empty exactly when
  no row is active, and otherwise ambiguous; policies are only reported in the first two cases.
\<close>

theorem cross_mint_index_exact:
  "(deriveEarnCrossMintPolicyIndex rows = \<lparr>ix_policies = ps, ix_state = Index_complete\<rparr> \<longleftrightarrow>
     (\<exists>c t. mset (filter active_row rows) = {#c, t#} \<and> shard_pair c t \<and> ps = [row_candidate c, row_candidate t])) \<and>
   (deriveEarnCrossMintPolicyIndex rows = \<lparr>ix_policies = ps, ix_state = Index_partial\<rparr> \<longleftrightarrow>
     (\<exists>r. filter active_row rows = [r] \<and> \<not> row_refused r \<and> ps = [row_candidate r])) \<and>
   (ix_state (deriveEarnCrossMintPolicyIndex rows) = Index_empty \<longleftrightarrow> filter active_row rows = []) \<and>
   (ix_policies (deriveEarnCrossMintPolicyIndex rows) = [] \<longleftrightarrow>
     ix_state (deriveEarnCrossMintPolicyIndex rows) \<in> {Index_empty, Index_ambiguous})"
proof -
  consider "filter active_row rows = []" | r where "filter active_row rows = [r]"
    | a b where "filter active_row rows = [a, b]" | a b c rs where "filter active_row rows = a # b # c # rs"
    by (metis list.exhaust)
  then show ?thesis
  proof cases
    case 1
    then show ?thesis by (simp add: derive_none)
  next
    case 2
    then show ?thesis by (auto simp: derive_one)
  next
    case (3 a b)
    have asym: "\<not> (shard_pair a b \<and> shard_pair b a)" by (auto simp: shard_pair_def)
    show ?thesis unfolding derive_two [OF 3] 3 using asym by (auto simp: add_eq_conv_ex)
  next
    case (4 a b c rs)
    have "size (mset (a # b # c # rs)) \<noteq> size {#x, y#}" for x y :: projection_row by simp
    then have "mset (a # b # c # rs) \<noteq> {#x, y#}" for x y by metis
    then show ?thesis by (simp add: derive_many [OF 4] 4)
  qed
qed

text \<open>So the index does not depend on the order of the rows.\<close>

lemma index_order_irrelevant:
  assumes "mset rows = mset rows'"
  shows "deriveEarnCrossMintPolicyIndex rows = deriveEarnCrossMintPolicyIndex rows'"
proof -
  have m: "mset (filter active_row rows) = mset (filter active_row rows')" using assms by (simp add: mset_filter)
  then have len: "length (filter active_row rows) = length (filter active_row rows')" by (rule mset_eq_length)
  consider "filter active_row rows = []" | r where "filter active_row rows = [r]"
    | a b where "filter active_row rows = [a, b]" | a b c rs where "filter active_row rows = a # b # c # rs"
    by (metis list.exhaust)
  then show ?thesis
  proof cases
    case 1
    with m show ?thesis by (simp add: derive_none)
  next
    case 2
    with m have "filter active_row rows' = [r]" by (metis mset_single_iff mset_zero_iff mset.simps)
    with 2 show ?thesis by (simp add: derive_one)
  next
    case (3 a b)
    with len have "length (filter active_row rows') = Suc (Suc 0)" by simp
    then obtain a' b' where b': "filter active_row rows' = [a', b']" by (auto simp: length_Suc_conv)
    with m 3 have "(a' = a \<and> b' = b) \<or> (a' = b \<and> b' = a)" by (auto simp: add_eq_conv_ex simp flip: mset_filter)
    with b' have "filter active_row rows' = [a, b] \<or> filter active_row rows' = [b, a]" by auto
    with 3 show ?thesis by (auto simp: derive_two shard_pair_def)
  next
    case (4 a b c rs)
    with len have "length (filter active_row rows') = Suc (Suc (Suc (length rs)))" by simp
    then obtain a' b' c' rs' where "filter active_row rows' = a' # b' # c' # rs'" by (auto simp: length_Suc_conv)
    with 4 show ?thesis by (simp add: derive_many)
  qed
qed

end
