(* ===== verification/Client_Cache.thy ===== *)
theory Client_Cache
  imports Cursor_Store
begin

text \<open>
  The reopen cache of the web application, \<open>lib/client-cache/client-cache.ts\<close>: data kept in local storage
  under a key, in an envelope that says for which version, network, wallet and account it is valid and
  until when.  \<open>parse\<close> and \<open>stringify\<close> stand for \<open>JSON.parse\<close> and \<open>JSON.stringify\<close>, \<open>None\<close> when they throw;
  every access to the storage may throw too.  In \<open>'a option option\<close> the outer \<open>None\<close> is \<open>undefined\<close>, the
  inner one \<open>null\<close>.
\<close>

section \<open>Operations\<close>

definition CLIENT_REOPEN_CACHE_TTL_MS :: rat where
  "CLIENT_REOPEN_CACHE_TTL_MS = 24 * 60 * 60 * 1000"

record cache_entry =
  ce_data :: json
  ce_savedAt :: js_number

text \<open>What a reader or writer passes besides data and times.\<close>

record cache_scope =
  cs_key :: string
  cs_version :: rat
  cs_solanaEnv :: string
  cs_walletAddress :: "string option option"
  cs_settingsPda :: "string option option"

text \<open>
  The value of an optional field that may be null, and the object literal that leaves out undefined
  fields, as \<open>JSON.stringify\<close> does.
\<close>

definition json_nullable :: "string option \<Rightarrow> json" where
  "json_nullable v = (case v of None \<Rightarrow> JNull | Some s \<Rightarrow> JString s)"

definition object_literal :: "(string \<times> json option) list \<Rightarrow> json" where
  "object_literal props = JObject [(k, the v). (k, v) \<leftarrow> props, v \<noteq> None]"

text \<open>
  \<open>parsed.expiresAt <= now\<close>.  A literal beyond the range of numbers is read as infinity, which is later
  than every time; negative ones of that size are not told apart.
\<close>

definition expired :: "rat \<Rightarrow> js_number \<Rightarrow> bool" where
  "expired now expiresAt = (case expiresAt of Finite e \<Rightarrow> e \<le> now | Non_finite \<Rightarrow> False)"

definition readClientCacheEntry ::
    "(string \<Rightarrow> json option) \<Rightarrow> rat \<Rightarrow> cache_scope \<Rightarrow> rat option \<Rightarrow> (json \<Rightarrow> bool) option \<Rightarrow> storage_access \<Rightarrow>
     (string, string) jsmap \<Rightarrow> cache_entry option" where
  "readClientCacheEntry parse Date_now c now validate a items =
     (if \<not> sa_present a then None
      else if sa_getThrows a then None
      else let raw = jm_get items (cs_key c) in
      if \<not> truthy raw then None
      else case parse (the raw) of
        None \<Rightarrow> None
      | Some parsed \<Rightarrow>
          if \<not> isObject parsed then None
          else if get_prop parsed ''version'' \<noteq> Some (JNumber (Finite (cs_version c))) \<or>
                  get_prop parsed ''solanaEnv'' \<noteq> Some (JString (cs_solanaEnv c)) then None
          else if cs_walletAddress c \<noteq> None \<and>
                  get_prop parsed ''walletAddress'' \<noteq> map_option json_nullable (cs_walletAddress c) then None
          else if cs_settingsPda c \<noteq> None \<and>
                  get_prop parsed ''settingsPda'' \<noteq> map_option json_nullable (cs_settingsPda c) then None
          else let current = (case now of Some n \<Rightarrow> n | None \<Rightarrow> Date_now) in
          (case get_prop parsed ''expiresAt'' of
             Some (JNumber expiresAt) \<Rightarrow>
               if expired current expiresAt then None
               else (case get_prop parsed ''data'' of
                   None \<Rightarrow> None
                 | Some data \<Rightarrow>
                     if (case validate of Some f \<Rightarrow> \<not> f data | None \<Rightarrow> False) then None
                     else (case get_prop parsed ''savedAt'' of
                         Some (JNumber savedAt) \<Rightarrow> Some \<lparr>ce_data = data, ce_savedAt = savedAt\<rparr>
                       | _ \<Rightarrow> None))
           | _ \<Rightarrow> None))"

text \<open>\<open>readClientCacheEntry(args)?.data ?? null\<close>: stored \<open>null\<close> is no data.\<close>

definition readClientCache ::
    "(string \<Rightarrow> json option) \<Rightarrow> rat \<Rightarrow> cache_scope \<Rightarrow> rat option \<Rightarrow> (json \<Rightarrow> bool) option \<Rightarrow> storage_access \<Rightarrow>
     (string, string) jsmap \<Rightarrow> json" where
  "readClientCache parse Date_now c now validate a items =
     (case readClientCacheEntry parse Date_now c now validate a items of Some e \<Rightarrow> ce_data e | None \<Rightarrow> JNull)"

definition cache_envelope :: "cache_scope \<Rightarrow> json option \<Rightarrow> rat option \<Rightarrow> rat \<Rightarrow> json" where
  "cache_envelope c data ttlMs savedAt =
     object_literal
       [(''version'', Some (JNumber (Finite (cs_version c)))),
        (''solanaEnv'', Some (JString (cs_solanaEnv c))),
        (''walletAddress'', map_option json_nullable (cs_walletAddress c)),
        (''settingsPda'', map_option json_nullable (cs_settingsPda c)),
        (''savedAt'', Some (JNumber (Finite savedAt))),
        (''expiresAt'', Some (JNumber (Finite
           (savedAt + (case ttlMs of Some t \<Rightarrow> t | None \<Rightarrow> CLIENT_REOPEN_CACHE_TTL_MS))))),
        (''data'', data)]"

definition writeClientCache ::
    "(json \<Rightarrow> string option) \<Rightarrow> rat \<Rightarrow> cache_scope \<Rightarrow> json option \<Rightarrow> rat option \<Rightarrow> rat option \<Rightarrow> storage_access \<Rightarrow>
     (string, string) jsmap \<Rightarrow> (string, string) jsmap" where
  "writeClientCache stringify Date_now c data ttlMs now a items =
     (if \<not> sa_present a then items
      else let savedAt = (case now of Some n \<Rightarrow> n | None \<Rightarrow> Date_now) in
      case stringify (cache_envelope c data ttlMs savedAt) of
        None \<Rightarrow> items
      | Some raw \<Rightarrow> if sa_setThrows a then items else jm_set (cs_key c) raw items)"

definition removeClientCache :: "string \<Rightarrow> storage_access \<Rightarrow> (string, string) jsmap \<Rightarrow> (string, string) jsmap" where
  "removeClientCache key a items =
     (if \<not> sa_present a \<or> sa_removeThrows a then items else jm_delete key items)"

section \<open>What a read returns after a write\<close>

text \<open>A reader's scope matches a writer's: a reader that leaves a field undefined does not check it.\<close>

definition scope_matches :: "cache_scope \<Rightarrow> cache_scope \<Rightarrow> bool" where
  "scope_matches r w \<longleftrightarrow>
     cs_version r = cs_version w \<and> cs_solanaEnv r = cs_solanaEnv w \<and>
     (cs_walletAddress r = None \<or> cs_walletAddress r = cs_walletAddress w) \<and>
     (cs_settingsPda r = None \<or> cs_settingsPda r = cs_settingsPda w)"

lemma json_nullable_inject [simp]: "json_nullable a = json_nullable b \<longleftrightarrow> a = b"
  by (auto simp: json_nullable_def split: option.splits)

lemma nullable_field_inject:
  "map_option json_nullable a = map_option json_nullable b \<longleftrightarrow> a = b"
  by (cases a; cases b) simp_all

lemma object_literal_field:
  assumes "distinct (map fst props)" "(k, v) \<in> set props"
  shows "get_prop (object_literal props) k = v"
proof -
  let ?kept = "\<lambda>xs. [(k, the v). (k, v) \<leftarrow> xs, v \<noteq> None]"
  have "map_of (?kept props) k = v"
    using assms
  proof (induction props)
    case (Cons x xs)
    have other: "k' \<notin> fst ` set xs \<Longrightarrow> map_of (?kept xs) k' = None" for k' by (induction xs) auto
    show ?case using Cons other by (cases x) (cases "snd x"; force)
  qed simp
  then show ?thesis by (simp add: object_literal_def get_prop_def)
qed

lemma isObject_literal [simp]: "isObject (object_literal props)"
  by (simp add: object_literal_def isObject_def)

lemma envelope_fields:
  "get_prop (cache_envelope c data ttl savedAt) ''version'' = Some (JNumber (Finite (cs_version c)))"
  "get_prop (cache_envelope c data ttl savedAt) ''solanaEnv'' = Some (JString (cs_solanaEnv c))"
  "get_prop (cache_envelope c data ttl savedAt) ''walletAddress'' = map_option json_nullable (cs_walletAddress c)"
  "get_prop (cache_envelope c data ttl savedAt) ''settingsPda'' = map_option json_nullable (cs_settingsPda c)"
  "get_prop (cache_envelope c data ttl savedAt) ''savedAt'' = Some (JNumber (Finite savedAt))"
  "get_prop (cache_envelope c data ttl savedAt) ''expiresAt'' =
     Some (JNumber (Finite (savedAt + (case ttl of Some t \<Rightarrow> t | None \<Rightarrow> CLIENT_REOPEN_CACHE_TTL_MS))))"
  "get_prop (cache_envelope c data ttl savedAt) ''data'' = data"
  unfolding cache_envelope_def by (rule object_literal_field; simp)+

lemma read_ignores_other_keys:
  assumes "jm_get items (cs_key r) = jm_get items' (cs_key r)"
  shows "readClientCacheEntry parse clock r now validate a items = readClientCacheEntry parse clock r now validate a items'"
  unfolding readClientCacheEntry_def assms by (rule refl)

lemma read_envelope:
  assumes "sa_present a" "\<not> sa_getThrows a" "jm_get items (cs_key r) = Some raw" "raw \<noteq> []"
    "parse raw = Some (cache_envelope w data ttl savedAt)"
  shows "readClientCacheEntry parse clock r (Some now) validate a items =
    (case data of
       Some d \<Rightarrow>
         if scope_matches r w \<and> now < savedAt + (case ttl of Some t \<Rightarrow> t | None \<Rightarrow> CLIENT_REOPEN_CACHE_TTL_MS) \<and>
            (case validate of Some f \<Rightarrow> f d | None \<Rightarrow> True)
         then Some \<lparr>ce_data = d, ce_savedAt = Finite savedAt\<rparr> else None
     | None \<Rightarrow> None)"
  using assms(1,2,4)
  by (simp add: readClientCacheEntry_def assms(3,5) truthy_def envelope_fields nullable_field_inject expired_def
      scope_matches_def Let_def cache_envelope_def [THEN arg_cong, of isObject] eq_commute not_le split: option.split)

text \<open>
  C38.  The cache returns what was written, and only within the scope and lifetime it was written for.
  After a successful write every read returns: under the same key, the data with the time of
  the write, precisely when version and network are equal, a wallet or account the reader names is
  the writer's, the entry has not expired and the reader's validation accepts the data; under
  another key, what it returned before.  After a removal a read of that key returns nothing.
\<close>

theorem client_cache_roundtrip:
  assumes "sa_present a" "\<not> sa_setThrows a" "\<not> sa_getThrows a" "\<not> sa_removeThrows a"
    "stringify (cache_envelope w (Some d) ttl savedAt) = Some raw" "raw \<noteq> []"
    "parse raw = Some (cache_envelope w (Some d) ttl savedAt)"
  shows "readClientCacheEntry parse clock r (Some now) validate a
      (writeClientCache stringify clock' w (Some d) ttl (Some savedAt) a items) =
    (if cs_key r = cs_key w then
       if scope_matches r w \<and> now < savedAt + (case ttl of Some t \<Rightarrow> t | None \<Rightarrow> CLIENT_REOPEN_CACHE_TTL_MS) \<and>
          (case validate of Some f \<Rightarrow> f d | None \<Rightarrow> True)
       then Some \<lparr>ce_data = d, ce_savedAt = Finite savedAt\<rparr> else None
     else readClientCacheEntry parse clock r (Some now) validate a items) \<and>
   readClientCacheEntry parse clock r (Some now) validate a (removeClientCache (cs_key r) a items) = None"
proof
  have written: "writeClientCache stringify clock' w (Some d) ttl (Some savedAt) a items = jm_set (cs_key w) raw items"
    using assms by (simp add: writeClientCache_def)
  show "readClientCacheEntry parse clock r (Some now) validate a (removeClientCache (cs_key r) a items) = None"
    using assms by (simp add: removeClientCache_def readClientCacheEntry_def jm_get_delete truthy_def)
  show "readClientCacheEntry parse clock r (Some now) validate a
      (writeClientCache stringify clock' w (Some d) ttl (Some savedAt) a items) =
    (if cs_key r = cs_key w then
       if scope_matches r w \<and> now < savedAt + (case ttl of Some t \<Rightarrow> t | None \<Rightarrow> CLIENT_REOPEN_CACHE_TTL_MS) \<and>
          (case validate of Some f \<Rightarrow> f d | None \<Rightarrow> True)
       then Some \<lparr>ce_data = d, ce_savedAt = Finite savedAt\<rparr> else None
     else readClientCacheEntry parse clock r (Some now) validate a items)"
  proof (cases "cs_key r = cs_key w")
    case True
    then have "jm_get (jm_set (cs_key w) raw items) (cs_key r) = Some raw" by (simp add: jm_get_set)
    from read_envelope [where parse = parse, OF assms(1,3) this assms(6,7)] True show ?thesis unfolding written by simp
  next
    case False
    then have "jm_get (jm_set (cs_key w) raw items) (cs_key r) = jm_get items (cs_key r)" by (simp add: jm_get_set)
    from read_ignores_other_keys [OF this] False show ?thesis unfolding written by simp
  qed
qed

definition example_scope :: "string option \<Rightarrow> cache_scope" where
  "example_scope wallet =
     \<lparr>cs_key = ''k'', cs_version = 1, cs_solanaEnv = ''mainnet'', cs_walletAddress = Some wallet, cs_settingsPda = None\<rparr>"

theorem client_cache_roundtrip_witness:
  "readClientCacheEntry (\<lambda>_. Some (cache_envelope (example_scope (Some ''w'')) (Some (JBool True)) (Some 10) 5)) 0
     (example_scope (Some ''w'')) (Some 14) None working_storage
     (writeClientCache (\<lambda>_. Some ''text'') 0 (example_scope (Some ''w'')) (Some (JBool True)) (Some 10) (Some 5) working_storage []) =
     Some \<lparr>ce_data = JBool True, ce_savedAt = Finite 5\<rparr> \<and>
   readClientCacheEntry (\<lambda>_. Some (cache_envelope (example_scope (Some ''w'')) (Some (JBool True)) (Some 10) 5)) 0
     (example_scope (Some ''other'')) (Some 14) None working_storage
     (writeClientCache (\<lambda>_. Some ''text'') 0 (example_scope (Some ''w'')) (Some (JBool True)) (Some 10) (Some 5) working_storage []) =
     None"
proof -
  let ?w = "example_scope (Some ''w'')"
  note * = client_cache_roundtrip [where stringify = "\<lambda>_. Some ''text''" and a = working_storage and w = ?w and
    d = "JBool True" and ttl = "Some 10" and savedAt = 5 and raw = "''text''" and clock = 0 and clock' = 0 and
    parse = "\<lambda>_. Some (cache_envelope ?w (Some (JBool True)) (Some 10) 5)" and now = 14 and validate = None and items = "[]"]
  have "scope_matches ?w ?w" "\<not> scope_matches (example_scope (Some ''other'')) ?w"
    by (simp_all add: scope_matches_def example_scope_def)
  with * [where r = ?w] * [where r = "example_scope (Some ''other'')"] show ?thesis
    by (simp add: working_storage_def) (simp add: example_scope_def)
qed

end
