(* ===== verification/Mutation_Registry.thy ===== *)
theory Mutation_Registry
  imports Realtime_Types
begin

text \<open>
  \<open>earn-realtime/mutation-reconciliation.ts\<close>: the registry that correlates a mutation made in this
  browser with the durable event it will cause.  A registered mutation waits for events that match
  it and cover the resources it changed; a timer reads what no event covered.  Planning a batch of
  events and accepting it are separate calls with a read between them, so registrations, timers and
  other plans may come in between.

  An entry object of the source is identified by its key and its registration order, and a plan
  refers to entries by that pair.  The events of one plan are distinct objects, so the claim of an
  event is stored by position.
\<close>

section \<open>Entries\<close>

datatype mutation_operation =
    Autodeposit_close | Autodeposit_floor | Autodeposit_setup | Autodeposit_toggle
  | Cleanup | Deposit | Policy_setup | Withdraw_full | Withdraw_partial

text \<open>\<open>ex_related\<close> tells whether \<open>reconcileRelated\<close> is present.\<close>

record expected_mutation =
  ex_key :: string
  ex_operation :: mutation_operation
  ex_related :: bool
  ex_resources :: "string list"
  ex_signature :: "string option"
  ex_targetId :: "string option"

record planned_event =
  pe_event :: invalidation
  pe_resources :: "string list"

text \<open>\<open>en_fallback\<close> tells whether the fallback timer is still armed.\<close>

record expected_entry = expected_mutation +
  en_covered :: "string set"
  en_order :: nat
  en_pending :: "string set"
  en_relatedCovered :: bool
  en_relatedPending :: bool
  en_fallback :: bool

record recent_event = planned_event +
  rc_acceptedAt :: int
  rc_claimedBy :: "string option"

record registry =
  rg_entries :: "(string, expected_entry) jsmap"
  rg_nextOrder :: nat
  rg_recent :: "recent_event list"

definition new_registry :: registry where
  "new_registry = \<lparr>rg_entries = [], rg_nextOrder = 0, rg_recent = []\<rparr>"

definition mutation_covered :: "expected_entry \<Rightarrow> bool" where
  "mutation_covered entry \<longleftrightarrow>
     list_all (\<lambda>r. r \<in> en_covered entry) (ex_resources entry) \<and>
     (\<not> ex_related entry \<or> en_relatedCovered entry)"

definition matchesExpectedMutation :: "'a expected_mutation_scheme \<Rightarrow> invalidation \<Rightarrow> bool" where
  "matchesExpectedMutation expected event =
     (let is_type = (\<lambda>f. ev_eventType event = f EARN_REALTIME_EVENT_TYPES);
          operation = ex_operation expected in
      if truthy (ex_targetId expected) \<and> ev_targetId event \<noteq> ex_targetId expected then False
      else if operation = Cleanup \<and> (is_type et_allowance \<or> is_type et_onboarding) then True
      else if operation \<in> {Autodeposit_close, Autodeposit_floor, Autodeposit_setup, Autodeposit_toggle} then
        is_type et_allowance
      else if operation = Policy_setup then is_type et_onboarding
      else if is_type et_position then operation \<in> {Deposit, Withdraw_partial, Withdraw_full, Cleanup}
      else if \<not> is_type et_transaction then False
      else
        let reason = (case ev_reason event of None \<Rightarrow> [] | Some reason \<Rightarrow> reason) in
        if operation = Deposit then take 22 reason = ''holding_event_deposit_''
        else if operation = Withdraw_partial then reason = ''holding_event_withdrawal_partial''
        else if operation \<in> {Withdraw_full, Cleanup} then reason = ''holding_event_withdrawal_full''
        else False)"

definition isSignatureOnlyExpectedMutation :: "'a expected_mutation_scheme \<Rightarrow> bool" where
  "isSignatureOnlyExpectedMutation expected \<longleftrightarrow>
     ex_signature expected \<noteq> None \<and> \<not> truthy (ex_targetId expected)"

definition matchesHistoricalExpectedMutation :: "'a expected_mutation_scheme \<Rightarrow> invalidation \<Rightarrow> bool" where
  "matchesHistoricalExpectedMutation expected event =
     (if isSignatureOnlyExpectedMutation expected then False else matchesExpectedMutation expected event)"

section \<open>Registering a mutation\<close>

definition pruneRecent :: "int \<Rightarrow> int \<Rightarrow> registry \<Rightarrow> registry" where
  "pruneRecent retentionMs now reg =
     (let cutoff = now - retentionMs;
          kept = filter (\<lambda>item. rc_acceptedAt item \<ge> cutoff) (rg_recent reg) in
      reg\<lparr>rg_recent := drop (length kept - 64) kept\<rparr>)"

definition registry_remove :: "string \<Rightarrow> registry \<Rightarrow> registry" where
  "registry_remove key reg = reg\<lparr>rg_entries := jm_delete key (rg_entries reg)\<rparr>"

definition new_entry :: "expected_mutation \<Rightarrow> nat \<Rightarrow> expected_entry" where
  "new_entry expected order =
     expected_mutation.extend (expected\<lparr>ex_resources := js_unique (ex_resources expected)\<rparr>)
       (expected_entry.fields {} order {} False False True)"

text \<open>An unclaimed recent event covers the resources of a new entry that it matches.\<close>

definition claim_recent :: "recent_event \<Rightarrow> expected_entry \<Rightarrow> recent_event \<times> expected_entry" where
  "claim_recent recent entry =
     (if truthy (rc_claimedBy recent) \<or> \<not> matchesHistoricalExpectedMutation entry (pe_event recent) then
        (recent, entry)
      else
        let new = filter (\<lambda>r. r \<in> set (ex_resources entry) \<and> r \<notin> en_covered entry) (pe_resources recent) in
        (if new \<noteq> [] then recent\<lparr>rc_claimedBy := Some (ex_key entry)\<rparr> else recent,
         entry\<lparr>en_covered := en_covered entry \<union> set new\<rparr>))"

primrec claim_recents :: "recent_event list \<Rightarrow> expected_entry \<Rightarrow> recent_event list \<times> expected_entry" where
  "claim_recents [] entry = ([], entry)"
| "claim_recents (x # xs) entry =
     (case claim_recent x entry of (x', entry1) \<Rightarrow>
        (case claim_recents xs entry1 of (xs', entry2) \<Rightarrow> (x' # xs', entry2)))"

definition registry_register :: "int \<Rightarrow> int \<Rightarrow> expected_mutation \<Rightarrow> registry \<Rightarrow> registry" where
  "registry_register retentionMs now expected reg =
     (let reg1 = pruneRecent retentionMs now (registry_remove (ex_key expected) reg);
          order = rg_nextOrder reg1 + 1;
          (recent, entry) = claim_recents (rg_recent reg1) (new_entry expected order);
          reg2 = reg1\<lparr>rg_nextOrder := order, rg_recent := recent\<rparr> in
      if mutation_covered entry then reg2
      else reg2\<lparr>rg_entries := jm_set (ex_key entry) entry (rg_entries reg2)\<rparr>)"

text \<open>
  The fallback timer of an entry: the resources to read and whether to reconcile the related state.
  The promise it starts settles later.
\<close>

definition live_entry :: "registry \<Rightarrow> string \<times> nat \<Rightarrow> expected_entry option" where
  "live_entry reg i =
     (case jm_get (rg_entries reg) (fst i) of
        Some entry \<Rightarrow> if en_order entry = snd i then Some entry else None
      | None \<Rightarrow> None)"

definition fallback_missing :: "expected_entry \<Rightarrow> string list" where
  "fallback_missing entry =
     filter (\<lambda>r. r \<notin> en_covered entry \<and> r \<notin> en_pending entry) (ex_resources entry)"

definition fallback_fires :: "string \<times> nat \<Rightarrow> registry \<Rightarrow> registry \<times> (string list \<times> bool) option" where
  "fallback_fires i reg =
     (case live_entry reg i of
        None \<Rightarrow> (reg, None)
      | Some entry \<Rightarrow>
          if \<not> en_fallback entry then (reg, None)
          else
            let missing = fallback_missing entry;
                related = (ex_related entry \<and> \<not> en_relatedCovered entry \<and> \<not> en_relatedPending entry);
                fired = entry\<lparr>en_fallback := False\<rparr>;
                store = (\<lambda>e. reg\<lparr>rg_entries := jm_set (fst i) e (rg_entries reg)\<rparr>) in
            if missing = [] \<and> \<not> related then (store fired, None)
            else (store (if related then fired\<lparr>en_relatedPending := True\<rparr> else fired), Some (missing, related)))"

definition fallback_settles :: "string \<times> nat \<Rightarrow> bool \<Rightarrow> registry \<Rightarrow> registry" where
  "fallback_settles i ok reg =
     (case live_entry reg i of
        None \<Rightarrow> reg
      | Some entry \<Rightarrow>
          if ok then registry_remove (fst i) reg
          else reg\<lparr>rg_entries := jm_set (fst i) (entry\<lparr>en_relatedPending := False\<rparr>) (rg_entries reg)\<rparr>)"

section \<open>Planning and accepting events\<close>

datatype related_run = Not_started | Running | Finished bool

record event_plan =
  pl_events :: "planned_event list"
  pl_resources :: "string list"
  pl_claimed :: "(string \<times> nat, string set) jsmap"
  pl_relatedClaims :: "(string \<times> nat) list"
  pl_plannedClaims :: "string option list"
  pl_registrationOrder :: nat
  pl_settled :: bool
  pl_relatedReconciled :: bool
  pl_relatedRun :: related_run

text \<open>The resources of an event an entry still waits for.\<close>

definition claimable :: "expected_entry \<Rightarrow> string list \<Rightarrow> string list" where
  "claimable entry resources =
     filter (\<lambda>r. r \<in> set (ex_resources entry) \<and> r \<notin> en_covered entry \<and> r \<notin> en_pending entry) resources"

definition claim_target :: "planned_event \<Rightarrow> (string, expected_entry) jsmap \<Rightarrow> expected_entry option" where
  "claim_target planned entries =
     (let matches = filter (\<lambda>entry. matchesExpectedMutation entry (pe_event planned)) (jm_values entries) in
      case matches of
        [] \<Rightarrow> None
      | first # _ \<Rightarrow>
          (case find (\<lambda>candidate. claimable candidate (pe_resources planned) \<noteq> []) matches of
             Some candidate \<Rightarrow> Some candidate
           | None \<Rightarrow> Some first))"

record plan_state =
  ps_entries :: "(string, expected_entry) jsmap"
  ps_claimed :: "(string \<times> nat, string set) jsmap"
  ps_related :: "(string \<times> nat) list"
  ps_claims :: "string option list"

definition entry_id :: "expected_entry \<Rightarrow> string \<times> nat" where
  "entry_id entry = (ex_key entry, en_order entry)"

definition claim_map :: "(string \<times> nat, string set) jsmap \<Rightarrow> string \<times> nat \<Rightarrow> string set" where
  "claim_map claimed i = (case jm_get claimed i of Some rs \<Rightarrow> rs | None \<Rightarrow> {})"

definition plan_event :: "planned_event \<Rightarrow> plan_state \<Rightarrow> plan_state" where
  "plan_event planned st =
     (case claim_target planned (ps_entries st) of
        None \<Rightarrow> st\<lparr>ps_claims := ps_claims st @ [None]\<rparr>
      | Some entry \<Rightarrow>
          let new = set (claimable entry (pe_resources planned));
              related = (ex_related entry \<and> \<not> en_relatedCovered entry);
              entry' = entry\<lparr>en_pending := en_pending entry \<union> new,
                             en_relatedPending := related \<or> en_relatedPending entry\<rparr> in
          st\<lparr>ps_entries := jm_set (ex_key entry) entry' (ps_entries st),
             ps_claimed := jm_set (entry_id entry) (claim_map (ps_claimed st) (entry_id entry) \<union> new) (ps_claimed st),
             ps_related := (if related \<and> entry_id entry \<notin> set (ps_related st)
                            then ps_related st @ [entry_id entry] else ps_related st),
             ps_claims := ps_claims st @ [Some (ex_key entry)]\<rparr>)"

definition registry_plan :: "int \<Rightarrow> int \<Rightarrow> planned_event list \<Rightarrow> registry \<Rightarrow> registry \<times> event_plan" where
  "registry_plan retentionMs now events reg =
     (let reg1 = pruneRecent retentionMs now reg;
          st = fold plan_event events
                 \<lparr>ps_entries = rg_entries reg1, ps_claimed = [], ps_related = [], ps_claims = []\<rparr> in
      (reg1\<lparr>rg_entries := ps_entries st\<rparr>,
       \<lparr>pl_events = events, pl_resources = js_unique (concat (map pe_resources events)),
        pl_claimed = ps_claimed st, pl_relatedClaims = ps_related st, pl_plannedClaims = ps_claims st,
        pl_registrationOrder = rg_nextOrder reg1, pl_settled = False,
        pl_relatedReconciled = (ps_related st = []), pl_relatedRun = Not_started\<rparr>))"

text \<open>\<open>reconcileRelated\<close> of a plan runs its reconciliations once, whatever their outcome.\<close>

definition plan_reconcileRelated :: "event_plan \<Rightarrow> event_plan \<times> (string \<times> nat) list" where
  "plan_reconcileRelated p =
     (case pl_relatedRun p of
        Not_started \<Rightarrow> (p\<lparr>pl_relatedRun := Running\<rparr>, pl_relatedClaims p)
      | Running \<Rightarrow> (p, [])
      | Finished ok \<Rightarrow> (if ok then p\<lparr>pl_relatedReconciled := True\<rparr> else p, []))"

definition plan_related_settles :: "bool \<Rightarrow> event_plan \<Rightarrow> event_plan" where
  "plan_related_settles ok p =
     (if pl_relatedRun p = Running then
        p\<lparr>pl_relatedRun := Finished ok, pl_relatedReconciled := ok \<or> pl_relatedReconciled p\<rparr>
      else p)"

definition settle_entry :: "bool \<Rightarrow> event_plan \<Rightarrow> string set \<Rightarrow> expected_entry \<Rightarrow> expected_entry" where
  "settle_entry accepted p rs entry =
     (let entry1 = (if entry_id entry \<in> set (pl_relatedClaims p) then
                      entry\<lparr>en_relatedPending := False,
                            en_relatedCovered := (accepted \<and> pl_relatedReconciled p) \<or> en_relatedCovered entry\<rparr>
                    else entry) in
      entry1\<lparr>en_pending := en_pending entry1 - rs,
             en_covered := en_covered entry1 \<union> (if accepted then rs else {})\<rparr>)"

definition settle_claim ::
    "bool \<Rightarrow> event_plan \<Rightarrow> (string \<times> nat) \<times> string set \<Rightarrow> (string, expected_entry) jsmap \<Rightarrow>
     (string, expected_entry) jsmap" where
  "settle_claim accepted p c entries =
     (case c of ((key, order), rs) \<Rightarrow>
        case jm_get entries key of
          None \<Rightarrow> entries
        | Some entry \<Rightarrow>
            if en_order entry \<noteq> order then entries
            else
              let entry' = settle_entry accepted p rs entry in
              if accepted \<and> mutation_covered entry' then jm_delete key entries
              else jm_set key entry' entries)"

text \<open>An accepted event no entry claimed may still serve a mutation registered after the plan.\<close>

definition late_target :: "nat \<Rightarrow> planned_event \<Rightarrow> (string, expected_entry) jsmap \<Rightarrow> expected_entry option" where
  "late_target order planned entries =
     find (\<lambda>candidate. order < en_order candidate \<and>
             matchesHistoricalExpectedMutation candidate (pe_event planned) \<and>
             list_ex (\<lambda>r. r \<in> set (ex_resources candidate) \<and> r \<notin> en_covered candidate) (pe_resources planned))
       (jm_values entries)"

definition late_claim ::
    "nat \<Rightarrow> recent_event \<Rightarrow> (string, expected_entry) jsmap \<Rightarrow> recent_event \<times> (string, expected_entry) jsmap" where
  "late_claim order recent entries =
     (if truthy (rc_claimedBy recent) then (recent, entries)
      else case late_target order (planned_event.truncate recent) entries of
        None \<Rightarrow> (recent, entries)
      | Some entry \<Rightarrow>
          let entry' = entry\<lparr>en_covered := en_covered entry \<union> (set (pe_resources recent) \<inter> set (ex_resources entry))\<rparr> in
          (recent\<lparr>rc_claimedBy := Some (ex_key entry)\<rparr>,
           if mutation_covered entry' then jm_delete (ex_key entry) entries
           else jm_set (ex_key entry) entry' entries))"

primrec late_claims ::
    "nat \<Rightarrow> recent_event list \<Rightarrow> (string, expected_entry) jsmap \<Rightarrow>
     recent_event list \<times> (string, expected_entry) jsmap" where
  "late_claims order [] entries = ([], entries)"
| "late_claims order (x # xs) entries =
     (case late_claim order x entries of (x', entries1) \<Rightarrow>
        (case late_claims order xs entries1 of (xs', entries2) \<Rightarrow> (x' # xs', entries2)))"

definition accepted_recents :: "int \<Rightarrow> event_plan \<Rightarrow> recent_event list" where
  "accepted_recents now p =
     map2 (\<lambda>planned claim. planned_event.extend planned (recent_event.fields now claim))
       (pl_events p) (pl_plannedClaims p)"

definition plan_accept :: "int \<Rightarrow> int \<Rightarrow> bool \<Rightarrow> event_plan \<Rightarrow> registry \<Rightarrow> registry \<times> event_plan" where
  "plan_accept retentionMs now accepted p reg =
     (if pl_settled p then (reg, p)
      else
        let entries1 = fold (settle_claim accepted p) (pl_claimed p) (rg_entries reg);
            (recents, entries2) =
              (if accepted then late_claims (pl_registrationOrder p) (accepted_recents now p) entries1
               else ([], entries1)) in
        (pruneRecent retentionMs now (reg\<lparr>rg_entries := entries2, rg_recent := rg_recent reg @ recents\<rparr>),
         p\<lparr>pl_settled := True\<rparr>))"

definition registry_reset :: "registry \<Rightarrow> registry" where
  "registry_reset reg = reg\<lparr>rg_entries := [], rg_recent := []\<rparr>"

section \<open>Histories\<close>

text \<open>
  Every sequence of calls: the registry, the plans handed out so far, and the events whose reads were
  accepted.  Removal stands for the expiry timer and for the function \<open>register\<close> returns.
\<close>

inductive mutation_history :: "registry \<Rightarrow> event_plan list \<Rightarrow> planned_event list \<Rightarrow> bool" where
  mutation_new: "mutation_history new_registry [] []"
| mutation_register:
    "mutation_history reg plans accepted \<Longrightarrow>
     mutation_history (registry_register retentionMs now expected reg) plans accepted"
| mutation_plan:
    "mutation_history reg plans accepted \<Longrightarrow> registry_plan retentionMs now events reg = (reg', p) \<Longrightarrow>
     mutation_history reg' (plans @ [p]) accepted"
| mutation_related:
    "mutation_history reg plans accepted \<Longrightarrow> i < length plans \<Longrightarrow>
     mutation_history reg (plans[i := fst (plan_reconcileRelated (plans ! i))]) accepted"
| mutation_related_settles:
    "mutation_history reg plans accepted \<Longrightarrow> i < length plans \<Longrightarrow>
     mutation_history reg (plans[i := plan_related_settles ok (plans ! i)]) accepted"
| mutation_accept:
    "mutation_history reg plans accepted \<Longrightarrow> i < length plans \<Longrightarrow>
     plan_accept retentionMs now ok (plans ! i) reg = (reg', p) \<Longrightarrow>
     mutation_history reg' (plans[i := p])
       (accepted @ (if ok \<and> \<not> pl_settled (plans ! i) then pl_events (plans ! i) else []))"
| mutation_fallback:
    "mutation_history reg plans accepted \<Longrightarrow> mutation_history (fst (fallback_fires i reg)) plans accepted"
| mutation_fallback_settles:
    "mutation_history reg plans accepted \<Longrightarrow> mutation_history (fallback_settles i ok reg) plans accepted"
| mutation_remove:
    "mutation_history reg plans accepted \<Longrightarrow> mutation_history (registry_remove key reg) plans accepted"
| mutation_reset:
    "mutation_history reg plans accepted \<Longrightarrow> mutation_history (registry_reset reg) plans accepted"

definition justified :: "planned_event list \<Rightarrow> expected_entry \<Rightarrow> string \<Rightarrow> bool" where
  "justified events entry r \<longleftrightarrow>
     (\<exists>planned \<in> set events. matchesExpectedMutation entry (pe_event planned) \<and> r \<in> set (pe_resources planned))"

definition owners :: "event_plan list \<Rightarrow> string \<times> nat \<Rightarrow> string \<Rightarrow> event_plan list" where
  "owners plans i r = filter (\<lambda>p. \<not> pl_settled p \<and> r \<in> claim_map (pl_claimed p) i) plans"

definition entry_inv :: "nat \<Rightarrow> planned_event list \<Rightarrow> string \<Rightarrow> expected_entry \<Rightarrow> bool" where
  "entry_inv n accepted k e \<longleftrightarrow>
     ex_key e = k \<and> en_order e \<le> n \<and> \<not> mutation_covered e \<and>
     en_covered e \<subseteq> {r \<in> set (ex_resources e). justified accepted e r} \<and> en_pending e \<subseteq> set (ex_resources e)"

definition plan_inv :: "nat \<Rightarrow> (string, expected_entry) jsmap \<Rightarrow> event_plan \<Rightarrow> bool" where
  "plan_inv n entries p \<longleftrightarrow>
     jm_wf (pl_claimed p) \<and> (\<forall>i \<in> set (jm_keys (pl_claimed p)). snd i \<le> n) \<and>
     (\<forall>k e r. jm_get entries k = Some e \<longrightarrow> r \<in> claim_map (pl_claimed p) (entry_id e) \<longrightarrow>
        justified (pl_events p) e r \<and> r \<in> set (ex_resources e))"

definition registry_inv :: "registry \<Rightarrow> event_plan list \<Rightarrow> planned_event list \<Rightarrow> bool" where
  "registry_inv reg plans accepted \<longleftrightarrow>
     jm_wf (rg_entries reg) \<and>
     (\<forall>k e. jm_get (rg_entries reg) k = Some e \<longrightarrow>
        entry_inv (rg_nextOrder reg) accepted k e \<and>
        (\<forall>r. length (owners plans (entry_id e) r) = (if r \<in> en_pending e then 1 else 0))) \<and>
     (\<forall>p \<in> set plans. plan_inv (rg_nextOrder reg) (rg_entries reg) p) \<and>
     (\<forall>recent \<in> set (rg_recent reg). planned_event.truncate recent \<in> set accepted)"

section \<open>Updates that do not change what an entry waits for\<close>

lemma matches_update [simp]:
  "matchesExpectedMutation (e\<lparr>en_covered := c\<rparr>) = matchesExpectedMutation e"
  "matchesExpectedMutation (e\<lparr>en_pending := q\<rparr>) = matchesExpectedMutation e"
  "matchesExpectedMutation (e\<lparr>en_relatedPending := b\<rparr>) = matchesExpectedMutation e"
  "matchesExpectedMutation (e\<lparr>en_relatedCovered := b\<rparr>) = matchesExpectedMutation e"
  "matchesExpectedMutation (e\<lparr>en_fallback := b\<rparr>) = matchesExpectedMutation e"
  by (simp_all add: matchesExpectedMutation_def fun_eq_iff cong: if_cong)

lemma justified_update [simp]:
  "justified a (e\<lparr>en_covered := c\<rparr>) = justified a e" "justified a (e\<lparr>en_pending := q\<rparr>) = justified a e"
  "justified a (e\<lparr>en_relatedPending := b\<rparr>) = justified a e" "justified a (e\<lparr>en_relatedCovered := b\<rparr>) = justified a e"
  "justified a (e\<lparr>en_fallback := b\<rparr>) = justified a e"
  by (simp_all add: justified_def fun_eq_iff)

lemma entry_id_update [simp]:
  "entry_id (e\<lparr>en_covered := c\<rparr>) = entry_id e" "entry_id (e\<lparr>en_pending := q\<rparr>) = entry_id e"
  "entry_id (e\<lparr>en_relatedPending := b\<rparr>) = entry_id e" "entry_id (e\<lparr>en_relatedCovered := b\<rparr>) = entry_id e"
  "entry_id (e\<lparr>en_fallback := b\<rparr>) = entry_id e"
  by (simp_all add: entry_id_def)

lemma mutation_covered_update [simp]:
  "mutation_covered (e\<lparr>en_pending := q\<rparr>) = mutation_covered e"
  "mutation_covered (e\<lparr>en_relatedPending := b\<rparr>) = mutation_covered e"
  "mutation_covered (e\<lparr>en_fallback := b\<rparr>) = mutation_covered e"
  by (simp_all add: mutation_covered_def)

lemma justified_mono: "justified a e r \<Longrightarrow> set a \<subseteq> set b \<Longrightarrow> justified b e r"
  by (auto simp: justified_def)

lemma entry_inv_update [simp]:
  "entry_inv n a k (e\<lparr>en_relatedPending := b\<rparr>) = entry_inv n a k e"
  "entry_inv n a k (e\<lparr>en_fallback := b\<rparr>) = entry_inv n a k e"
  by (simp_all add: entry_inv_def)

lemma entry_inv_mono: "entry_inv n a k e \<Longrightarrow> n \<le> m \<Longrightarrow> set a \<subseteq> set b \<Longrightarrow> entry_inv m b k e"
  by (auto simp: entry_inv_def intro: justified_mono)

lemma entry_inv_Suc: "entry_inv n a k e \<Longrightarrow> entry_inv (Suc n) a k e"
  by (erule entry_inv_mono) simp_all

section \<open>The invariant\<close>

text \<open>Two versions of one entry object: same identity, same resources, same matching events.\<close>

definition same_entry :: "expected_entry \<Rightarrow> expected_entry \<Rightarrow> bool" where
  "same_entry e' e \<longleftrightarrow>
     entry_id e' = entry_id e \<and> ex_resources e' = ex_resources e \<and>
     matchesExpectedMutation e' = matchesExpectedMutation e"

lemma same_entry_refl [simp]: "same_entry e e"
  by (simp add: same_entry_def)

lemma same_entry_trans: "same_entry e'' e' \<Longrightarrow> same_entry e' e \<Longrightarrow> same_entry e'' e"
  by (simp add: same_entry_def)

lemma same_entry_justified: "same_entry e' e \<Longrightarrow> justified a e' = justified a e"
  by (simp add: same_entry_def justified_def fun_eq_iff)

lemma plan_invD:
  assumes "plan_inv n entries p"
  shows "jm_wf (pl_claimed p)" "i \<in> set (jm_keys (pl_claimed p)) \<Longrightarrow> snd i \<le> n"
    "jm_get entries k = Some e \<Longrightarrow> r \<in> claim_map (pl_claimed p) (entry_id e) \<Longrightarrow>
       justified (pl_events p) e r \<and> r \<in> set (ex_resources e)"
  using assms unfolding plan_inv_def by blast+

lemma registry_invD:
  assumes "registry_inv reg plans a"
  shows "jm_wf (rg_entries reg)"
    "jm_get (rg_entries reg) k = Some e \<Longrightarrow> entry_inv (rg_nextOrder reg) a k e"
    "jm_get (rg_entries reg) k = Some e \<Longrightarrow> length (owners plans (entry_id e) r) = (if r \<in> en_pending e then 1 else 0)"
    "p \<in> set plans \<Longrightarrow> plan_inv (rg_nextOrder reg) (rg_entries reg) p"
    "recent \<in> set (rg_recent reg) \<Longrightarrow> planned_event.truncate recent \<in> set a"
  using assms unfolding registry_inv_def by blast+

lemma registry_invI:
  assumes "jm_wf (rg_entries reg)"
    "\<And>k e. jm_get (rg_entries reg) k = Some e \<Longrightarrow> entry_inv (rg_nextOrder reg) a k e"
    "\<And>k e r. jm_get (rg_entries reg) k = Some e \<Longrightarrow> length (owners plans (entry_id e) r) = (if r \<in> en_pending e then 1 else 0)"
    "\<And>p. p \<in> set plans \<Longrightarrow> plan_inv (rg_nextOrder reg) (rg_entries reg) p"
    "\<And>recent. recent \<in> set (rg_recent reg) \<Longrightarrow> planned_event.truncate recent \<in> set a"
  shows "registry_inv reg plans a"
  using assms unfolding registry_inv_def by blast

lemma inv_weaken:
  assumes "registry_inv reg plans accepted" "jm_wf (rg_entries reg')" "rg_nextOrder reg \<le> rg_nextOrder reg'"
    and "\<And>k e'. jm_get (rg_entries reg') k = Some e' \<Longrightarrow>
      \<exists>e. jm_get (rg_entries reg) k = Some e \<and> same_entry e' e \<and> en_pending e' = en_pending e \<and>
        entry_inv (rg_nextOrder reg') accepted' k e'"
    and "\<forall>recent \<in> set (rg_recent reg'). planned_event.truncate recent \<in> set accepted'"
  shows "registry_inv reg' plans accepted'"
proof (rule registry_invI)
  note inv = registry_invD [OF assms(1)]
  {
    fix k e' assume "jm_get (rg_entries reg') k = Some e'"
    from assms(4) [OF this] show "entry_inv (rg_nextOrder reg') accepted' k e'" by blast
  next
    fix k e' r assume "jm_get (rg_entries reg') k = Some e'"
    from assms(4) [OF this] obtain e where "jm_get (rg_entries reg) k = Some e" "same_entry e' e"
      "en_pending e' = en_pending e" by blast
    then show "length (owners plans (entry_id e') r) = (if r \<in> en_pending e' then 1 else 0)"
      using inv(3) [of k e r] by (simp add: same_entry_def)
  next
    fix p assume "p \<in> set plans"
    note p = plan_invD [OF inv(4) [OF this]]
    show "plan_inv (rg_nextOrder reg') (rg_entries reg') p"
      unfolding plan_inv_def
    proof (intro conjI ballI allI impI)
      show "jm_wf (pl_claimed p)" by (rule p(1))
      fix i assume "i \<in> set (jm_keys (pl_claimed p))"
      from p(2) [OF this] assms(3) show "snd i \<le> rg_nextOrder reg'" by (rule le_trans)
    next
      fix k e' r assume e': "jm_get (rg_entries reg') k = Some e'" and r: "r \<in> claim_map (pl_claimed p) (entry_id e')"
      from assms(4) [OF e'] obtain e where e: "jm_get (rg_entries reg) k = Some e" "same_entry e' e" by blast
      from p(3) [OF e(1), of r] r e(2) show "justified (pl_events p) e' r" "r \<in> set (ex_resources e')"
        by (simp_all add: same_entry_justified [OF e(2)]) (simp_all add: same_entry_def)
    qed
  }
qed (use assms(2,5) in auto)

lemma inv_delete:
  assumes "registry_inv reg plans a"
  shows "registry_inv (reg\<lparr>rg_entries := jm_delete key (rg_entries reg)\<rparr>) plans a"
  by (rule inv_weaken [OF assms])
    (use registry_invD [OF assms] in \<open>auto simp: jm_get_delete split: if_splits\<close>)

lemma inv_touch:
  assumes "registry_inv reg plans a" "jm_get (rg_entries reg) k = Some e" "same_entry e' e"
    "en_pending e' = en_pending e" "entry_inv (rg_nextOrder reg) a k e'"
  shows "registry_inv (reg\<lparr>rg_entries := jm_set k e' (rg_entries reg)\<rparr>) plans a"
  by (rule inv_weaken [OF assms(1)])
    (use assms registry_invD [OF assms(1)] in \<open>auto simp: jm_get_set split: if_splits\<close>)

lemma inv_recent:
  assumes "registry_inv reg plans a" "planned_event.truncate ` set rs \<subseteq> set a"
  shows "registry_inv (reg\<lparr>rg_recent := rs\<rparr>) plans a"
  by (rule inv_weaken [OF assms(1)]) (use registry_invD [OF assms(1)] assms(2) in auto)

lemma inv_prune: "registry_inv reg plans a \<Longrightarrow> registry_inv (pruneRecent ret now reg) plans a"
  unfolding pruneRecent_def Let_def
  by (rule inv_recent) (auto dest!: in_set_dropD intro: registry_invD(5))

lemma claim_map_fresh: "i \<notin> set (jm_keys claimed) \<Longrightarrow> claim_map claimed i = {}"
  by (metis claim_map_def jm_has_iff option.simps(4))

lemma inv_insert:
  assumes inv: "registry_inv reg plans a" and e: "entry_inv (Suc (rg_nextOrder reg)) a k e"
    and new: "en_order e = Suc (rg_nextOrder reg)" "en_pending e = {}"
  shows "registry_inv (reg\<lparr>rg_nextOrder := Suc (rg_nextOrder reg), rg_entries := jm_set k e (rg_entries reg)\<rparr>) plans a"
proof -
  have fresh: "claim_map (pl_claimed p) (entry_id e) = {}" if "p \<in> set plans" for p
  proof (rule claim_map_fresh)
    show "entry_id e \<notin> set (jm_keys (pl_claimed p))"
      using plan_invD(2) [OF registry_invD(4) [OF inv that], of "entry_id e"] new(1) by (auto simp: entry_id_def)
  qed
  then have "owners plans (entry_id e) r = []" for r by (simp add: owners_def filter_empty_conv)
  with new inv have owned: "length (owners plans (entry_id e') r) = (if r \<in> en_pending e' then 1 else 0)"
    if "jm_get (jm_set k e (rg_entries reg)) k' = Some e'" for k' e' r
    using registry_invD(3) [OF inv, of k' e' r] that by (auto simp: jm_get_set split: if_splits)
  have "plan_inv (Suc (rg_nextOrder reg)) (jm_set k e (rg_entries reg)) p" if "p \<in> set plans" for p
    using plan_invD [OF registry_invD(4) [OF inv that]] fresh [OF that] unfolding plan_inv_def
    by (auto simp: jm_get_set le_SucI split: if_splits)
  moreover have "entry_inv (Suc (rg_nextOrder reg)) a k' e'"
    if "jm_get (jm_set k e (rg_entries reg)) k' = Some e'" for k' e'
    using e that registry_invD(2) [OF inv, of k' e'] by (auto simp: jm_get_set split: if_splits intro: entry_inv_mono)
  ultimately show ?thesis
    using owned registry_invD(1,5) [OF inv] by (intro registry_invI) auto
qed

lemma claim_recents_inv:
  assumes "\<forall>recent \<in> set rs. planned_event.truncate recent \<in> set a"
    and "en_covered e \<subseteq> {r \<in> set (ex_resources e). justified a e r}"
    and "claim_recents rs e = (rs', e')"
  shows "planned_event.truncate ` set rs' \<subseteq> set a \<and> same_entry e' e \<and> en_pending e' = en_pending e \<and>
    en_covered e' \<subseteq> {r \<in> set (ex_resources e). justified a e r}"
  using assms
proof (induction rs arbitrary: e rs' e')
  case (Cons x xs)
  obtain x1 e1 where c: "claim_recent x e = (x1, e1)" by (cases "claim_recent x e")
  obtain xs1 where r: "claim_recents xs e1 = (xs1, e')" and rs': "rs' = x1 # xs1"
    using Cons.prems(3) c by (auto split: prod.splits)
  have j: "justified a e r" if "matchesHistoricalExpectedMutation e (pe_event x)" "r \<in> set (pe_resources x)" for r
    using that Cons.prems(1)
    by (auto simp: matchesHistoricalExpectedMutation_def justified_def planned_event.truncate_def split: if_splits
        intro!: bexI [of _ "planned_event.truncate x"])
  have e1: "same_entry e1 e" "en_pending e1 = en_pending e" "planned_event.truncate x1 = planned_event.truncate x"
    using c by (auto simp: claim_recent_def same_entry_def Let_def planned_event.truncate_def split: if_splits)
  have cov: "en_covered e1 \<subseteq> {r \<in> set (ex_resources e). justified a e r}"
    using c j Cons.prems(2) by (auto simp: claim_recent_def Let_def split: if_splits)
  then have "en_covered e1 \<subseteq> {r \<in> set (ex_resources e1). justified a e1 r}"
    using e1(1) same_entry_justified [OF e1(1)] by (simp add: same_entry_def)
  then have "planned_event.truncate ` set xs1 \<subseteq> set a \<and> same_entry e' e1 \<and> en_pending e' = en_pending e1 \<and>
      en_covered e' \<subseteq> {r \<in> set (ex_resources e1). justified a e1 r}"
    using Cons.prems(1) r by (intro Cons.IH) auto
  with e1 rs' Cons.prems(1) same_entry_justified [OF e1(1), of a] show ?case by (auto simp: same_entry_def)
qed (simp_all add: image_subset_iff)

lemma inv_register:
  assumes "registry_inv reg plans a"
  shows "registry_inv (registry_register ret now x reg) plans a"
proof -
  define reg1 where "reg1 = pruneRecent ret now (registry_remove (ex_key x) reg)"
  have inv1: "registry_inv reg1 plans a"
    unfolding reg1_def registry_remove_def by (intro inv_prune inv_delete assms)
  obtain rs e where c: "claim_recents (rg_recent reg1) (new_entry x (Suc (rg_nextOrder reg1))) = (rs, e)"
    by (cases "claim_recents (rg_recent reg1) (new_entry x (Suc (rg_nextOrder reg1)))")
  have start: "en_covered (new_entry x n) = {}" "en_pending (new_entry x n) = {}" "en_order (new_entry x n) = n"
      "ex_key (new_entry x n) = ex_key x" for n
    by (simp_all add: new_entry_def expected_mutation.defs expected_entry.defs)
  have claims: "planned_event.truncate ` set rs \<subseteq> set a" "same_entry e (new_entry x (Suc (rg_nextOrder reg1)))"
      "en_pending e = {}"
      "en_covered e \<subseteq> {r \<in> set (ex_resources (new_entry x (Suc (rg_nextOrder reg1)))).
         justified a (new_entry x (Suc (rg_nextOrder reg1))) r}"
    using claim_recents_inv [OF _ _ c, of a] registry_invD(5) [OF inv1] by (simp_all add: start)
  have e: "planned_event.truncate ` set rs \<subseteq> set a" "same_entry e (new_entry x (Suc (rg_nextOrder reg1)))"
      "en_pending e = {}" "en_covered e \<subseteq> {r \<in> set (ex_resources e). justified a e r}"
    using claims same_entry_justified [OF claims(2), of a] by (simp_all add: same_entry_def)
  have ide: "ex_key e = ex_key x" "en_order e = Suc (rg_nextOrder reg1)"
    using e(2) by (simp_all add: same_entry_def entry_id_def start)
  have inv2: "registry_inv (reg1\<lparr>rg_recent := rs\<rparr>) plans a" by (rule inv_recent [OF inv1 e(1)])
  have inv3: "registry_inv (reg1\<lparr>rg_recent := rs, rg_nextOrder := Suc (rg_nextOrder reg1)\<rparr>) plans a"
    by (rule inv_weaken [OF inv2]) (use registry_invD [OF inv2] in \<open>auto intro: entry_inv_Suc\<close>)
  have reg: "registry_register ret now x reg =
      (let reg2 = reg1\<lparr>rg_recent := rs, rg_nextOrder := Suc (rg_nextOrder reg1)\<rparr> in
       if mutation_covered e then reg2 else reg2\<lparr>rg_entries := jm_set (ex_key e) e (rg_entries reg1)\<rparr>)"
    by (simp add: registry_register_def Let_def reg1_def [symmetric] c)
  show ?thesis
  proof (cases "mutation_covered e")
    case False
    then have "entry_inv (Suc (rg_nextOrder reg1)) a (ex_key e) e" using e ide by (simp add: entry_inv_def)
    with inv_insert [OF inv2, of "ex_key e" e] ide e False show ?thesis by (simp add: reg)
  qed (simp add: reg inv3)
qed

section \<open>Planning\<close>

text \<open>What planning a list of events does to each entry: it claims resources that nobody claimed.\<close>

definition planned_from :: "(string, expected_entry) jsmap \<Rightarrow> planned_event list \<Rightarrow> plan_state \<Rightarrow> bool" where
  "planned_from entries events st \<longleftrightarrow>
     jm_wf (ps_entries st) \<and> jm_wf (ps_claimed st) \<and>
     (\<forall>i \<in> set (jm_keys (ps_claimed st)). \<exists>e. jm_get entries (fst i) = Some e \<and> entry_id e = i) \<and>
     (\<forall>k. jm_get entries k = None \<longrightarrow> jm_get (ps_entries st) k = None) \<and>
     (\<forall>k e. jm_get entries k = Some e \<longrightarrow>
        (let new = claim_map (ps_claimed st) (entry_id e) in
         (\<exists>b. jm_get (ps_entries st) k = Some (e\<lparr>en_pending := en_pending e \<union> new, en_relatedPending := b\<rparr>)) \<and>
         new \<inter> en_pending e = {} \<and> new \<subseteq> {r \<in> set (ex_resources e). justified events e r}))"

lemma claim_targetD:
  assumes "claim_target planned entries = Some e"
  shows "e \<in> set (jm_values entries)" "matchesExpectedMutation e (pe_event planned)"
proof -
  let ?ms = "filter (\<lambda>e. matchesExpectedMutation e (pe_event planned)) (jm_values entries)"
  have "e \<in> set ?ms"
    using assms unfolding claim_target_def Let_def
    by (auto split: list.splits option.splits simp del: set_filter find.simps dest!: find_SomeD)
  then show "e \<in> set (jm_values entries)" "matchesExpectedMutation e (pe_event planned)" by simp_all
qed

lemma claim_map_set: "claim_map (jm_set i rs c) j = (if j = i then rs else claim_map c j)"
  by (simp add: claim_map_def jm_get_set)

lemma planned_from_event:
  assumes st: "planned_from entries events st" and wf: "jm_wf entries"
    and keys: "\<And>k e. jm_get entries k = Some e \<Longrightarrow> ex_key e = k"
  shows "planned_from entries (events @ [planned]) (plan_event planned st)"
proof (cases "claim_target planned (ps_entries st)")
  case None
  have "justified events e r \<Longrightarrow> justified (events @ [planned]) e r" for e r by (erule justified_mono) auto
  with st None show ?thesis by (simp add: plan_event_def planned_from_def Let_def) blast
next
  case (Some c)
  note st' = st [unfolded planned_from_def Let_def]
  obtain k where k: "jm_get (ps_entries st) k = Some c"
    using claim_targetD(1) [OF Some] st' by (auto simp: jm_get_in)
  then obtain e where e: "jm_get entries k = Some e"
    using st' by (cases "jm_get entries k") auto
  define old where "old = claim_map (ps_claimed st) (entry_id e)"
  obtain b where c: "c = e\<lparr>en_pending := en_pending e \<union> old, en_relatedPending := b\<rparr>"
    using st' e k unfolding old_def by fastforce
  define new where "new = set (claimable c (pe_resources planned))"
  have ide: "entry_id c = entry_id e" "ex_key c = k" using c keys [OF e] by (simp_all add: entry_id_def)
  have m: "matchesExpectedMutation e (pe_event planned)" using claim_targetD(2) [OF Some] c by simp
  have new: "new \<inter> (en_pending e \<union> old) = {}" "new \<subseteq> {r \<in> set (ex_resources e). justified (events @ [planned]) e r}"
    using m by (auto simp: new_def claimable_def c justified_def)
  have step: "ps_entries (plan_event planned st) =
        jm_set k (c\<lparr>en_pending := en_pending c \<union> new, en_relatedPending := ex_related c \<and> \<not> en_relatedCovered c \<or> en_relatedPending c\<rparr>) (ps_entries st)"
      "ps_claimed (plan_event planned st) = jm_set (entry_id e) (old \<union> new) (ps_claimed st)"
    using Some ide unfolding plan_event_def by (simp_all add: Let_def new_def old_def)
  have other: "entry_id e' \<noteq> entry_id e" if "jm_get entries k' = Some e'" "k' \<noteq> k" for k' e'
    using keys [OF that(1)] keys [OF e] that(2) by (simp add: entry_id_def)
  have prev: "claim_map (ps_claimed st) (entry_id e') \<inter> en_pending e' = {}"
      "claim_map (ps_claimed st) (entry_id e') \<subseteq> {r \<in> set (ex_resources e'). justified events e' r}"
    if "jm_get entries k' = Some e'" for k' e'
    using st' that by blast+
  show ?thesis
    unfolding planned_from_def Let_def
  proof (intro conjI allI impI ballI)
    fix i assume "i \<in> set (jm_keys (ps_claimed (plan_event planned st)))"
    then show "\<exists>e. jm_get entries (fst i) = Some e \<and> entry_id e = i"
      using st' e keys [OF e] unfolding step jm_keys_set by (auto simp: entry_id_def)
  next
    fix k' e' assume e': "jm_get entries k' = Some e'"
    show "\<exists>b. jm_get (ps_entries (plan_event planned st)) k' =
        Some (e'\<lparr>en_pending := en_pending e' \<union> claim_map (ps_claimed (plan_event planned st)) (entry_id e'), en_relatedPending := b\<rparr>)"
      using st' e e' other [OF e'] by (cases "k' = k") (auto simp: step jm_get_set claim_map_set c Un_assoc)
    show "claim_map (ps_claimed (plan_event planned st)) (entry_id e') \<inter> en_pending e' = {}"
      using prev [OF e'] e e' other [OF e'] new by (cases "k' = k") (auto simp: step claim_map_set old_def)
    have "justified events e' r \<Longrightarrow> justified (events @ [planned]) e' r" for r by (erule justified_mono) auto
    then show "claim_map (ps_claimed (plan_event planned st)) (entry_id e') \<subseteq>
        {r \<in> set (ex_resources e'). justified (events @ [planned]) e' r}"
      using prev [OF e'] e e' other [OF e'] new by (cases "k' = k") (auto simp: step claim_map_set old_def)
  qed (use st' e in \<open>auto simp: step jm_get_set\<close>)
qed

lemma planned_from_fold:
  assumes "jm_wf entries" and "\<And>k e. jm_get entries k = Some e \<Longrightarrow> ex_key e = k"
  shows "planned_from entries events
    (fold plan_event events \<lparr>ps_entries = entries, ps_claimed = [], ps_related = [], ps_claims = []\<rparr>)"
proof (induction events rule: rev_induct)
  case Nil
  have "\<exists>b. e = e\<lparr>en_pending := en_pending e, en_relatedPending := b\<rparr>" for e :: expected_entry
    by (rule exI [of _ "en_relatedPending e"]) simp
  with assms show ?case by (simp add: planned_from_def claim_map_def Let_def)
qed (simp add: planned_from_event assms)

lemma plan_inv_same:
  assumes "plan_inv n entries p" "n \<le> m"
    and "\<And>k e'. jm_get entries' k = Some e' \<Longrightarrow> \<exists>e. jm_get entries k = Some e \<and> same_entry e' e"
  shows "plan_inv m entries' p"
  unfolding plan_inv_def
proof (intro conjI ballI allI impI)
  show "jm_wf (pl_claimed p)" by (rule plan_invD(1) [OF assms(1)])
  fix i assume "i \<in> set (jm_keys (pl_claimed p))"
  from plan_invD(2) [OF assms(1) this] assms(2) show "snd i \<le> m" by (rule le_trans)
next
  fix k e' r assume e': "jm_get entries' k = Some e'" and r: "r \<in> claim_map (pl_claimed p) (entry_id e')"
  from assms(3) [OF e'] obtain e where e: "jm_get entries k = Some e" "same_entry e' e" by blast
  from plan_invD(3) [OF assms(1) e(1), of r] r e(2)
  show "justified (pl_events p) e' r" "r \<in> set (ex_resources e')"
    by (simp_all add: same_entry_justified [OF e(2)]) (simp_all add: same_entry_def)
qed

lemma inv_plan:
  assumes "registry_inv reg plans a" and "registry_plan ret now events reg = (reg', p)"
  shows "registry_inv reg' (plans @ [p]) a"
proof -
  define reg1 where "reg1 = pruneRecent ret now reg"
  have inv: "registry_inv reg1 plans a" unfolding reg1_def by (rule inv_prune [OF assms(1)])
  note keys = registry_invD(2) [OF inv, unfolded entry_inv_def]
  define st where "st = fold plan_event events \<lparr>ps_entries = rg_entries reg1, ps_claimed = [], ps_related = [], ps_claims = []\<rparr>"
  have pf: "planned_from (rg_entries reg1) events st"
    unfolding st_def by (rule planned_from_fold [OF registry_invD(1) [OF inv]]) (use keys in blast)
  have reg': "reg' = reg1\<lparr>rg_entries := ps_entries st\<rparr>"
    and p: "pl_claimed p = ps_claimed st" "pl_events p = events" "\<not> pl_settled p"
    using assms(2) by (auto simp: registry_plan_def Let_def reg1_def [symmetric] st_def [symmetric])
  have source: "\<exists>e b. jm_get (rg_entries reg1) k = Some e \<and>
      e' = e\<lparr>en_pending := en_pending e \<union> claim_map (ps_claimed st) (entry_id e), en_relatedPending := b\<rparr> \<and>
      claim_map (ps_claimed st) (entry_id e) \<inter> en_pending e = {} \<and>
      claim_map (ps_claimed st) (entry_id e) \<subseteq> {r \<in> set (ex_resources e). justified events e r}"
    if "jm_get (ps_entries st) k = Some e'" for k e'
    using pf that unfolding planned_from_def Let_def by (cases "jm_get (rg_entries reg1) k") fastforce+
  show ?thesis
  proof (rule registry_invI)
    show "jm_wf (rg_entries reg')" using pf by (simp add: reg' planned_from_def)
  next
    fix k e' assume "jm_get (rg_entries reg') k = Some e'"
    then have "jm_get (ps_entries st) k = Some e'" by (simp add: reg')
    from source [OF this] obtain e b where e: "jm_get (rg_entries reg1) k = Some e"
      "e' = e\<lparr>en_pending := en_pending e \<union> claim_map (ps_claimed st) (entry_id e), en_relatedPending := b\<rparr>"
      "claim_map (ps_claimed st) (entry_id e) \<inter> en_pending e = {}"
      "claim_map (ps_claimed st) (entry_id e) \<subseteq> {r \<in> set (ex_resources e). justified events e r}"
      by blast
    show "entry_inv (rg_nextOrder reg') a k e'"
      using registry_invD(2) [OF inv e(1)] e(4) by (auto simp: reg' e(2) entry_inv_def)
    fix r show "length (owners (plans @ [p]) (entry_id e') r) = (if r \<in> en_pending e' then 1 else 0)"
      using registry_invD(3) [OF inv e(1), of r] e(3) by (auto simp: e(2) owners_def p)
  next
    fix q assume q: "q \<in> set (plans @ [p])"
    show "plan_inv (rg_nextOrder reg') (rg_entries reg') q"
    proof (cases "q = p")
      case True
      have "jm_wf (ps_claimed st)" using pf by (simp add: planned_from_def)
      moreover have "snd i \<le> rg_nextOrder reg1" if "i \<in> set (jm_keys (ps_claimed st))" for i
      proof -
        from pf that obtain e where "jm_get (rg_entries reg1) (fst i) = Some e" "entry_id e = i"
          unfolding planned_from_def by blast
        with registry_invD(2) [OF inv, of "fst i" e] show ?thesis by (cases i) (auto simp: entry_inv_def entry_id_def)
      qed
      moreover have "justified events e' r \<and> r \<in> set (ex_resources e')"
        if "jm_get (ps_entries st) k = Some e'" "r \<in> claim_map (ps_claimed st) (entry_id e')" for k e' r
        using source [OF that(1)] that(2) by auto
      ultimately show ?thesis unfolding plan_inv_def True p reg' by simp
    next
      case False
      then have "plan_inv (rg_nextOrder reg1) (rg_entries reg1) q" using q registry_invD(4) [OF inv] by simp
      then show ?thesis by (rule plan_inv_same) (use source in \<open>fastforce simp: reg' same_entry_def\<close>)+
    qed
  next
    fix recent assume "recent \<in> set (rg_recent reg')"
    then show "planned_event.truncate recent \<in> set a" using registry_invD(5) [OF inv] by (simp add: reg')
  qed
qed

section \<open>Accepting\<close>

lemma settle_entry_same [simp]: "same_entry (settle_entry ok p rs e) e"
  by (simp add: settle_entry_def same_entry_def Let_def)

lemma settle_entry_sets [simp]:
  "en_pending (settle_entry ok p rs e) = en_pending e - rs"
  "en_covered (settle_entry ok p rs e) = en_covered e \<union> (if ok then rs else {})"
  "en_order (settle_entry ok p rs e) = en_order e" "ex_key (settle_entry ok p rs e) = ex_key e"
  "ex_resources (settle_entry ok p rs e) = ex_resources e"
  by (simp_all add: settle_entry_def Let_def)

text \<open>The claims of a plan have distinct identities, so each live entry is settled at most once.\<close>

lemma fold_settle_claim:
  assumes "distinct (map fst cs)" "jm_wf es" "\<And>k e. jm_get es k = Some e \<Longrightarrow> ex_key e = k"
  shows "jm_get (fold (settle_claim ok p) cs es) k =
    (case jm_get es k of
       None \<Rightarrow> None
     | Some e \<Rightarrow>
         (case map_of cs (k, en_order e) of
            None \<Rightarrow> Some e
          | Some rs \<Rightarrow>
              let e' = settle_entry ok p rs e in if ok \<and> mutation_covered e' then None else Some e')) \<and>
    jm_wf (fold (settle_claim ok p) cs es)"
  using assms
proof (induction cs arbitrary: es)
  case Nil
  then show ?case by (simp split: option.splits)
next
  case (Cons c cs)
  obtain key order rs where c: "c = ((key, order), rs)" by (cases c) auto
  let ?es = "settle_claim ok p c es"
  have wf: "jm_wf ?es" using Cons.prems(2) by (simp add: settle_claim_def c Let_def split: option.splits)
  have keys: "ex_key e = k'" if "jm_get ?es k' = Some e" for k' e
    using that Cons.prems(3) unfolding settle_claim_def c
    by (auto simp: jm_get_set jm_get_delete Let_def split: option.splits if_splits)
  have fresh: "map_of cs (key, order) = None"
    using Cons.prems(1) c by (auto simp: map_of_eq_None_iff)
  have get: "jm_get ?es k = (if k = key then (case jm_get es key of None \<Rightarrow> None | Some e \<Rightarrow>
      if en_order e \<noteq> order then Some e else
        let e' = settle_entry ok p rs e in if ok \<and> mutation_covered e' then None else Some e') else jm_get es k)"
    by (cases ok) (auto simp: settle_claim_def c Let_def jm_get_set jm_get_delete split: option.splits)
  have IH: "jm_get (fold (settle_claim ok p) cs ?es) k = (case jm_get ?es k of None \<Rightarrow> None | Some e \<Rightarrow>
      (case map_of cs (k, en_order e) of None \<Rightarrow> Some e | Some rs \<Rightarrow>
        let e' = settle_entry ok p rs e in if ok \<and> mutation_covered e' then None else Some e')) \<and>
      jm_wf (fold (settle_claim ok p) cs ?es)"
    using Cons.prems(1) wf keys by (intro Cons.IH) auto
  show ?case
  proof (cases "jm_get es k")
    case None
    then have "jm_get ?es k = None" by (auto simp: get)
    with IH None show ?thesis by simp
  next
    case (Some e)
    show ?thesis
    proof (cases "k = key \<and> en_order e = order")
      case True
      let ?e = "settle_entry ok p rs e"
      have "jm_get ?es k = (if ok \<and> mutation_covered ?e then None else Some ?e)"
        using True Some unfolding get by (simp add: Let_def)
      with IH Some True fresh show ?thesis by (auto simp: c Let_def)
    next
      case False
      then have "jm_get ?es k = Some e" using Some by (auto simp: get)
      with IH Some False show ?thesis by (auto simp: c)
    qed
  qed
qed

lemma late_targetD:
  "late_target order planned es = Some e \<Longrightarrow> e \<in> set (jm_values es) \<and> matchesExpectedMutation e (pe_event planned)"
  unfolding late_target_def by (auto simp: matchesHistoricalExpectedMutation_def dest!: find_SomeD split: if_splits)

text \<open>A late claim only covers more of an entry, by an event that matches it, or drops it.\<close>

lemma late_claim_effect:
  assumes "jm_wf es" "\<And>k e. jm_get es k = Some e \<Longrightarrow> entry_inv n a k e"
    and "planned_event.truncate x \<in> set a" and "late_claim order x es = (x1, es1)"
  shows "jm_wf es1 \<and>
    (\<forall>k e'. jm_get es1 k = Some e' \<longrightarrow> (\<exists>e. jm_get es k = Some e \<and> same_entry e' e \<and>
       en_pending e' = en_pending e \<and> en_relatedCovered e' = en_relatedCovered e \<and> ex_related e' = ex_related e \<and>
       entry_inv n a k e')) \<and>
    (\<forall>k e. jm_get es k = Some e \<longrightarrow> jm_get es1 k = None \<longrightarrow>
       (\<forall>r \<in> set (ex_resources e). justified a e r) \<and> (ex_related e \<longrightarrow> en_relatedCovered e))"
proof (cases "truthy (rc_claimedBy x) \<or> late_target order (planned_event.truncate x) es = None")
  case True
  then have "es1 = es" using assms(4) by (auto simp: late_claim_def split: if_splits)
  with assms(1,2) show ?thesis by auto
next
  case False
  then obtain e where e: "late_target order (planned_event.truncate x) es = Some e" by blast
  define e1 where "e1 = e\<lparr>en_covered := en_covered e \<union> (set (pe_resources x) \<inter> set (ex_resources e))\<rparr>"
  from late_targetD [OF e] assms(1) obtain k where k: "jm_get es k = Some e"
    by (auto simp: jm_get_in)
  note inv = assms(2) [OF k, unfolded entry_inv_def]
  have m: "matchesExpectedMutation e (pe_event x)"
    using late_targetD [OF e] by (simp add: planned_event.truncate_def)
  have "justified a e r" if "r \<in> set (pe_resources x)" for r
    using m that assms(3) unfolding justified_def
    by (intro bexI [of _ "planned_event.truncate x"]) (simp_all add: planned_event.truncate_def)
  then have cov: "en_covered e1 \<subseteq> {r \<in> set (ex_resources e). justified a e r}" using inv by (auto simp: e1_def)
  have es1: "es1 = (if mutation_covered e1 then jm_delete k es else jm_set k e1 es)"
    using assms(4) False e inv by (auto simp: late_claim_def e1_def Let_def)
  have e1: "same_entry e1 e" "en_pending e1 = en_pending e" "en_relatedCovered e1 = en_relatedCovered e"
      "ex_related e1 = ex_related e"
    by (simp_all add: e1_def same_entry_def)
  have inv1: "entry_inv n a k e1" if "\<not> mutation_covered e1"
    using that inv cov by (simp add: entry_inv_def e1_def)
  have drop: "(\<forall>r \<in> set (ex_resources e). justified a e r) \<and> (ex_related e \<longrightarrow> en_relatedCovered e)" if "mutation_covered e1"
    using that cov unfolding mutation_covered_def by (auto simp: list_all_iff e1_def)
  show ?thesis
    using assms(1,2) k e1 inv1 drop unfolding es1
    by (auto simp: jm_get_set jm_get_delete split: if_splits)
qed

lemma late_claims_effect:
  assumes "jm_wf es" "\<And>k e. jm_get es k = Some e \<Longrightarrow> entry_inv n a k e"
    and "planned_event.truncate ` set rs \<subseteq> set a" and "late_claims order rs es = (rs', es')"
  shows "jm_wf es' \<and> planned_event.truncate ` set rs' \<subseteq> set a \<and>
    (\<forall>k e'. jm_get es' k = Some e' \<longrightarrow> (\<exists>e. jm_get es k = Some e \<and> same_entry e' e \<and>
       en_pending e' = en_pending e \<and> entry_inv n a k e')) \<and>
    (\<forall>k e. jm_get es k = Some e \<longrightarrow> jm_get es' k = None \<longrightarrow>
       (\<forall>r \<in> set (ex_resources e). justified a e r) \<and> (ex_related e \<longrightarrow> en_relatedCovered e))"
  using assms
proof (induction rs arbitrary: es rs')
  case (Cons x xs)
  obtain x1 es1 where c: "late_claim order x es = (x1, es1)" by (cases "late_claim order x es")
  obtain xs1 where r: "late_claims order xs es1 = (xs1, es')" and rs': "rs' = x1 # xs1"
    using Cons.prems(4) c by (auto split: prod.splits)
  have x1: "planned_event.truncate x1 = planned_event.truncate x"
    using c by (auto simp: late_claim_def Let_def planned_event.truncate_def split: if_splits option.splits)
  have x: "planned_event.truncate x \<in> set a" using Cons.prems(3) by simp
  note es1 = late_claim_effect [OF Cons.prems(1,2) x c]
  have later: "jm_wf es' \<and> planned_event.truncate ` set xs1 \<subseteq> set a \<and>
    (\<forall>k e'. jm_get es' k = Some e' \<longrightarrow> (\<exists>e. jm_get es1 k = Some e \<and> same_entry e' e \<and>
       en_pending e' = en_pending e \<and> entry_inv n a k e')) \<and>
    (\<forall>k e. jm_get es1 k = Some e \<longrightarrow> jm_get es' k = None \<longrightarrow>
       (\<forall>r \<in> set (ex_resources e). justified a e r) \<and> (ex_related e \<longrightarrow> en_relatedCovered e))"
    using es1 Cons.prems(3) r by (intro Cons.IH) auto
  show ?case
  proof (intro conjI allI impI)
    fix k e' assume "jm_get es' k = Some e'"
    with later obtain e1 where "jm_get es1 k = Some e1" "same_entry e' e1" "en_pending e' = en_pending e1"
      "entry_inv n a k e'" by blast
    with es1 show "\<exists>e. jm_get es k = Some e \<and> same_entry e' e \<and> en_pending e' = en_pending e \<and> entry_inv n a k e'"
      by (metis same_entry_trans)
  next
    fix k e assume e: "jm_get es k = Some e" "jm_get es' k = None"
    have "(\<forall>r \<in> set (ex_resources e). justified a e r) \<and> (ex_related e \<longrightarrow> en_relatedCovered e)"
    proof (cases "jm_get es1 k")
      case None
      with es1 e show ?thesis by blast
    next
      case (Some e1)
      with es1 e have e1: "same_entry e1 e" "en_relatedCovered e1 = en_relatedCovered e" "ex_related e1 = ex_related e"
        by (metis option.inject)+
      from later Some e(2) have "(\<forall>r \<in> set (ex_resources e1). justified a e1 r) \<and> (ex_related e1 \<longrightarrow> en_relatedCovered e1)"
        by blast
      with e1 same_entry_justified [OF e1(1), of a] show ?thesis by (simp add: same_entry_def)
    qed
    then show "\<forall>r \<in> set (ex_resources e). justified a e r" "ex_related e \<Longrightarrow> en_relatedCovered e" by simp_all
  qed (use later rs' x1 Cons.prems(3) in auto)
qed simp

lemma truncate_extend [simp]: "planned_event.truncate (planned_event.extend q f) = q"
  by (cases q) (simp add: planned_event.defs)

lemma accepted_recents_events: "planned_event.truncate ` set (accepted_recents now p) \<subseteq> set (pl_events p)"
  by (auto simp: accepted_recents_def dest: set_zip_leftD)

lemma owners_update:
  assumes "i < length plans" "\<not> pl_settled (plans ! i)" "pl_settled p"
  shows "length (owners plans j r) = length (owners (plans[i := p]) j r) +
    (if r \<in> claim_map (pl_claimed (plans ! i)) j then 1 else 0)"
proof -
  obtain xs ys where "plans = xs @ plans ! i # ys" "length xs = i"
    using id_take_nth_drop [OF assms(1)] assms(1) by (metis length_take less_imp_le_nat min.absorb2)
  then obtain y where plans: "plans = xs @ y # ys" "plans ! i = y" "i = length xs" by blast
  show ?thesis using assms(2,3) unfolding plans by (simp add: owners_def)
qed

lemma settled_entries:
  assumes inv: "registry_inv reg plans a" and i: "i < length plans" "\<not> pl_settled (plans ! i)"
    and a': "a' = a @ (if ok then pl_events (plans ! i) else [])"
  defines "es \<equiv> fold (settle_claim ok (plans ! i)) (pl_claimed (plans ! i)) (rg_entries reg)"
  shows "jm_wf es \<and> (\<forall>k e'. jm_get es k = Some e' \<longrightarrow>
    (\<exists>e. jm_get (rg_entries reg) k = Some e \<and> same_entry e' e \<and> entry_inv (rg_nextOrder reg) a' k e' \<and>
      en_pending e' = en_pending e - claim_map (pl_claimed (plans ! i)) (entry_id e)))"
proof -
  let ?p = "plans ! i"
  have p: "plan_inv (rg_nextOrder reg) (rg_entries reg) ?p" using registry_invD(4) [OF inv] i by simp
  have keys: "ex_key e = k" if "jm_get (rg_entries reg) k = Some e" for k e
    using registry_invD(2) [OF inv that] by (simp add: entry_inv_def)
  have dist: "distinct (map fst (pl_claimed ?p))" using plan_invD(1) [OF p] by (simp add: jm_wf_def)
  note settled = fold_settle_claim [OF dist registry_invD(1) [OF inv] keys, where ok = ok and p = ?p, folded es_def]
  have "\<exists>e. jm_get (rg_entries reg) k = Some e \<and> same_entry e' e \<and> entry_inv (rg_nextOrder reg) a' k e' \<and>
      en_pending e' = en_pending e - claim_map (pl_claimed ?p) (entry_id e)"
    if e': "jm_get es k = Some e'" for k e'
  proof -
    from e' settled [of k] obtain e where e: "jm_get (rg_entries reg) k = Some e" by (auto split: option.splits)
    have ide: "(k, en_order e) = entry_id e" using keys [OF e] by (simp add: entry_id_def)
    note ie = entry_inv_mono [OF registry_invD(2) [OF inv e] order_refl, of a']
    have claims: "claim_map (pl_claimed ?p) (entry_id e) \<subseteq> {r \<in> set (ex_resources e). justified (pl_events ?p) e r}"
      using plan_invD(3) [OF p e] by auto
    show ?thesis
    proof (cases "jm_get (pl_claimed ?p) (entry_id e)")
      case None
      then have "e' = e" "claim_map (pl_claimed ?p) (entry_id e) = {}"
        using e e' settled [of k] ide by (simp_all add: claim_map_def)
      with e ie a' show ?thesis by simp
    next
      case (Some rs)
      then have e'': "e' = settle_entry ok ?p rs e" "\<not> (ok \<and> mutation_covered e')"
        using e e' settled [of k] ide by (auto simp: Let_def split: if_splits)
      have rs: "claim_map (pl_claimed ?p) (entry_id e) = rs" using Some by (simp add: claim_map_def)
      have "entry_inv (rg_nextOrder reg) a' k e'"
      proof -
        have "\<not> mutation_covered e'"
        proof (cases ok)
          case False
          then have "mutation_covered e' = mutation_covered e"
            by (simp add: e'' settle_entry_def Let_def mutation_covered_def)
          with ie a' show ?thesis by (simp add: entry_inv_def)
        qed (use e'' in simp)
        moreover have "rs \<subseteq> {r \<in> set (ex_resources e). justified a' e r}" if ok
          using claims that unfolding rs a' by (auto intro: justified_mono)
        ultimately show ?thesis
          using ie a' same_entry_justified [OF settle_entry_same, of a' ok ?p rs e]
          unfolding e'' entry_inv_def by auto
      qed
      with e e'' rs show ?thesis by simp
    qed
  qed
  then show ?thesis using settled by blast
qed

lemma inv_settle:
  assumes inv: "registry_inv reg plans a" and i: "i < length plans" "\<not> pl_settled (plans ! i)"
    and a': "a' = a @ (if ok then pl_events (plans ! i) else [])"
  defines "es \<equiv> fold (settle_claim ok (plans ! i)) (pl_claimed (plans ! i)) (rg_entries reg)"
  shows "registry_inv (reg\<lparr>rg_entries := es\<rparr>) (plans[i := (plans ! i)\<lparr>pl_settled := True\<rparr>]) a'"
proof -
  let ?p = "plans ! i"
  note settled = settled_entries [OF inv i a', folded es_def]
  have source: "\<exists>e. jm_get (rg_entries reg) k = Some e \<and> same_entry e' e \<and> entry_inv (rg_nextOrder reg) a' k e' \<and>
      en_pending e' = en_pending e - claim_map (pl_claimed ?p) (entry_id e)"
    if "jm_get es k = Some e'" for k e'
    using settled that by blast
  let ?reg = "reg\<lparr>rg_entries := es\<rparr>"
  show ?thesis
  proof (rule registry_invI)
    show "jm_wf (rg_entries ?reg)" using settled by simp
    fix k e' assume "jm_get (rg_entries ?reg) k = Some e'"
    then have "jm_get es k = Some e'" by simp
    from source [OF this] obtain e where e: "jm_get (rg_entries reg) k = Some e" "same_entry e' e"
      "entry_inv (rg_nextOrder reg) a' k e'" "en_pending e' = en_pending e - claim_map (pl_claimed ?p) (entry_id e)" by blast
    then show "entry_inv (rg_nextOrder ?reg) a' k e'" by simp
    fix r
    show "length (owners (plans[i := ?p\<lparr>pl_settled := True\<rparr>]) (entry_id e') r) = (if r \<in> en_pending e' then 1 else 0)"
      using owners_update [OF i, of "?p\<lparr>pl_settled := True\<rparr>" "entry_id e" r] registry_invD(3) [OF inv e(1), of r] e(2,4)
      by (auto simp: same_entry_def split: if_splits)
  next
    fix q assume "q \<in> set (plans[i := ?p\<lparr>pl_settled := True\<rparr>])"
    then obtain q0 where q0: "q0 \<in> set plans" "q = q0 \<or> q = q0\<lparr>pl_settled := True\<rparr>"
      using i(1) set_update_subset_insert [of plans i] by (metis insertE nth_mem subsetD)
    have "plan_inv (rg_nextOrder reg) es q0"
      by (rule plan_inv_same [OF registry_invD(4) [OF inv q0(1)] order_refl]) (use source in blast)
    with q0(2) show "plan_inv (rg_nextOrder ?reg) (rg_entries ?reg) q" by (auto simp: plan_inv_def)
  next
    fix recent assume "recent \<in> set (rg_recent ?reg)"
    then show "planned_event.truncate recent \<in> set a'" using registry_invD(5) [OF inv] by (simp add: a')
  qed
qed

lemma inv_accept:
  assumes inv: "registry_inv reg plans a" and i: "i < length plans"
    and acc: "plan_accept ret now ok (plans ! i) reg = (reg', p)"
  shows "registry_inv reg' (plans[i := p]) (a @ (if ok \<and> \<not> pl_settled (plans ! i) then pl_events (plans ! i) else []))"
proof (cases "pl_settled (plans ! i)")
  case True
  with acc inv show ?thesis by (auto simp: plan_accept_def)
next
  case False
  define es where "es = fold (settle_claim ok (plans ! i)) (pl_claimed (plans ! i)) (rg_entries reg)"
  define a' where "a' = a @ (if ok then pl_events (plans ! i) else [])"
  let ?plans = "plans[i := (plans ! i)\<lparr>pl_settled := True\<rparr>]"
  have inv1: "registry_inv (reg\<lparr>rg_entries := es\<rparr>) ?plans a'"
    unfolding es_def by (rule inv_settle [OF inv i False a'_def])
  obtain rs es' where late: "(if ok then late_claims (pl_registrationOrder (plans ! i)) (accepted_recents now (plans ! i)) es
      else ([], es)) = (rs, es')" by fastforce
  have reg': "reg' = pruneRecent ret now (reg\<lparr>rg_entries := es', rg_recent := rg_recent reg @ rs\<rparr>)"
      "p = (plans ! i)\<lparr>pl_settled := True\<rparr>"
    using acc False late by (simp_all add: plan_accept_def es_def [symmetric] Let_def)
  have eff: "jm_wf es' \<and> planned_event.truncate ` set rs \<subseteq> set a' \<and>
      (\<forall>k e'. jm_get es' k = Some e' \<longrightarrow> (\<exists>e. jm_get es k = Some e \<and> same_entry e' e \<and>
         en_pending e' = en_pending e \<and> entry_inv (rg_nextOrder reg) a' k e'))"
  proof (cases ok)
    case True
    have ie: "entry_inv (rg_nextOrder reg) a' k e" if "jm_get es k = Some e" for k e
      using registry_invD(2) [OF inv1] that by simp
    have rs: "planned_event.truncate ` set (accepted_recents now (plans ! i)) \<subseteq> set a'"
      using accepted_recents_events [of now "plans ! i"] True by (auto simp: a'_def)
    have wf: "jm_wf es" using registry_invD(1) [OF inv1] by simp
    have late': "late_claims (pl_registrationOrder (plans ! i)) (accepted_recents now (plans ! i)) es = (rs, es')"
      using late True by simp
    show ?thesis using late_claims_effect [OF wf ie rs late'] by simp
  next
    case False
    then show ?thesis using registry_invD(1,2) [OF inv1] late by auto
  qed
  have "registry_inv (reg\<lparr>rg_entries := es', rg_recent := rg_recent reg @ rs\<rparr>) ?plans a'"
    by (rule inv_weaken [OF inv1]) (use eff registry_invD(5) [OF inv1] in auto)
  then show ?thesis using False by (simp add: reg' a'_def inv_prune)
qed

lemma inv_flag:
  assumes "registry_inv reg plans a" "jm_get (rg_entries reg) k = Some e" "same_entry e' e"
    "en_pending e' = en_pending e" "entry_inv (rg_nextOrder reg) a k e' = entry_inv (rg_nextOrder reg) a k e"
  shows "registry_inv (reg\<lparr>rg_entries := jm_set k e' (rg_entries reg)\<rparr>) plans a"
  using assms registry_invD(2) [OF assms(1,2)] by (intro inv_touch) simp_all

lemma inv_fallback: "registry_inv reg plans a \<Longrightarrow> registry_inv (fst (fallback_fires i reg)) plans a"
  unfolding fallback_fires_def live_entry_def
  by (auto simp: Let_def same_entry_def split: option.splits intro: inv_flag)

lemma inv_fallback_settles: "registry_inv reg plans a \<Longrightarrow> registry_inv (fallback_settles i ok reg) plans a"
  unfolding fallback_settles_def live_entry_def registry_remove_def
  by (auto simp: same_entry_def split: option.splits intro: inv_delete inv_flag)

lemma inv_plans:
  assumes "registry_inv reg plans a" "i < length plans"
    and "pl_claimed p = pl_claimed (plans ! i)" "pl_events p = pl_events (plans ! i)" "pl_settled p = pl_settled (plans ! i)"
  shows "registry_inv reg (plans[i := p]) a"
proof -
  have "length (owners (plans[i := p]) j r) = length (owners plans j r)" for j r
  proof -
    have "map (\<lambda>p. \<not> pl_settled p \<and> r \<in> claim_map (pl_claimed p) j) (plans[i := p]) =
        map (\<lambda>p. \<not> pl_settled p \<and> r \<in> claim_map (pl_claimed p) j) plans"
      using assms(2-) by (simp add: map_update list_update_same_conv)
    then have "length (filter id (map (\<lambda>p. \<not> pl_settled p \<and> r \<in> claim_map (pl_claimed p) j) (plans[i := p]))) =
        length (filter id (map (\<lambda>p. \<not> pl_settled p \<and> r \<in> claim_map (pl_claimed p) j) plans))" by simp
    then show ?thesis by (simp add: owners_def filter_map comp_def)
  qed
  moreover have "plan_inv n es q" if "\<forall>q \<in> set plans. plan_inv n es q" "q \<in> set (plans[i := p])" for n es q
    using that assms(2-4) set_update_subset_insert [of plans i p] by (fastforce simp: plan_inv_def)
  ultimately show ?thesis using registry_invD [OF assms(1)] by (intro registry_invI) auto
qed

lemma mutation_history_inv: "mutation_history reg plans a \<Longrightarrow> registry_inv reg plans a"
proof (induction rule: mutation_history.induct)
  case mutation_new
  show ?case by (simp add: registry_inv_def new_registry_def)
next
  case (mutation_related reg plans a i)
  then show ?case by (intro inv_plans) (auto simp: plan_reconcileRelated_def split: related_run.splits)
next
  case (mutation_related_settles reg plans a i ok)
  then show ?case by (intro inv_plans) (auto simp: plan_related_settles_def)
next
  case (mutation_reset reg plans a)
  then show ?case
    unfolding registry_reset_def by (auto simp: registry_inv_def plan_inv_def)
qed (simp_all add: inv_register inv_plan inv_accept inv_fallback inv_fallback_settles registry_remove_def inv_delete)

lemma live_entryD:
  assumes "live_entry reg i = Some e" "registry_inv reg plans a"
  shows "jm_get (rg_entries reg) (fst i) = Some e" "entry_id e = i"
  using assms registry_invD(2) [OF assms(2), of "fst i" e]
  by (auto simp: live_entry_def entry_inv_def entry_id_def split: option.splits if_splits)

text \<open>An entry that accepting a plan drops is covered, by events accepted now or earlier.\<close>

lemma accept_drops:
  assumes inv: "registry_inv reg plans a" and i: "i < length plans" "\<not> pl_settled (plans ! i)"
    and acc: "plan_accept ret now ok (plans ! i) reg = (reg', p)"
    and e: "jm_get (rg_entries reg) k = Some e" "jm_get (rg_entries reg') k = None"
  shows "ok \<and> (\<forall>r \<in> set (ex_resources e). justified (a @ pl_events (plans ! i)) e r)"
proof -
  let ?p = "plans ! i"
  define es where "es = fold (settle_claim ok ?p) (pl_claimed ?p) (rg_entries reg)"
  have p: "plan_inv (rg_nextOrder reg) (rg_entries reg) ?p" using registry_invD(4) [OF inv] i by simp
  have keys: "ex_key e = k" if "jm_get (rg_entries reg) k = Some e" for k e
    using registry_invD(2) [OF inv that] by (simp add: entry_inv_def)
  have dist: "distinct (map fst (pl_claimed ?p))" using plan_invD(1) [OF p] by (simp add: jm_wf_def)
  note settled = fold_settle_claim [OF dist registry_invD(1) [OF inv] keys, where ok = ok and p = ?p, folded es_def]
  have reg': "rg_entries reg' = (if ok then snd (late_claims (pl_registrationOrder ?p) (accepted_recents now ?p) es) else es)"
    using acc i(2) by (auto simp: plan_accept_def es_def [symmetric] pruneRecent_def Let_def split: prod.splits if_splits)
  have ok: ok
  proof (rule ccontr)
    assume "\<not> ok"
    then have "jm_get es k = None" using e(2) reg' by simp
    with settled [of k] e(1) \<open>\<not> ok\<close> show False by (auto simp: Let_def split: option.splits)
  qed
  let ?a = "a @ pl_events ?p"
  have "\<forall>r \<in> set (ex_resources e). justified ?a e r"
  proof (cases "jm_get es k")
    case None
    then obtain rs where rs: "jm_get (pl_claimed ?p) (k, en_order e) = Some rs" "mutation_covered (settle_entry ok ?p rs e)"
      using settled [of k] e(1) by (auto simp: Let_def split: option.splits if_splits)
    then have "set (ex_resources e) \<subseteq> en_covered e \<union> rs"
      using ok by (auto simp: mutation_covered_def list_all_iff)
    moreover have "claim_map (pl_claimed ?p) (entry_id e) = rs"
      using rs(1) keys [OF e(1)] by (simp add: claim_map_def entry_id_def)
    ultimately show ?thesis
      using plan_invD(3) [OF p e(1)] registry_invD(2) [OF inv e(1)]
      by (fastforce simp: entry_inv_def justified_def)
  next
    case (Some e1)
    have inv1: "registry_inv (reg\<lparr>rg_entries := es\<rparr>) (plans[i := ?p\<lparr>pl_settled := True\<rparr>]) ?a"
      unfolding es_def by (rule inv_settle [OF inv i]) (simp add: ok)
    have wf: "jm_wf es" and ie: "\<And>k e. jm_get es k = Some e \<Longrightarrow> entry_inv (rg_nextOrder reg) ?a k e"
      using registry_invD(1,2) [OF inv1] by simp_all
    have rs: "planned_event.truncate ` set (accepted_recents now ?p) \<subseteq> set ?a"
      using accepted_recents_events [of now ?p] by auto
    have "\<forall>r \<in> set (ex_resources e1). justified ?a e1 r"
      using late_claims_effect [OF wf ie rs prod.collapse [symmetric]] Some e(2) ok unfolding reg' by simp
    moreover have same: "same_entry e1 e" using settled [of k] Some e(1) by (auto simp: Let_def split: option.splits if_splits)
    ultimately show ?thesis using same_entry_justified [OF same, of ?a] by (simp add: same_entry_def)
  qed
  with ok show ?thesis ..
qed

section \<open>Properties\<close>

text \<open>
  C18.  In every history, what a live mutation still waits for is accounted for exactly.  A resource
  is pending if and only if exactly one unsettled plan holds it, so two plans never read it for the
  same mutation and a rejected plan cannot leave it blocked; a resource is covered only if a matching
  event with that resource was accepted; and once all plans are settled, the fallback reads
  precisely the resources no accepted event covered.
\<close>

theorem mutation_wait_accounted:
  assumes "mutation_history reg plans accepted" and "live_entry reg i = Some e"
  shows "length (owners plans i r) = (if r \<in> en_pending e then 1 else 0) \<and>
    \<not> mutation_covered e \<and> (r \<in> en_covered e \<longrightarrow> justified accepted e r) \<and>
    ((\<forall>p \<in> set plans. pl_settled p) \<longrightarrow> set (fallback_missing e) = set (ex_resources e) - en_covered e)"
proof -
  note inv = mutation_history_inv [OF assms(1)]
  note e = live_entryD [OF assms(2) inv]
  have "en_pending e = {}" if "\<forall>p \<in> set plans. pl_settled p"
  proof -
    have "owners plans (entry_id e) r = []" for r using that by (simp add: owners_def)
    then show ?thesis using registry_invD(3) [OF inv e(1)] by (metis equals0I list.size(3) zero_neq_one)
  qed
  then show ?thesis
    using registry_invD(2) [OF inv e(1)] registry_invD(3) [OF inv e(1), of r] e(2) by (auto simp: entry_inv_def fallback_missing_def)
qed

definition example_mutation :: expected_mutation where
  "example_mutation = \<lparr>ex_key = ''k'', ex_operation = Deposit, ex_related = False, ex_resources = [''p'', ''q''],
     ex_signature = None, ex_targetId = None\<rparr>"

definition example_planned :: "string list \<Rightarrow> planned_event" where
  "example_planned rs = \<lparr>pe_event = \<lparr>ev_eventId = ''1'', ev_eventType = ''earn.position.changed'', ev_occurredAt = ''now'',
     ev_scope = ''earn'', ev_state = None, ev_reason = None, ev_targetId = None, ev_scheduledSlotId = None,
     ev_executionId = None, ev_failureCode = None, ev_unsupportedState = False\<rparr>, pe_resources = rs\<rparr>"

definition example_registry :: registry where
  "example_registry = registry_register 15000 0 example_mutation new_registry"

lemma example_history:
  "mutation_history (fst (registry_plan 15000 1 [example_planned rs] example_registry))
     [snd (registry_plan 15000 1 [example_planned rs] example_registry)] []"
proof -
  have "mutation_history example_registry [] []"
    unfolding example_registry_def by (intro mutation_register mutation_new)
  from mutation_plan [OF this prod.collapse [symmetric]] show ?thesis by simp
qed

theorem mutation_wait_accounted_witness:
  "\<exists>e. live_entry (fst (registry_plan 15000 1 [example_planned [''p'']] example_registry)) (''k'', 1) = Some e \<and>
     en_pending e = {''p''} \<and>
     length (owners [snd (registry_plan 15000 1 [example_planned [''p'']] example_registry)] (''k'', 1) ''p'') = 1"
proof -
  have "\<exists>e. live_entry (fst (registry_plan 15000 1 [example_planned [''p'']] example_registry)) (''k'', 1) = Some e \<and>
      en_pending e = {''p''}"
    by (simp add: example_registry_def registry_register_def new_registry_def registry_remove_def pruneRecent_def
        new_entry_def example_mutation_def expected_mutation.defs expected_entry.defs mutation_covered_def
        registry_plan_def plan_event_def claim_target_def example_planned_def matchesExpectedMutation_def
        EARN_REALTIME_EVENT_TYPES_def truthy_def live_entry_def claimable_def claim_map_def Let_def)
  then show ?thesis using mutation_wait_accounted [OF example_history, of "[''p'']" "(''k'', 1)" _ "''p''"] by auto
qed

text \<open>
  C19.  Accepting a plan never forgets a mutation too early: if it drops a live one, the plan was
  accepted, and every resource of the mutation was read for an accepted event that matches it.
\<close>

theorem accept_drops_only_covered:
  assumes "mutation_history reg plans accepted" and "i < length plans" and "\<not> pl_settled (plans ! i)"
    and "plan_accept ret now ok (plans ! i) reg = (reg', p)"
    and "live_entry reg j = Some e" and "jm_get (rg_entries reg') (fst j) = None"
  shows "ok \<and> (\<forall>r \<in> set (ex_resources e). justified (accepted @ pl_events (plans ! i)) e r)"
  using accept_drops [OF mutation_history_inv [OF assms(1)] assms(2-4) live_entryD(1) [OF assms(5) mutation_history_inv [OF assms(1)]] assms(6)] .

theorem accept_drops_only_covered_witness:
  "\<exists>e. live_entry (fst (registry_plan 15000 1 [example_planned [''p'', ''q'']] example_registry)) (''k'', 1) = Some e \<and>
     (\<forall>r \<in> set (ex_resources e). justified [example_planned [''p'', ''q'']] e r)"
proof -
  let ?reg = "fst (registry_plan 15000 1 [example_planned [''p'', ''q'']] example_registry)"
  let ?p = "snd (registry_plan 15000 1 [example_planned [''p'', ''q'']] example_registry)"
  obtain reg' p' where acc: "plan_accept 15000 2 True ?p ?reg = (reg', p')" by (cases "plan_accept 15000 2 True ?p ?reg")
  note eval = example_registry_def registry_register_def new_registry_def registry_remove_def pruneRecent_def
    new_entry_def example_mutation_def expected_mutation.defs expected_entry.defs mutation_covered_def
    registry_plan_def plan_event_def claim_target_def example_planned_def matchesExpectedMutation_def
    EARN_REALTIME_EVENT_TYPES_def truthy_def live_entry_def claimable_def claim_map_def Let_def entry_id_def
  have p: "pl_events ?p = [example_planned [''p'', ''q'']]" "\<not> pl_settled ?p"
    by (simp_all add: registry_plan_def Let_def)
  have "\<exists>e. live_entry ?reg (''k'', 1) = Some e" by (simp add: eval)
  then obtain e where e: "live_entry ?reg (''k'', 1) = Some e" ..
  have "rg_entries (fst (plan_accept 15000 2 True ?p ?reg)) = []"
    by code_simp
  then have "jm_get (rg_entries reg') (fst (''k'', 1 :: nat)) = None" using acc by simp
  then have "\<forall>r \<in> set (ex_resources e). justified ([] @ pl_events ([?p] ! 0)) e r"
    using accept_drops_only_covered [OF example_history _ _ _ e, of 0] acc p by simp
  with e p show ?thesis by auto
qed

end
