(* ===== verification/Refresh_Order.thy ===== *)
theory Refresh_Order
  imports Js_Values
begin

text \<open>
  \<open>features/smart-accounts/refresh-plan.ts\<close>: which reads a confirmed mutation needs, and the small
  state machines that keep a slow read from overwriting a newer one.  A token is handed out when a
  read begins and checked when it commits; the contract they share is the locale \<open>freshness\<close>: a token
  that stopped being current never becomes current again.
\<close>

section \<open>Staleness is permanent\<close>

locale freshness =
  fixes step :: "'op \<Rightarrow> 's \<Rightarrow> 's"
    and issued :: "'t \<Rightarrow> 's \<Rightarrow> bool"
    and is_current :: "'t \<Rightarrow> 's \<Rightarrow> bool"
  assumes issued_step: "issued t s \<Longrightarrow> issued t (step a s)"
    and stale_step: "issued t s \<Longrightarrow> \<not> is_current t s \<Longrightarrow> \<not> is_current t (step a s)"
begin

lemma issued_run: "issued t s \<Longrightarrow> issued t (fold step ops s)"
  by (induction ops arbitrary: s) (auto intro: issued_step)

lemma stale_run: "issued t s \<Longrightarrow> \<not> is_current t s \<Longrightarrow> \<not> is_current t (fold step ops s)"
  by (induction ops arbitrary: s) (auto intro: issued_step dest: stale_step)

text \<open>So a token is current after a run exactly when no single step of the run invalidated it.\<close>

lemma current_run:
  assumes "issued t s"
  shows "is_current t (fold step ops s) \<longleftrightarrow> (\<forall>n \<le> length ops. is_current t (fold step (take n ops) s))"
proof
  assume now: "is_current t (fold step ops s)"
  show "\<forall>n \<le> length ops. is_current t (fold step (take n ops) s)"
  proof (intro allI impI)
    fix n
    have "fold step ops s = fold step (drop n ops) (fold step (take n ops) s)"
      by (metis append_take_drop_id comp_apply fold_append)
    then show "is_current t (fold step (take n ops) s)"
      using now stale_run [OF issued_run [OF assms]] by metis
  qed
qed (use take_all in force)

end

section \<open>Refresh groups and their order\<close>

datatype refresh_group = Base | Policies | Proposals | Vaults | Activity | Earn | Wallet

datatype order_group = Group refresh_group | BestApyReserves

record scoped_errors =
  se_base :: "string option"
  se_bestApyReserves :: "string option"
  se_policies :: "string option"
  se_proposals :: "string option"
  se_vaults :: "string option"

text \<open>\<open>a ?? b\<close>.\<close>

definition nullish :: "'a option \<Rightarrow> 'a option \<Rightarrow> 'a option" where
  "nullish a b = (case a of None \<Rightarrow> b | Some x \<Rightarrow> Some x)"

definition resolveSmartAccountRefreshError :: "scoped_errors \<Rightarrow> string option" where
  "resolveSmartAccountRefreshError errors =
     nullish (se_base errors) (nullish (se_vaults errors) (nullish (se_policies errors)
       (nullish (se_proposals errors) (se_bestApyReserves errors))))"

text \<open>
  \<open>SmartAccountRefreshOrder\<close> and \<open>SmartAccountReadModelLoadOrder\<close> keep the latest order number per key;
  the second one forgets a key when its latest load finishes.
\<close>

record 'k latest_order =
  lo_latest :: "('k, nat) jsmap"
  lo_next :: nat

definition new_order :: "'k latest_order" where
  "new_order = \<lparr>lo_latest = [], lo_next = 0\<rparr>"

definition order_begin :: "'k \<Rightarrow> 'k latest_order \<Rightarrow> ('k \<times> nat) \<times> 'k latest_order" where
  "order_begin key s =
     (let order = lo_next s + 1 in
      ((key, order), s\<lparr>lo_next := order, lo_latest := jm_set key order (lo_latest s)\<rparr>))"

definition order_clear :: "'k latest_order \<Rightarrow> 'k latest_order" where
  "order_clear s = s\<lparr>lo_latest := []\<rparr>"

definition order_isCurrent :: "'k \<times> nat \<Rightarrow> 'k latest_order \<Rightarrow> bool" where
  "order_isCurrent token s \<longleftrightarrow> jm_get (lo_latest s) (fst token) = Some (snd token)"

definition order_finish :: "'k \<times> nat \<Rightarrow> 'k latest_order \<Rightarrow> 'k latest_order" where
  "order_finish token s =
     (if order_isCurrent token s then s\<lparr>lo_latest := jm_delete (fst token) (lo_latest s)\<rparr> else s)"

datatype 'k order_op = Begin 'k | Finish "'k \<times> nat" | Clear

primrec order_step :: "'k order_op \<Rightarrow> 'k latest_order \<Rightarrow> 'k latest_order" where
  "order_step (Begin key) s = snd (order_begin key s)"
| "order_step (Finish token) s = order_finish token s"
| "order_step Clear s = order_clear s"

interpretation latest: freshness
  "order_step :: 'k order_op \<Rightarrow> 'k latest_order \<Rightarrow> 'k latest_order" "\<lambda>token s. snd token \<le> lo_next s" order_isCurrent
proof
  fix token :: "'k \<times> nat" and s :: "'k latest_order" and a
  show "snd token \<le> lo_next s \<Longrightarrow> snd token \<le> lo_next (order_step a s)"
    by (cases a) (simp_all add: order_begin_def order_finish_def order_clear_def Let_def)
  show "snd token \<le> lo_next s \<Longrightarrow> \<not> order_isCurrent token s \<Longrightarrow> \<not> order_isCurrent token (order_step a s)"
    by (cases a) (auto simp: order_begin_def order_finish_def order_clear_def order_isCurrent_def Let_def
        jm_get_set jm_get_delete split: if_splits)
qed

section \<open>Scopes\<close>

text \<open>\<open>SmartAccountScopeGeneration\<close>: the snapshot is the pair of generation and scope.\<close>

type_synonym scope_snapshot = "nat \<times> string"

definition scope_new :: "string \<Rightarrow> scope_snapshot" where
  "scope_new scope = (0, scope)"

definition scope_update :: "string \<Rightarrow> scope_snapshot \<Rightarrow> scope_snapshot" where
  "scope_update scope current = (if snd current \<noteq> scope then (fst current + 1, scope) else current)"

definition scope_isCurrent :: "scope_snapshot \<Rightarrow> scope_snapshot \<Rightarrow> bool" where
  "scope_isCurrent snapshot current \<longleftrightarrow> snd current = snd snapshot \<and> fst current = fst snapshot"

interpretation scope: freshness scope_update "\<lambda>snapshot current. fst snapshot \<le> fst current" scope_isCurrent
  by unfold_locales (auto simp: scope_update_def scope_isCurrent_def split: if_splits)

section \<open>The policy follow-up\<close>

text \<open>
  \<open>SmartAccountPolicyFollowUp\<close>: one timer, then a microtask that runs the refresh; both check the
  generation they were created in.  \<open>fu_timer\<close> is the generation and the refresh of the armed timer,
  \<open>fu_tasks\<close> the queued microtasks.
\<close>

record 'r follow_up =
  fu_timer :: "(nat \<times> 'r) option"
  fu_generation :: nat
  fu_tasks :: "(nat \<times> 'r) list"

definition new_follow_up :: "'r follow_up" where
  "new_follow_up = \<lparr>fu_timer = None, fu_generation = 0, fu_tasks = []\<rparr>"

definition follow_up_reset :: "'r follow_up \<Rightarrow> 'r follow_up" where
  "follow_up_reset s = s\<lparr>fu_generation := fu_generation s + 1, fu_timer := None\<rparr>"

definition follow_up_schedule :: "'r \<Rightarrow> 'r follow_up \<Rightarrow> 'r follow_up" where
  "follow_up_schedule refresh s =
     (let s1 = follow_up_reset s in s1\<lparr>fu_timer := Some (fu_generation s1, refresh)\<rparr>)"

definition follow_up_timer :: "'r follow_up \<Rightarrow> 'r follow_up" where
  "follow_up_timer s =
     (case fu_timer s of
        None \<Rightarrow> s
      | Some (generation, refresh) \<Rightarrow>
          let s1 = s\<lparr>fu_timer := None\<rparr> in
          if generation \<noteq> fu_generation s1 then s1
          else s1\<lparr>fu_tasks := fu_tasks s1 @ [(generation, refresh)]\<rparr>)"

definition follow_up_task :: "'r follow_up \<Rightarrow> 'r follow_up \<times> 'r option" where
  "follow_up_task s =
     (case fu_tasks s of
        [] \<Rightarrow> (s, None)
      | (generation, refresh) # tasks \<Rightarrow>
          (s\<lparr>fu_tasks := tasks\<rparr>, if generation \<noteq> fu_generation s then None else Some refresh))"

datatype 'r follow_op = Schedule 'r | Reset | Timer | Task

primrec follow_up_step :: "'r follow_op \<Rightarrow> 'r follow_up \<Rightarrow> 'r follow_up \<times> 'r option" where
  "follow_up_step (Schedule refresh) s = (follow_up_schedule refresh s, None)"
| "follow_up_step Reset s = (follow_up_reset s, None)"
| "follow_up_step Timer s = (follow_up_timer s, None)"
| "follow_up_step Task s = follow_up_task s"

interpretation follow: freshness
  "\<lambda>a s. fst (follow_up_step a s)" "\<lambda>generation s. generation \<le> fu_generation s" "\<lambda>generation s. generation = fu_generation s"
proof
  fix generation :: nat and s :: "'r follow_up" and a
  show "generation \<le> fu_generation s \<Longrightarrow> generation \<le> fu_generation (fst (follow_up_step a s))"
    by (cases a) (auto simp: follow_up_schedule_def follow_up_reset_def follow_up_timer_def follow_up_task_def Let_def
        split: option.splits list.splits)
  show "generation \<le> fu_generation s \<Longrightarrow> generation \<noteq> fu_generation s \<Longrightarrow>
      generation \<noteq> fu_generation (fst (follow_up_step a s))"
    by (cases a) (auto simp: follow_up_schedule_def follow_up_reset_def follow_up_timer_def follow_up_task_def Let_def
        split: option.splits list.splits)
qed

section \<open>Single flight\<close>

text \<open>
  \<open>SmartAccountRefreshSingleflight\<close>: calls for one key share a flight.  A flight is queued until its
  microtask starts the first load, reloads while calls arrive during a load, and is finished between
  the end of that loop and the \<open>finally\<close> callback that removes it.  Entries live in a store of their
  own, because \<open>clear\<close> forgets flights that still run.  \<open>'l\<close> is the type of loaders and \<open>'e\<close> that of
  errors.
\<close>

datatype 'e flight_phase = Queued | Loading | Loop_ended "'e option"

record ('l, 'e) flight =
  fl_key :: string
  fl_dirty :: bool
  fl_loader :: 'l
  fl_phase :: "'e flight_phase"

record ('l, 'e) singleflight =
  sf_flights :: "(string, nat) jsmap"
  sf_entries :: "(nat, ('l, 'e) flight) jsmap"
  sf_next :: nat

definition new_singleflight :: "('l, 'e) singleflight" where
  "new_singleflight = \<lparr>sf_flights = [], sf_entries = [], sf_next = 0\<rparr>"

text \<open>What happens on a flight: a call joins it, a load starts, the loop ends, its promise settles.\<close>

datatype ('l, 'e) flight_event =
    Called nat 'l | Loaded nat 'l | Ended nat "'e option" | Settled nat "'e option"

definition singleflight_run ::
    "string \<Rightarrow> 'l \<Rightarrow> ('l, 'e) singleflight \<Rightarrow> ('l, 'e) singleflight \<times> ('l, 'e) flight_event list" where
  "singleflight_run key loader s =
     (case Option.bind (jm_get (sf_flights s) key) (\<lambda>i. map_option (Pair i) (jm_get (sf_entries s) i)) of
        Some (i, existing) \<Rightarrow>
          (s\<lparr>sf_entries := jm_set i (existing\<lparr>fl_loader := loader,
               fl_dirty := fl_phase existing = Loading \<or> fl_dirty existing\<rparr>) (sf_entries s)\<rparr>, [Called i loader])
      | None \<Rightarrow>
          (\<lparr>sf_flights = jm_set key (sf_next s) (sf_flights s),
            sf_entries = jm_set (sf_next s)
              \<lparr>fl_key = key, fl_dirty = False, fl_loader = loader, fl_phase = Queued\<rparr> (sf_entries s),
            sf_next = sf_next s + 1\<rparr>, [Called (sf_next s) loader]))"

definition flight_starts ::
    "nat \<Rightarrow> ('l, 'e) singleflight \<Rightarrow> ('l, 'e) singleflight \<times> ('l, 'e) flight_event list" where
  "flight_starts i s =
     (case jm_get (sf_entries s) i of
        Some entry \<Rightarrow>
          (case fl_phase entry of
             Queued \<Rightarrow>
               (s\<lparr>sf_entries := jm_set i (entry\<lparr>fl_phase := Loading, fl_dirty := False\<rparr>) (sf_entries s)\<rparr>,
                [Loaded i (fl_loader entry)])
           | _ \<Rightarrow> (s, []))
      | None \<Rightarrow> (s, []))"

definition load_settles ::
    "nat \<Rightarrow> 'e option \<Rightarrow> ('l, 'e) singleflight \<Rightarrow> ('l, 'e) singleflight \<times> ('l, 'e) flight_event list" where
  "load_settles i lastError s =
     (case jm_get (sf_entries s) i of
        Some entry \<Rightarrow>
          (case fl_phase entry of
             Loading \<Rightarrow>
               if fl_dirty entry then
                 (s\<lparr>sf_entries := jm_set i (entry\<lparr>fl_dirty := False\<rparr>) (sf_entries s)\<rparr>, [Loaded i (fl_loader entry)])
               else
                 (s\<lparr>sf_entries := jm_set i (entry\<lparr>fl_phase := Loop_ended lastError\<rparr>) (sf_entries s)\<rparr>,
                  [Ended i lastError])
           | _ \<Rightarrow> (s, []))
      | None \<Rightarrow> (s, []))"

definition flight_finally ::
    "nat \<Rightarrow> ('l, 'e) singleflight \<Rightarrow> ('l, 'e) singleflight \<times> ('l, 'e) flight_event list" where
  "flight_finally i s =
     (case jm_get (sf_entries s) i of
        Some entry \<Rightarrow>
          (case fl_phase entry of
             Loop_ended lastError \<Rightarrow>
               (s\<lparr>sf_entries := jm_delete i (sf_entries s),
                  sf_flights := (if jm_get (sf_flights s) (fl_key entry) = Some i
                                 then jm_delete (fl_key entry) (sf_flights s) else sf_flights s)\<rparr>,
                [Settled i lastError])
           | _ \<Rightarrow> (s, []))
      | None \<Rightarrow> (s, []))"

definition singleflight_clear :: "('l, 'e) singleflight \<Rightarrow> ('l, 'e) singleflight" where
  "singleflight_clear s = s\<lparr>sf_flights := []\<rparr>"

datatype ('l, 'e) flight_op =
    Run string 'l | Starts nat | Load_settles nat "'e option" | Finally nat | Clear_flights

primrec flight_step ::
    "('l, 'e) flight_op \<Rightarrow> ('l, 'e) singleflight \<Rightarrow> ('l, 'e) singleflight \<times> ('l, 'e) flight_event list" where
  "flight_step (Run key loader) s = singleflight_run key loader s"
| "flight_step (Starts i) s = flight_starts i s"
| "flight_step (Load_settles i lastError) s = load_settles i lastError s"
| "flight_step (Finally i) s = flight_finally i s"
| "flight_step Clear_flights s = (singleflight_clear s, [])"

primrec flight_run ::
    "('l, 'e) flight_op list \<Rightarrow> ('l, 'e) singleflight \<times> ('l, 'e) flight_event list \<Rightarrow>
     ('l, 'e) singleflight \<times> ('l, 'e) flight_event list" where
  "flight_run [] c = c"
| "flight_run (x # xs) c =
     (case flight_step x (fst c) of (s, events) \<Rightarrow> flight_run xs (s, snd c @ events))"

text \<open>The newest loader a call handed to a flight, and the loader of its last load unless a call came after it.\<close>

primrec note_call :: "nat \<Rightarrow> ('l, 'e) flight_event \<Rightarrow> 'l option \<Rightarrow> 'l option" where
  "note_call i (Called j l) acc = (if j = i then Some l else acc)"
| "note_call i (Loaded j l) acc = acc"
| "note_call i (Ended j e) acc = acc"
| "note_call i (Settled j e) acc = acc"

primrec note_load :: "nat \<Rightarrow> ('l, 'e) flight_event \<Rightarrow> 'l option \<Rightarrow> 'l option" where
  "note_load i (Called j l) acc = (if j = i then None else acc)"
| "note_load i (Loaded j l) acc = (if j = i then Some l else acc)"
| "note_load i (Ended j e) acc = acc"
| "note_load i (Settled j e) acc = acc"

definition last_call :: "nat \<Rightarrow> ('l, 'e) flight_event list \<Rightarrow> 'l option" where
  "last_call i trace = fold (note_call i) trace None"

definition trailing_load :: "nat \<Rightarrow> ('l, 'e) flight_event list \<Rightarrow> 'l option" where
  "trailing_load i trace = fold (note_load i) trace None"

lemma last_call_append [simp]: "last_call i (trace @ [e]) = note_call i e (last_call i trace)"
  by (simp add: last_call_def)

lemma trailing_load_append [simp]: "trailing_load i (trace @ [e]) = note_load i e (trailing_load i trace)"
  by (simp add: trailing_load_def)

definition flight_inv :: "('l, 'e) singleflight \<Rightarrow> ('l, 'e) flight_event list \<Rightarrow> bool" where
  "flight_inv s trace \<longleftrightarrow>
     (\<forall>i entry. jm_get (sf_entries s) i = Some entry \<longrightarrow>
        last_call i trace = Some (fl_loader entry) \<and>
        (fl_phase entry = Loading \<longrightarrow> \<not> fl_dirty entry \<longrightarrow> trailing_load i trace = Some (fl_loader entry))) \<and>
     (\<forall>a b i e. trace = a @ Ended i e # b \<longrightarrow> (\<exists>l. trailing_load i a = Some l \<and> last_call i a = Some l))"

lemma flight_inv_snoc:
  assumes "flight_inv s trace"
    and "\<And>i entry. jm_get (sf_entries s') i = Some entry \<Longrightarrow>
      note_call i x (last_call i trace) = Some (fl_loader entry) \<and>
      (fl_phase entry = Loading \<longrightarrow> \<not> fl_dirty entry \<longrightarrow> note_load i x (trailing_load i trace) = Some (fl_loader entry))"
    and "\<And>i e. x = Ended i e \<Longrightarrow> \<exists>l. trailing_load i trace = Some l \<and> last_call i trace = Some l"
  shows "flight_inv s' (trace @ [x])"
  unfolding flight_inv_def
proof (intro conjI allI impI)
  fix a b i e assume split: "trace @ [x] = a @ Ended i e # b"
  show "\<exists>l. trailing_load i a = Some l \<and> last_call i a = Some l"
  proof (cases b rule: rev_cases)
    case Nil
    with split assms(3) show ?thesis by simp
  next
    case (snoc b' y)
    with split have "trace = a @ Ended i e # b'" by simp
    with assms(1) show ?thesis unfolding flight_inv_def by blast
  qed
qed (use assms(2) in simp_all)

lemma flight_step_inv:
  assumes inv: "flight_inv s trace" and step: "flight_step x s = (s', events)"
  shows "flight_inv s' (trace @ events)"
proof -
  have entry: "last_call i trace = Some (fl_loader entry)"
      "fl_phase entry = Loading \<Longrightarrow> \<not> fl_dirty entry \<Longrightarrow> trailing_load i trace = Some (fl_loader entry)"
    if "jm_get (sf_entries s) i = Some entry" for i entry
    using inv that unfolding flight_inv_def by blast+
  note snoc = flight_inv_snoc [OF inv]
  have keep: "flight_inv s'' trace" if "sf_entries s'' = sf_entries s" for s''
    using inv that unfolding flight_inv_def by simp
  show ?thesis
  proof (cases x)
    case (Run key loader)
    show ?thesis
      using step keep [of s] by (auto simp: Run singleflight_run_def split: option.splits simp: jm_get_set entry intro!: snoc split: if_splits)
  next
    case (Starts i)
    show ?thesis
      using step keep [of s] by (auto simp: Starts flight_starts_def split: option.splits flight_phase.splits simp: jm_get_set entry intro!: snoc split: if_splits)
  next
    case (Load_settles i lastError)
    show ?thesis
      using step keep [of s] by (auto simp: Load_settles load_settles_def split: option.splits flight_phase.splits if_splits simp: jm_get_set entry intro!: snoc)
  next
    case (Finally i)
    show ?thesis
      using step keep [of s] by (auto simp: Finally flight_finally_def split: option.splits flight_phase.splits if_splits simp: jm_get_delete entry intro!: snoc)
  next
    case Clear_flights
    with step keep [of s'] show ?thesis by (auto simp: singleflight_clear_def)
  qed
qed

lemma flight_run_inv: "flight_inv (fst c) (snd c) \<Longrightarrow> flight_inv (fst (flight_run ops c)) (snd (flight_run ops c))"
proof (induction ops arbitrary: c)
  case (Cons x ops)
  obtain s events where "flight_step x (fst c) = (s, events)" by (cases "flight_step x (fst c)")
  with flight_step_inv [OF Cons.prems this] Cons.IH [of "(s, snd c @ events)"] show ?case by simp
qed simp

lemma flight_inv_new: "flight_inv new_singleflight []"
  by (simp add: flight_inv_def new_singleflight_def)

section \<open>Cached read models\<close>

datatype ('p, 'r) read_reuse = Completed 'r int | In_flight 'p | Load bool

definition resolveSmartAccountReadModelReuse ::
    "bool \<Rightarrow> (int \<times> 'r) option \<Rightarrow> 'p option \<Rightarrow> int \<Rightarrow> ('p, 'r) read_reuse" where
  "resolveSmartAccountReadModelReuse bypassCache cachedResult existingLoad now =
     (if bypassCache then Load False
      else case existingLoad of
        Some promise \<Rightarrow> In_flight promise
      | None \<Rightarrow>
          (case cachedResult of
             Some (expiresAt, result) \<Rightarrow> if expiresAt > now then Completed result (expiresAt - now) else Load True
           | None \<Rightarrow> Load False))"

section \<open>What a mutation invalidates\<close>

datatype proposal_payload = Transaction_payload | Settings_transaction | Policy_transaction | Unknown_payload

datatype proposal_action = Approve | Reject | Execute

datatype settings_scope = Policy_scope | Root_scope

datatype transfer_execution = Transfer_proposed | Transfer_settings | Transfer_spending_limit

datatype swap_execution = Swap_proposed | Swap_executed

datatype earn_operation =
    Earn_policy_setup | Earn_deposit | Earn_withdraw_partial | Earn_withdraw_full | Earn_cleanup
  | Earn_autodeposit_setup | Earn_autodeposit_close

text \<open>The fields keep the order of the source; the list of signer addresses is optional.\<close>

datatype mutation_input =
    Proposal_action proposal_action proposal_payload "nat option" "string list option"
  | Settings_change settings_scope int "string list option"
  | Spending_limit_use nat "string list option"
  | Vault_transfer nat transfer_execution "string list option"
  | Vault_swap nat swap_execution
  | Earn_mutation earn_operation "nat option" "string list option"

record mutation_plan =
  mp_groups :: "refresh_group list"
  mp_accountIndexes :: "nat list"
  mp_signerAddresses :: "string list"
  mp_refreshAuthenticatedWallet :: bool

definition refresh_plan_of ::
    "refresh_group list \<Rightarrow> nat option list \<Rightarrow> string list option \<Rightarrow> bool option \<Rightarrow> mutation_plan" where
  "refresh_plan_of groups accountIndexes signerAddresses refreshAuthenticatedWallet =
     (let gs = js_unique groups in
      \<lparr>mp_groups = gs,
       mp_accountIndexes = js_unique (List.map_filter id accountIndexes),
       mp_signerAddresses = js_unique (filter (\<lambda>a. a \<noteq> []) (case signerAddresses of None \<Rightarrow> [] | Some as \<Rightarrow> as)),
       mp_refreshAuthenticatedWallet =
         (case refreshAuthenticatedWallet of Some b \<Rightarrow> b | None \<Rightarrow> Wallet \<in> set gs)\<rparr>)"

primrec resolveSmartAccountMutationRefreshPlan :: "mutation_input \<Rightarrow> mutation_plan" where
  "resolveSmartAccountMutationRefreshPlan (Proposal_action action payloadType accountIndex signers) =
     (if action \<noteq> Execute then refresh_plan_of [Proposals] [] signers (Some False)
      else if payloadType = Settings_transaction then refresh_plan_of [Base, Policies, Proposals] [] signers None
      else if payloadType = Policy_transaction then
        refresh_plan_of [Policies, Proposals, Vaults, Activity, Wallet] [accountIndex] signers None
      else refresh_plan_of [Proposals, Vaults, Activity, Wallet] [accountIndex] signers None)"
| "resolveSmartAccountMutationRefreshPlan (Settings_change scope threshold signers) =
     (if threshold > 1 then refresh_plan_of [Proposals] [] signers None
      else refresh_plan_of (if scope = Root_scope then [Base, Policies] else [Policies]) [] signers None)"
| "resolveSmartAccountMutationRefreshPlan (Spending_limit_use accountIndex signers) =
     refresh_plan_of [Policies, Vaults, Activity, Wallet] [Some accountIndex] signers None"
| "resolveSmartAccountMutationRefreshPlan (Vault_transfer accountIndex execution signers) =
     (if execution = Transfer_proposed then refresh_plan_of [Base, Proposals] [] signers None
      else refresh_plan_of
        (if execution = Transfer_spending_limit then [Policies, Vaults, Activity, Wallet]
         else [Proposals, Vaults, Activity, Wallet]) [Some accountIndex] signers None)"
| "resolveSmartAccountMutationRefreshPlan (Vault_swap accountIndex execution) =
     refresh_plan_of
       (if execution = Swap_proposed then [Base, Proposals] else [Proposals, Vaults, Activity, Wallet])
       (if execution = Swap_executed then [Some accountIndex] else []) None None"
| "resolveSmartAccountMutationRefreshPlan (Earn_mutation operation accountIndex signers) =
     (if operation = Earn_policy_setup then refresh_plan_of [Policies, Earn] [accountIndex] signers None
      else if operation = Earn_cleanup then
        refresh_plan_of [Policies, Earn, Vaults, Activity, Wallet] [accountIndex] signers None
      else if operation = Earn_autodeposit_setup \<or> operation = Earn_autodeposit_close then
        refresh_plan_of [Policies, Earn] [accountIndex] signers None
      else refresh_plan_of [Earn, Vaults, Activity, Wallet] [accountIndex] signers None)"

text \<open>A mutation moves funds of a vault when it executes something on it, not when it only proposes.\<close>

primrec moves_funds :: "mutation_input \<Rightarrow> bool" where
  "moves_funds (Proposal_action action payloadType accountIndex signers) \<longleftrightarrow>
     action = Execute \<and> payloadType \<noteq> Settings_transaction"
| "moves_funds (Settings_change scope threshold signers) \<longleftrightarrow> False"
| "moves_funds (Spending_limit_use accountIndex signers) \<longleftrightarrow> True"
| "moves_funds (Vault_transfer accountIndex execution signers) \<longleftrightarrow> execution \<noteq> Transfer_proposed"
| "moves_funds (Vault_swap accountIndex execution) \<longleftrightarrow> execution = Swap_executed"
| "moves_funds (Earn_mutation operation accountIndex signers) \<longleftrightarrow>
     operation \<in> {Earn_deposit, Earn_withdraw_partial, Earn_withdraw_full, Earn_cleanup}"

lemma refresh_plan_of_simps [simp]:
  "mp_groups (refresh_plan_of gs ix signers b) = js_unique gs"
  "mp_refreshAuthenticatedWallet (refresh_plan_of gs ix signers b) = (case b of Some b \<Rightarrow> b | None \<Rightarrow> Wallet \<in> set gs)"
  by (simp_all add: refresh_plan_of_def Let_def split: option.splits)

section \<open>Properties\<close>

text \<open>
  C20.  Latest started wins.  The token a read gets when it begins stays current through later
  operations exactly as long as none of them begins the same group again, finishes that very token or
  clears the order; a newer read can therefore never be overwritten by an older one.
\<close>

theorem latest_started_wins:
  "order_isCurrent (fst (order_begin k s)) (fold order_step ops (snd (order_begin k s))) \<longleftrightarrow>
     Begin k \<notin> set ops \<and> Finish (fst (order_begin k s)) \<notin> set ops \<and> Clear \<notin> set ops"
proof -
  let ?t = "fst (order_begin k s)" and ?s = "snd (order_begin k s)"
  have key: "?t = (k, lo_next s + 1)" by (simp add: order_begin_def Let_def)
  have start: "snd ?t \<le> lo_next ?s" "order_isCurrent ?t ?s"
    by (simp_all add: order_begin_def order_isCurrent_def Let_def jm_get_set)
  show ?thesis
    using start
  proof (induction ops rule: rev_induct)
    case (snoc a ops)
    let ?r = "fold order_step ops ?s"
    have "snd ?t \<le> lo_next ?r" by (rule latest.issued_run [OF start(1)])
    then have "order_isCurrent ?t (order_step a ?r) \<longleftrightarrow>
        order_isCurrent ?t ?r \<and> a \<noteq> Begin k \<and> a \<noteq> Finish ?t \<and> a \<noteq> Clear"
      by (cases a) (auto simp: key order_begin_def order_finish_def order_clear_def order_isCurrent_def Let_def
          jm_get_set jm_get_delete split: if_splits)
    with snoc show ?case by auto
  qed simp
qed

text \<open>
  A scope snapshot is current after a sequence of updates exactly when every update named the
  same scope: going to another identity and back does not revive work captured before.
\<close>

theorem scope_snapshot_current:
  "scope_isCurrent snapshot (fold scope_update scopes snapshot) \<longleftrightarrow> set scopes \<subseteq> {snd snapshot}"
proof (induction scopes rule: rev_induct)
  case (snoc x xs)
  let ?s = "fold scope_update xs snapshot"
  have "fst snapshot \<le> fst ?s" by (rule scope.issued_run) simp
  then have "scope_isCurrent snapshot (scope_update x ?s) \<longleftrightarrow> scope_isCurrent snapshot ?s \<and> x = snd snapshot"
    by (auto simp: scope_isCurrent_def scope_update_def)
  with snoc show ?case by auto
qed (simp add: scope_isCurrent_def)

text \<open>
  C21.  When the loop of a flight ends, its last load started after every call that joined before
  the end, and ran the loader of the newest of these calls.
\<close>

theorem singleflight_trailing_read:
  assumes "snd (flight_run ops (new_singleflight, [])) = before @ Ended i lastError # after"
  shows "\<exists>loader. trailing_load i before = Some loader \<and> last_call i before = Some loader"
proof -
  have "flight_inv (fst (flight_run ops (new_singleflight, []))) (snd (flight_run ops (new_singleflight, [])))"
    by (rule flight_run_inv) (simp add: flight_inv_new)
  with assms show ?thesis unfolding flight_inv_def by blast
qed

theorem singleflight_trailing_read_witness:
  "trailing_load 0 [Called 0 ''a'', Loaded 0 ''a'', Called 0 ''b'', Loaded 0 ''b'' :: (string, string) flight_event] =
     Some ''b''"
proof -
  have "snd (flight_run [Run ''k'' ''a'', Starts 0, Run ''k'' ''b'', Load_settles 0 (Some ''x''), Load_settles 0 None]
      (new_singleflight, [])) =
      [Called 0 ''a'', Loaded 0 ''a'', Called 0 ''b'', Loaded 0 ''b''] @ Ended 0 (None :: string option) # []" by code_simp
  from singleflight_trailing_read [OF this] show ?thesis by (auto simp: last_call_def)
qed

text \<open>
  The read set of a mutation is scoped: vault balances, activity and the wallet are read again
  exactly when the mutation moved funds, the authenticated wallet is refreshed exactly when the
  wallet group is, Earn is read exactly after Earn mutations, and no group is read twice.
\<close>

theorem mutation_plan_scoped:
  "let plan = resolveSmartAccountMutationRefreshPlan input in
     distinct (mp_groups plan) \<and>
     (\<forall>g. g = Vaults \<or> g = Activity \<or> g = Wallet \<longrightarrow> (g \<in> set (mp_groups plan) \<longleftrightarrow> moves_funds input)) \<and>
     (mp_refreshAuthenticatedWallet plan \<longleftrightarrow> Wallet \<in> set (mp_groups plan)) \<and>
     (Earn \<in> set (mp_groups plan) \<longleftrightarrow> (\<exists>operation accountIndex signers. input = Earn_mutation operation accountIndex signers))"
proof (cases input)
  case (Proposal_action action payloadType accountIndex signers)
  then show ?thesis by (cases payloadType) (auto simp: Let_def)
next
  case (Earn_mutation operation accountIndex signers)
  then show ?thesis by (cases operation) (auto simp: Let_def)
next
  case (Vault_transfer accountIndex execution signers)
  then show ?thesis by (cases execution) (auto simp: Let_def)
next
  case (Vault_swap accountIndex execution)
  then show ?thesis by (cases execution) (auto simp: Let_def)
qed (auto simp: Let_def)

theorem mutation_plan_scoped_witness:
  "set (mp_groups (resolveSmartAccountMutationRefreshPlan (Vault_swap 0 Swap_executed))) \<supseteq> {Vaults, Activity, Wallet}"
  using mutation_plan_scoped [of "Vault_swap 0 Swap_executed"] by (auto simp: Let_def)

section \<open>A call in the gap\<close>

text \<open>
  Between the end of the loop and the \<open>finally\<close> callback a flight is still registered but no longer
  started: a call for the same key that arrives there joins it, does not mark it dirty, and gets the
  result of a read that had already ended.
\<close>

theorem singleflight_gap_reuses_read:
  "snd (flight_run [Run ''k'' ''a'', Starts 0, Load_settles 0 None, Run ''k'' ''b'', Finally 0] (new_singleflight, [])) =
     [Called 0 ''a'', Loaded 0 ''a'', Ended 0 None, Called 0 ''b'', Settled 0 (None :: string option)]"
  by code_simp

end
