(* ===== verification/Rpc_Queue.thy ===== *)
theory Rpc_Queue
  imports Js_Values "HOL-Library.Multiset" "HOL-Library.Product_Lexorder"
begin

text \<open>
  The queue in front of a Solana RPC endpoint, \<open>lib/solana/rpc-rate-limit.ts\<close>: a rolling window of
  dispatches, three priorities, and a cooldown with a single recovery probe after the endpoint
  answered 429.  All calls of \<open>Date.now()\<close> within one synchronous turn return the same value, the
  argument \<open>now\<close>; a request is an element of the type variable \<open>'a\<close>.
\<close>

section \<open>State\<close>

definition FRONTEND_SOLANA_RPC_WINDOW_MS :: int where "FRONTEND_SOLANA_RPC_WINDOW_MS = 1000"

record 'a queue_entry =
  qe_request :: 'a
  qe_priority :: nat
  qe_sequence :: nat

record 'a endpoint_state =
  ep_cooldownUntil :: int
  ep_dispatchedAt :: "int list"
  ep_nextSequence :: nat
  ep_queue :: "'a queue_entry list"
  ep_rateLimitFailures :: nat
  ep_rateLimited :: bool
  ep_recoveryProbeInFlight :: bool
  ep_timer :: "int option"

definition new_endpoint :: "'a endpoint_state" where
  "new_endpoint = \<lparr>ep_cooldownUntil = 0, ep_dispatchedAt = [], ep_nextSequence = 0, ep_queue = [],
     ep_rateLimitFailures = 0, ep_rateLimited = False, ep_recoveryProbeInFlight = False, ep_timer = None\<rparr>"

text \<open>Responses, as far as the queue looks at them: the status and the \<open>retry-after\<close> header.\<close>

record rpc_response =
  rr_status :: int
  rr_retryAfter :: "string option"

section \<open>Delays\<close>

text \<open>
  \<open>to_number\<close> and \<open>date_parse\<close> stand for \<open>Number(text)\<close> and \<open>Date.parse(text)\<close>, and \<open>random\<close> for the result of
  \<open>Math.random()\<close>.
\<close>

definition getRetryAfterMs ::
    "(string \<Rightarrow> js_number) \<Rightarrow> (string \<Rightarrow> int option) \<Rightarrow> int \<Rightarrow> rpc_response option \<Rightarrow> int option" where
  "getRetryAfterMs to_number date_parse now response =
     (case Option.bind response rr_retryAfter of
        None \<Rightarrow> None
      | Some header \<Rightarrow>
          let retryAfter = js_trim header in
          if retryAfter = [] then None
          else case to_number retryAfter of
            Finite seconds \<Rightarrow>
              if seconds > 0 then Some \<lceil>seconds * 1000\<rceil>
              else (case date_parse retryAfter of
                      None \<Rightarrow> None
                    | Some retryAt \<Rightarrow> if retryAt - now > 0 then Some (retryAt - now) else None)
          | Non_finite \<Rightarrow>
              (case date_parse retryAfter of
                 None \<Rightarrow> None
               | Some retryAt \<Rightarrow> if retryAt - now > 0 then Some (retryAt - now) else None))"

definition getBackoffDelayMs :: "rat \<Rightarrow> nat \<Rightarrow> int" where
  "getBackoffDelayMs random attempt = min 2000 (250 * 2 ^ attempt + \<lfloor>random * 125\<rfloor>)"

section \<open>Operations\<close>

definition scheduleEndpointPump :: "int \<Rightarrow> int \<Rightarrow> 'a endpoint_state \<Rightarrow> 'a endpoint_state" where
  "scheduleEndpointPump now delayMs state =
     (if ep_timer state \<noteq> None then state else state\<lparr>ep_timer := Some (now + max 0 delayMs)\<rparr>)"

text \<open>The loop of \<open>selectNextQueueEntry\<close>: \<open>i\<close> is the loop index, \<open>selected\<close> the index of the best entry so far.\<close>

definition before_in_queue :: "'a queue_entry \<Rightarrow> 'a queue_entry \<Rightarrow> bool" where
  "before_in_queue candidate selected \<longleftrightarrow>
     qe_priority candidate < qe_priority selected \<or>
     (qe_priority candidate = qe_priority selected \<and> qe_sequence candidate < qe_sequence selected)"

primrec select_loop :: "'a queue_entry list \<Rightarrow> nat \<Rightarrow> nat \<Rightarrow> 'a queue_entry \<Rightarrow> nat" where
  "select_loop [] i selectedIndex selected = selectedIndex"
| "select_loop (candidate # rest) i selectedIndex selected =
     (if before_in_queue candidate selected then select_loop rest (i + 1) i candidate
      else select_loop rest (i + 1) selectedIndex selected)"

definition selectNextQueueEntry :: "'a queue_entry list \<Rightarrow> ('a queue_entry \<times> 'a queue_entry list) option" where
  "selectNextQueueEntry queue =
     (case queue of
        [] \<Rightarrow> None
      | first # rest \<Rightarrow>
          let selectedIndex = select_loop rest 1 0 first in
          Some (queue ! selectedIndex, take selectedIndex queue @ drop (selectedIndex + 1) queue))"

definition markEndpointRateLimited :: "int \<Rightarrow> rat \<Rightarrow> int option \<Rightarrow> bool \<Rightarrow> 'a endpoint_state \<Rightarrow> 'a endpoint_state" where
  "markEndpointRateLimited now random retryAfterMs isRecoveryProbe state =
     (let failures = (if \<not> ep_rateLimited state \<or> isRecoveryProbe then ep_rateLimitFailures state + 1
                      else ep_rateLimitFailures state);
          cooldownMs = (case retryAfterMs of Some ms \<Rightarrow> ms | None \<Rightarrow> getBackoffDelayMs random (failures - 1)) in
      state\<lparr>ep_rateLimitFailures := failures, ep_rateLimited := True,
            ep_recoveryProbeInFlight := (if isRecoveryProbe then False else ep_recoveryProbeInFlight state),
            ep_cooldownUntil := max (ep_cooldownUntil state) (now + cooldownMs)\<rparr>)"

definition clearEndpointRateLimit :: "'a endpoint_state \<Rightarrow> 'a endpoint_state" where
  "clearEndpointRateLimit state =
     state\<lparr>ep_cooldownUntil := 0, ep_rateLimitFailures := 0, ep_rateLimited := False, ep_recoveryProbeInFlight := False\<rparr>"

text \<open>A dispatch: the entry, whether it is the recovery probe, and its time.\<close>

type_synonym 'a dispatch = "'a queue_entry \<times> bool \<times> int"

definition dispatchQueueEntry :: "int \<Rightarrow> bool \<Rightarrow> 'a endpoint_state \<Rightarrow> 'a endpoint_state" where
  "dispatchQueueEntry now isRecoveryProbe state =
     state\<lparr>ep_dispatchedAt := ep_dispatchedAt state @ [now],
           ep_recoveryProbeInFlight := isRecoveryProbe \<or> ep_recoveryProbeInFlight state\<rparr>"

datatype 'r rpc_outcome = Response 'r | Type_error | Other_error

text \<open>What happens to the endpoint when the request of a dispatch settles, before the \<open>finally\<close> callback.\<close>

definition dispatch_settles ::
    "(string \<Rightarrow> js_number) \<Rightarrow> (string \<Rightarrow> int option) \<Rightarrow> int \<Rightarrow> rat \<Rightarrow> bool \<Rightarrow> rpc_response rpc_outcome \<Rightarrow>
     'a endpoint_state \<Rightarrow> 'a endpoint_state" where
  "dispatch_settles to_number date_parse now random isRecoveryProbe outcome state =
     (case outcome of
        Response response \<Rightarrow>
          if rr_status response = 429 then
            markEndpointRateLimited now random (getRetryAfterMs to_number date_parse now (Some response)) isRecoveryProbe state
          else if isRecoveryProbe then clearEndpointRateLimit state else state
      | Type_error \<Rightarrow> markEndpointRateLimited now random None isRecoveryProbe state
      | Other_error \<Rightarrow> if isRecoveryProbe then clearEndpointRateLimit state else state)"

definition pruneDispatchWindow :: "int \<Rightarrow> int list \<Rightarrow> int list" where
  "pruneDispatchWindow now dispatchedAt = dropWhile (\<lambda>d. d \<le> now - FRONTEND_SOLANA_RPC_WINDOW_MS) dispatchedAt"

text \<open>The dispatch loop of \<open>pumpEndpointQueue\<close>; the queue shrinks in every round.\<close>

function pump_loop :: "int \<Rightarrow> nat \<Rightarrow> 'a endpoint_state \<Rightarrow> 'a endpoint_state \<times> 'a dispatch list" where
  "pump_loop now maxRequests state =
     (if ep_queue state \<noteq> [] \<and> length (ep_dispatchedAt state) < maxRequests \<and> \<not> ep_rateLimited state then
        (case selectNextQueueEntry (ep_queue state) of
           None \<Rightarrow> (state, [])
         | Some (entry, queue) \<Rightarrow>
             (case pump_loop now maxRequests (dispatchQueueEntry now False (state\<lparr>ep_queue := queue\<rparr>)) of
                (state', dispatched) \<Rightarrow> (state', (entry, False, now) # dispatched)))
      else (state, []))"
  by pat_completeness auto
termination
  by (relation "measure (\<lambda>(now, maxRequests, state). maxRequests - length (ep_dispatchedAt state))")
    (auto simp: dispatchQueueEntry_def)

declare pump_loop.simps [simp del]

definition recoveryReadyAt :: "int \<Rightarrow> nat \<Rightarrow> int \<Rightarrow> int list \<Rightarrow> int" where
  "recoveryReadyAt now maxRequests cooldownUntil dispatchedAt =
     (let windowReadyAt =
            (case dispatchedAt of
               [] \<Rightarrow> now
             | oldest # _ \<Rightarrow>
                 if length dispatchedAt \<ge> maxRequests then oldest + FRONTEND_SOLANA_RPC_WINDOW_MS else now) in
      max cooldownUntil windowReadyAt)"

definition pumpEndpointQueue :: "int \<Rightarrow> nat \<Rightarrow> 'a endpoint_state \<Rightarrow> 'a endpoint_state \<times> 'a dispatch list" where
  "pumpEndpointQueue now maxRequests state0 =
     (if ep_queue state0 = [] then (state0, [])
      else
        let state = state0\<lparr>ep_dispatchedAt := pruneDispatchWindow now (ep_dispatchedAt state0)\<rparr> in
        if ep_rateLimited state then
          if ep_recoveryProbeInFlight state then (state, [])
          else
            let readyAt = recoveryReadyAt now maxRequests (ep_cooldownUntil state) (ep_dispatchedAt state) in
            if readyAt > now then (scheduleEndpointPump now (readyAt - now) state, [])
            else (case selectNextQueueEntry (ep_queue state) of
                    None \<Rightarrow> (state, [])
                  | Some (entry, queue) \<Rightarrow>
                      (dispatchQueueEntry now True (state\<lparr>ep_queue := queue\<rparr>), [(entry, True, now)]))
        else
          (case pump_loop now maxRequests state of
             (state', dispatched) \<Rightarrow>
               if ep_queue state' = [] then (state', dispatched)
               else (case ep_dispatchedAt state' of
                       [] \<Rightarrow> (state', dispatched)
                     | oldest # _ \<Rightarrow>
                         (scheduleEndpointPump now (oldest + FRONTEND_SOLANA_RPC_WINDOW_MS - now) state', dispatched))))"

definition runQueuedFetch :: "int \<Rightarrow> nat \<Rightarrow> 'a \<Rightarrow> nat \<Rightarrow> 'a endpoint_state \<Rightarrow> 'a endpoint_state \<times> 'a dispatch list" where
  "runQueuedFetch now maxRequests request priority state =
     pumpEndpointQueue now maxRequests
       (state\<lparr>ep_queue := ep_queue state @
                [\<lparr>qe_request = request, qe_priority = priority, qe_sequence = ep_nextSequence state\<rparr>],
             ep_nextSequence := ep_nextSequence state + 1\<rparr>)"

definition pump_timer :: "int \<Rightarrow> nat \<Rightarrow> 'a endpoint_state \<Rightarrow> 'a endpoint_state \<times> 'a dispatch list" where
  "pump_timer now maxRequests state =
     (case ep_timer state of
        None \<Rightarrow> (state, [])
      | Some _ \<Rightarrow> pumpEndpointQueue now maxRequests (state\<lparr>ep_timer := None\<rparr>))"

section \<open>Selection\<close>

lemma select_loop_spec:
  assumes "queue = pre @ rest" "i = length pre" "s < length pre" "queue ! s = x"
    and "\<forall>y \<in> set pre. \<not> before_in_queue y x"
  shows "select_loop rest i s x < length queue \<and>
    (\<forall>y \<in> set queue. \<not> before_in_queue y (queue ! select_loop rest i s x))"
  using assms
proof (induction rest arbitrary: pre i s x)
  case (Cons c rest)
  show ?case
  proof (cases "before_in_queue c x")
    case True
    have "select_loop rest (i + 1) i c < length queue \<and>
        (\<forall>y \<in> set queue. \<not> before_in_queue y (queue ! select_loop rest (i + 1) i c))"
    proof (rule Cons.IH [of "pre @ [c]"])
      show "\<forall>y \<in> set (pre @ [c]). \<not> before_in_queue y c"
        using True Cons.prems(5) by (auto simp: before_in_queue_def)
    qed (use Cons.prems in \<open>simp_all add: nth_append\<close>)
    with True show ?thesis by simp
  next
    case False
    have "select_loop rest (i + 1) s x < length queue \<and>
        (\<forall>y \<in> set queue. \<not> before_in_queue y (queue ! select_loop rest (i + 1) s x))"
      by (rule Cons.IH [of "pre @ [c]"]) (use Cons.prems False in \<open>auto simp: nth_append\<close>)
    with False show ?thesis by simp
  qed
qed simp

lemma select_next_spec:
  assumes "selectNextQueueEntry queue = Some (e, rest)"
  shows "\<exists>i < length queue. e = queue ! i \<and> rest = take i queue @ drop (Suc i) queue \<and>
    (\<forall>y \<in> set queue. \<not> before_in_queue y e)"
proof (cases queue)
  case Nil
  with assms show ?thesis by (simp add: selectNextQueueEntry_def)
next
  case (Cons q qs)
  have "select_loop qs 1 0 q < length queue \<and> (\<forall>y \<in> set queue. \<not> before_in_queue y (queue ! select_loop qs 1 0 q))"
    by (rule select_loop_spec [of queue "[q]"]) (simp_all add: Cons before_in_queue_def)
  with assms Cons show ?thesis
    by (auto simp: selectNextQueueEntry_def Let_def intro!: exI [of _ "select_loop qs 1 0 q"])
qed

lemma select_next_mset: "selectNextQueueEntry queue = Some (e, rest) \<Longrightarrow> mset queue = add_mset e (mset rest)"
  by (auto dest!: select_next_spec simp: mset_append [symmetric] simp del: mset_append)
    (metis add_mset_add_single id_take_nth_drop mset.simps(2) mset_append union_mset_add_mset_right)

lemma select_next_length: "selectNextQueueEntry queue = Some (e, rest) \<Longrightarrow> length rest < length queue"
  using select_next_mset [of queue e rest] by (metis lessI mset.simps(2) size_mset length_Cons)

lemma select_next_None: "selectNextQueueEntry queue = None \<longleftrightarrow> queue = []"
  by (simp add: selectNextQueueEntry_def Let_def split: list.splits)

section \<open>The rolling window\<close>

definition in_window :: "int \<Rightarrow> int list \<Rightarrow> int list" where
  "in_window u sent = filter (\<lambda>d. u - FRONTEND_SOLANA_RPC_WINDOW_MS < d \<and> d \<le> u) sent"

definition window_ok :: "nat \<Rightarrow> int list \<Rightarrow> bool" where
  "window_ok m sent \<longleftrightarrow> (\<forall>u. length (in_window u sent) \<le> m)"

text \<open>The recorded dispatches are the last ones, and those forgotten have left the window.\<close>

definition tracks_window :: "int \<Rightarrow> int list \<Rightarrow> int list \<Rightarrow> bool" where
  "tracks_window now sent recorded \<longleftrightarrow>
     (\<exists>forgotten. sent = forgotten @ recorded \<and> (\<forall>d \<in> set forgotten. d \<le> now - FRONTEND_SOLANA_RPC_WINDOW_MS)) \<and>
     (\<forall>d \<in> set sent. d \<le> now)"

lemma tracks_later: "tracks_window t sent recorded \<Longrightarrow> t \<le> now \<Longrightarrow> tracks_window now sent recorded"
  unfolding tracks_window_def by (elim conjE exE) (intro conjI exI, assumption, force, force)

lemma tracks_prune:
  assumes "tracks_window now sent recorded"
  shows "tracks_window now sent (pruneDispatchWindow now recorded)"
proof -
  from assms obtain forgotten where f: "sent = forgotten @ recorded"
    "\<forall>d \<in> set forgotten. d \<le> now - FRONTEND_SOLANA_RPC_WINDOW_MS" "\<forall>d \<in> set sent. d \<le> now"
    by (auto simp: tracks_window_def)
  let ?p = "\<lambda>d. d \<le> now - FRONTEND_SOLANA_RPC_WINDOW_MS"
  have "sent = (forgotten @ takeWhile ?p recorded) @ dropWhile ?p recorded" using f(1) by simp
  moreover have "\<forall>d \<in> set (forgotten @ takeWhile ?p recorded). ?p d" using f(2) by (auto dest: set_takeWhileD)
  ultimately show ?thesis using f(3) unfolding tracks_window_def pruneDispatchWindow_def by blast
qed

lemma dispatch_window:
  assumes "window_ok m sent" "tracks_window now sent recorded" "length recorded < m"
  shows "window_ok m (sent @ [now]) \<and> tracks_window now (sent @ [now]) (recorded @ [now])"
proof -
  from assms(2) obtain forgotten where f: "sent = forgotten @ recorded"
    "\<forall>d \<in> set forgotten. d \<le> now - FRONTEND_SOLANA_RPC_WINDOW_MS" "\<forall>d \<in> set sent. d \<le> now"
    by (auto simp: tracks_window_def)
  have "length (in_window u (sent @ [now])) \<le> m" for u
  proof (cases "now \<le> u")
    case True
    then have "in_window u forgotten = []" using f(2) by (auto simp: in_window_def filter_empty_conv)
    then have "length (in_window u (sent @ [now])) \<le> length (recorded @ [now])"
      unfolding f(1) in_window_def by (simp add: le_SucI)
    with assms(3) show ?thesis by simp
  next
    case False
    then have "in_window u (sent @ [now]) = in_window u sent" by (simp add: in_window_def)
    with assms(1) show ?thesis by (simp add: window_ok_def)
  qed
  moreover have "tracks_window now (sent @ [now]) (recorded @ [now])"
    using f by (auto simp: tracks_window_def)
  ultimately show ?thesis by (simp add: window_ok_def)
qed

abbreviation dispatch_time :: "'a dispatch \<Rightarrow> int" where
  "dispatch_time d \<equiv> snd (snd d)"

abbreviation is_probe :: "'a dispatch \<Rightarrow> bool" where
  "is_probe d \<equiv> fst (snd d)"

text \<open>The dispatch loop keeps the window and stops only when the queue or the window is exhausted.\<close>

lemma pump_loop_spec:
  assumes "window_ok m sent" "tracks_window now sent (ep_dispatchedAt s)" "\<not> ep_rateLimited s"
    and "pump_loop now m s = (s', ds)"
  shows "window_ok m (sent @ map dispatch_time ds) \<and> tracks_window now (sent @ map dispatch_time ds) (ep_dispatchedAt s') \<and>
    filter is_probe ds = [] \<and> \<not> ep_rateLimited s' \<and> ep_recoveryProbeInFlight s' = ep_recoveryProbeInFlight s \<and>
    ep_timer s' = ep_timer s \<and> ep_nextSequence s' = ep_nextSequence s \<and>
    (ep_queue s' \<noteq> [] \<longrightarrow> m \<le> length (ep_dispatchedAt s')) \<and>
    mset (ep_queue s) = mset (map fst ds) + mset (ep_queue s')"
  using assms
proof (induction now m s arbitrary: sent ds rule: pump_loop.induct)
  case (1 now m s)
  show ?case
  proof (cases "ep_queue s \<noteq> [] \<and> length (ep_dispatchedAt s) < m")
    case True
    then obtain e q where sel: "selectNextQueueEntry (ep_queue s) = Some (e, q)"
      using select_next_None by (metis not_Some_eq surj_pair)
    let ?s1 = "dispatchQueueEntry now False (s\<lparr>ep_queue := q\<rparr>)"
    obtain ds1 where rest: "pump_loop now m ?s1 = (s', ds1)" and ds: "ds = (e, False, now) # ds1"
      using "1.prems"(3,4) True sel by (subst (asm) pump_loop.simps) (auto split: prod.splits)
    have w: "window_ok m (sent @ [now]) \<and> tracks_window now (sent @ [now]) (ep_dispatchedAt s @ [now])"
      using dispatch_window "1.prems"(1,2) True by blast
    have "window_ok m ((sent @ [now]) @ map dispatch_time ds1) \<and>
      tracks_window now ((sent @ [now]) @ map dispatch_time ds1) (ep_dispatchedAt s') \<and>
      filter is_probe ds1 = [] \<and> \<not> ep_rateLimited s' \<and> ep_recoveryProbeInFlight s' = ep_recoveryProbeInFlight ?s1 \<and>
      ep_timer s' = ep_timer ?s1 \<and> ep_nextSequence s' = ep_nextSequence ?s1 \<and>
      (ep_queue s' \<noteq> [] \<longrightarrow> m \<le> length (ep_dispatchedAt s')) \<and>
      mset (ep_queue ?s1) = mset (map fst ds1) + mset (ep_queue s')"
      using "1.prems"(3) True w rest by (intro "1.IH" [OF _ sel refl]) (simp_all add: dispatchQueueEntry_def)
    with select_next_mset [OF sel] show ?thesis by (simp add: ds dispatchQueueEntry_def)
  next
    case False
    then show ?thesis using "1.prems" by (subst (asm) pump_loop.simps) auto
  qed
qed

lemma schedule_simps [simp]:
  "ep_dispatchedAt (scheduleEndpointPump now d s) = ep_dispatchedAt s"
  "ep_queue (scheduleEndpointPump now d s) = ep_queue s"
  "ep_rateLimited (scheduleEndpointPump now d s) = ep_rateLimited s"
  "ep_cooldownUntil (scheduleEndpointPump now d s) = ep_cooldownUntil s"
  "ep_recoveryProbeInFlight (scheduleEndpointPump now d s) = ep_recoveryProbeInFlight s"
  "ep_nextSequence (scheduleEndpointPump now d s) = ep_nextSequence s"
  "\<exists>w. ep_timer (scheduleEndpointPump now d s) = Some w"
  by (auto simp: scheduleEndpointPump_def)

text \<open>
  One call of \<open>pumpEndpointQueue\<close>: the window is kept, only the recovery probe leaves a limited
  endpoint, and only after the cooldown; afterwards a waiting queue has a timer or a probe.
\<close>

lemma pump_spec:
  assumes window: "window_ok m sent" "tracks_window now sent (ep_dispatchedAt s)" and m: "0 < m"
    and probe: "ep_recoveryProbeInFlight s \<longrightarrow> ep_rateLimited s"
    and run: "pumpEndpointQueue now m s = (s', ds)"
  shows "window_ok m (sent @ map dispatch_time ds) \<and> tracks_window now (sent @ map dispatch_time ds) (ep_dispatchedAt s') \<and>
    ep_rateLimited s' = ep_rateLimited s \<and>
    (ep_rateLimited s \<longrightarrow> list_all is_probe ds \<and> length ds \<le> 1 \<and>
       (ds \<noteq> [] \<longrightarrow> ep_cooldownUntil s \<le> now \<and> \<not> ep_recoveryProbeInFlight s)) \<and>
    (\<not> ep_rateLimited s \<longrightarrow> filter is_probe ds = []) \<and>
    (ep_recoveryProbeInFlight s' \<longleftrightarrow> ep_recoveryProbeInFlight s \<or> filter is_probe ds \<noteq> []) \<and>
    ep_nextSequence s' = ep_nextSequence s \<and>
    (ep_queue s' \<noteq> [] \<longrightarrow> ep_timer s' \<noteq> None \<or> ep_recoveryProbeInFlight s') \<and>
    mset (ep_queue s) = mset (map fst ds) + mset (ep_queue s')"
proof (cases "ep_queue s = []")
  case True
  with run window show ?thesis by (auto simp: pumpEndpointQueue_def)
next
  case False
  define r where "r = pruneDispatchWindow now (ep_dispatchedAt s)"
  let ?s = "s\<lparr>ep_dispatchedAt := r\<rparr>"
  have tracks: "tracks_window now sent r" unfolding r_def by (rule tracks_prune [OF window(2)])
  show ?thesis
  proof (cases "ep_rateLimited s")
    case limited: True
    show ?thesis
    proof (cases "ep_recoveryProbeInFlight s")
      case True
      with limited False run window(1) tracks show ?thesis by (auto simp: pumpEndpointQueue_def r_def [symmetric])
    next
      case no_probe: False
      define readyAt where "readyAt = recoveryReadyAt now m (ep_cooldownUntil s) r"
      show ?thesis
      proof (cases "readyAt > now")
        case True
        then have "s' = scheduleEndpointPump now (readyAt - now) ?s" "ds = []"
          using run False limited no_probe
          by (auto simp: pumpEndpointQueue_def Let_def r_def [symmetric] readyAt_def)
        with window(1) tracks limited no_probe show ?thesis by simp
      next
        case ready: False
        obtain e q where sel: "selectNextQueueEntry (ep_queue s) = Some (e, q)"
          using False select_next_None by (metis not_Some_eq surj_pair)
        have "hd r > now - FRONTEND_SOLANA_RPC_WINDOW_MS" if "r \<noteq> []"
          using that hd_dropWhile [of "\<lambda>d. d \<le> now - FRONTEND_SOLANA_RPC_WINDOW_MS" "ep_dispatchedAt s"]
          by (simp add: r_def pruneDispatchWindow_def)
        then have "length r < m" using ready m unfolding readyAt_def recoveryReadyAt_def Let_def
          by (cases r) (auto split: if_splits)
        note w = dispatch_window [OF window(1) tracks this]
        have "s' = dispatchQueueEntry now True (?s\<lparr>ep_queue := q\<rparr>)" "ds = [(e, True, now)]"
          using run False limited no_probe ready sel
          by (auto simp: pumpEndpointQueue_def Let_def r_def [symmetric] readyAt_def)
        with w limited no_probe ready select_next_mset [OF sel] show ?thesis
          by (simp add: dispatchQueueEntry_def readyAt_def recoveryReadyAt_def Let_def)
      qed
    qed
  next
    case free: False
    obtain s1 ds1 where loop: "pump_loop now m ?s = (s1, ds1)" by (cases "pump_loop now m ?s")
    have spec: "window_ok m (sent @ map dispatch_time ds1) \<and> tracks_window now (sent @ map dispatch_time ds1) (ep_dispatchedAt s1) \<and>
      filter is_probe ds1 = [] \<and> \<not> ep_rateLimited s1 \<and> ep_recoveryProbeInFlight s1 = ep_recoveryProbeInFlight s \<and>
      ep_nextSequence s1 = ep_nextSequence s \<and> (ep_queue s1 \<noteq> [] \<longrightarrow> m \<le> length (ep_dispatchedAt s1)) \<and>
      mset (ep_queue s) = mset (map fst ds1) + mset (ep_queue s1)"
      using pump_loop_spec [OF window(1) _ _ loop] tracks free by simp
    have ds: "ds = ds1" and s': "s' = s1 \<or> (\<exists>d. s' = scheduleEndpointPump now d s1)"
      and wait: "ep_queue s1 \<noteq> [] \<Longrightarrow> ep_dispatchedAt s1 \<noteq> [] \<Longrightarrow> ep_timer s' \<noteq> None"
      using run False free loop
      by (auto simp: pumpEndpointQueue_def Let_def r_def [symmetric] split: if_splits list.splits)
    have "ep_queue s1 \<noteq> [] \<Longrightarrow> ep_dispatchedAt s1 \<noteq> []" using spec m by auto
    then have "ep_queue s' \<noteq> [] \<longrightarrow> ep_timer s' \<noteq> None" using wait s' by auto
    with spec s' ds free probe show ?thesis by auto
  qed
qed

section \<open>Histories\<close>

text \<open>
  \<open>rpc_history m s flying owed issued t\<close>: the endpoint, the dispatched requests that have not settled,
  the number of \<open>finally\<close> callbacks still to run, all dispatches, and the time of the last step.  The
  clock does not go backwards.
\<close>

inductive rpc_history ::
    "nat \<Rightarrow> 'a endpoint_state \<Rightarrow> 'a dispatch list \<Rightarrow> nat \<Rightarrow> 'a dispatch list \<Rightarrow> int \<Rightarrow> bool" for m :: nat where
  rpc_new: "rpc_history m new_endpoint [] 0 [] t"
| rpc_request:
    "rpc_history m s flying owed issued t \<Longrightarrow> t \<le> now \<Longrightarrow> runQueuedFetch now m request priority s = (s', ds) \<Longrightarrow>
     rpc_history m s' (flying @ ds) owed (issued @ ds) now"
| rpc_settles:
    "rpc_history m s flying owed issued t \<Longrightarrow> t \<le> now \<Longrightarrow> d \<in> set flying \<Longrightarrow>
     rpc_history m (dispatch_settles to_number date_parse now random (is_probe d) outcome s)
       (remove1 d flying) (Suc owed) issued now"
| rpc_finally:
    "rpc_history m s flying (Suc owed) issued t \<Longrightarrow> t \<le> now \<Longrightarrow> pumpEndpointQueue now m s = (s', ds) \<Longrightarrow>
     rpc_history m s' (flying @ ds) owed (issued @ ds) now"
| rpc_timer:
    "rpc_history m s flying owed issued t \<Longrightarrow> t \<le> now \<Longrightarrow> pump_timer now m s = (s', ds) \<Longrightarrow>
     rpc_history m s' (flying @ ds) owed (issued @ ds) now"

definition rpc_inv ::
    "nat \<Rightarrow> 'a endpoint_state \<Rightarrow> 'a dispatch list \<Rightarrow> nat \<Rightarrow> 'a dispatch list \<Rightarrow> int \<Rightarrow> bool" where
  "rpc_inv m s flying owed issued t \<longleftrightarrow>
     window_ok m (map dispatch_time issued) \<and> tracks_window t (map dispatch_time issued) (ep_dispatchedAt s) \<and>
     (ep_recoveryProbeInFlight s \<longrightarrow> ep_rateLimited s) \<and>
     length (filter is_probe flying) = (if ep_recoveryProbeInFlight s then 1 else 0) \<and>
     (ep_queue s \<noteq> [] \<longrightarrow> ep_timer s \<noteq> None \<or> ep_recoveryProbeInFlight s \<or> 0 < owed)"

lemma rpc_inv_pump:
  assumes "window_ok m (map dispatch_time issued)" "tracks_window t (map dispatch_time issued) (ep_dispatchedAt s)"
    and "ep_recoveryProbeInFlight s \<longrightarrow> ep_rateLimited s"
    and "length (filter is_probe flying) = (if ep_recoveryProbeInFlight s then 1 else 0)"
    and "0 < m" "t \<le> now" "pumpEndpointQueue now m s = (s', ds)"
  shows "rpc_inv m s' (flying @ ds) owed (issued @ ds) now"
proof -
  note spec = pump_spec [OF assms(1) tracks_later [OF assms(2,6)] assms(5,3,7)]
  have probes: "length (filter is_probe ds) = (if filter is_probe ds = [] then 0 else 1)"
    using spec by (cases ds) (auto split: if_splits)
  have "\<not> (ep_recoveryProbeInFlight s \<and> filter is_probe ds \<noteq> [])"
    using spec assms(3) by (cases ds) auto
  with spec probes assms(3,4) show ?thesis unfolding rpc_inv_def by (auto split: if_splits)
qed

lemma mark_simps [simp]:
  "ep_dispatchedAt (markEndpointRateLimited now rnd ra p s) = ep_dispatchedAt s"
  "ep_queue (markEndpointRateLimited now rnd ra p s) = ep_queue s"
  "ep_timer (markEndpointRateLimited now rnd ra p s) = ep_timer s"
  "ep_rateLimited (markEndpointRateLimited now rnd ra p s)"
  "ep_recoveryProbeInFlight (markEndpointRateLimited now rnd ra p s) \<longleftrightarrow> \<not> p \<and> ep_recoveryProbeInFlight s"
  by (simp_all add: markEndpointRateLimited_def Let_def)

lemma settles_simps:
  "ep_dispatchedAt (dispatch_settles f g now rnd p oc s) = ep_dispatchedAt s"
  "ep_recoveryProbeInFlight (dispatch_settles f g now rnd p oc s) \<longleftrightarrow> \<not> p \<and> ep_recoveryProbeInFlight s"
  "\<not> p \<Longrightarrow> ep_rateLimited s \<Longrightarrow> ep_rateLimited (dispatch_settles f g now rnd p oc s)"
  by (auto simp: dispatch_settles_def clearEndpointRateLimit_def split: rpc_outcome.splits)

lemma length_filter_remove1:
  "x \<in> set xs \<Longrightarrow> length (filter P xs) = length (filter P (remove1 x xs)) + (if P x then 1 else 0)"
  by (induction xs) auto

lemma history_rpc_inv:
  assumes "rpc_history m s flying owed issued t" and "0 < m"
  shows "rpc_inv m s flying owed issued t"
  using assms(1)
proof (induction rule: rpc_history.induct)
  case (rpc_new t)
  show ?case by (simp add: rpc_inv_def new_endpoint_def window_ok_def in_window_def tracks_window_def)
next
  case (rpc_request s flying owed issued t now request priority s' ds)
  show ?case
    by (rule rpc_inv_pump [OF _ _ _ _ assms(2) rpc_request.hyps(2,3) [unfolded runQueuedFetch_def]])
      (use rpc_request.IH in \<open>simp_all add: rpc_inv_def\<close>)
next
  case (rpc_settles s flying owed issued t now d to_number date_parse random outcome)
  have "length (filter is_probe flying) = length (filter is_probe (remove1 d flying)) + (if is_probe d then 1 else 0)"
    by (rule length_filter_remove1 [OF rpc_settles.hyps(3)])
  moreover have "tracks_window now (map dispatch_time issued) (ep_dispatchedAt s)"
    using rpc_settles.IH tracks_later [OF _ rpc_settles.hyps(2)] unfolding rpc_inv_def by blast
  ultimately show ?case
    using rpc_settles.IH by (auto simp: rpc_inv_def settles_simps split: if_splits)
next
  case (rpc_finally s flying owed issued t now s' ds)
  show ?case
    by (rule rpc_inv_pump [OF _ _ _ _ assms(2) rpc_finally.hyps(2,3)])
      (use rpc_finally.IH in \<open>simp_all add: rpc_inv_def\<close>)
next
  case (rpc_timer s flying owed issued t now s' ds)
  show ?case
  proof (cases "ep_timer s")
    case None
    with rpc_timer tracks_later [OF _ rpc_timer.hyps(2)] show ?thesis
      by (auto simp: pump_timer_def rpc_inv_def)
  next
    case (Some x)
    then have run: "pumpEndpointQueue now m (s\<lparr>ep_timer := None\<rparr>) = (s', ds)"
      using rpc_timer.hyps(3) by (simp add: pump_timer_def)
    show ?thesis
      by (rule rpc_inv_pump [OF _ _ _ _ assms(2) rpc_timer.hyps(2) run])
        (use rpc_timer.IH in \<open>simp_all add: rpc_inv_def\<close>)
  qed
qed

lemma window_bound:
  assumes "rpc_history m s flying owed issued t" and "0 < m"
  shows "length (in_window u (map dispatch_time issued)) \<le> m"
  using history_rpc_inv [OF assms] by (simp add: rpc_inv_def window_ok_def)

section \<open>Properties\<close>

definition example_endpoint :: "nat \<Rightarrow> nat endpoint_state \<times> nat dispatch list" where
  "example_endpoint n = fold (\<lambda>i (s, ds). case runQueuedFetch 10 1 i 1 s of (s', ds') \<Rightarrow> (s', ds @ ds'))
     [0..<n] (new_endpoint, [])"

lemma example_rpc_history: "rpc_history 1 (fst (example_endpoint n)) (snd (example_endpoint n)) 0 (snd (example_endpoint n)) 10"
proof (induction n)
  case 0
  show ?case by (simp add: example_endpoint_def rpc_new)
next
  case (Suc n)
  obtain s ds where e: "example_endpoint n = (s, ds)" by (cases "example_endpoint n")
  obtain s' ds' where r: "runQueuedFetch 10 1 n 1 s = (s', ds')" by (cases "runQueuedFetch 10 1 n 1 s")
  have "example_endpoint (Suc n) = (s', ds @ ds')" using e r by (simp add: example_endpoint_def)
  with rpc_request [OF Suc.IH order_refl, of n 1] e r show ?case by simp
qed

text \<open>
  C23.  A limited endpoint is probed by one request at a time: at most one probe is in flight, and
  while the endpoint is limited a pump sends at most that probe, only after the cooldown has passed
  and only if no probe is in flight.
\<close>

theorem rpc_single_probe:
  assumes "rpc_history m s flying owed issued t" and "0 < m" and "t \<le> now"
    and "ep_rateLimited s" and "pumpEndpointQueue now m s = (s', ds)"
  shows "length (filter is_probe flying) \<le> 1 \<and> length ds \<le> 1 \<and>
    (ds \<noteq> [] \<longrightarrow> ep_cooldownUntil s \<le> now \<and> filter is_probe flying = [])"
proof -
  have inv: "rpc_inv m s flying owed issued t" by (rule history_rpc_inv [OF assms(1,2)])
  then have w: "window_ok m (map dispatch_time issued)" "tracks_window now (map dispatch_time issued) (ep_dispatchedAt s)"
      "ep_recoveryProbeInFlight s \<longrightarrow> ep_rateLimited s"
    using tracks_later [OF _ assms(3)] unfolding rpc_inv_def by blast+
  show ?thesis using pump_spec [OF w(1,2) assms(2) w(3) assms(5)] assms(4) inv
    by (auto simp: rpc_inv_def split: if_splits)
qed

definition example_limited :: "nat endpoint_state" where
  "example_limited = dispatch_settles (\<lambda>_. Non_finite) (\<lambda>_. None) 10 0 False Type_error (fst (example_endpoint 2))"

theorem rpc_single_probe_witness:
  "map fst (snd (pumpEndpointQueue 2000 1 example_limited)) = [\<lparr>qe_request = 1, qe_priority = 1, qe_sequence = 1\<rparr>] \<and>
   length (snd (pumpEndpointQueue 2000 1 example_limited)) \<le> 1"
proof
  have d: "snd (example_endpoint 2) = [(\<lparr>qe_request = 0, qe_priority = 1, qe_sequence = 0\<rparr>, False, 10)]" by code_simp
  have "rpc_history 1 example_limited (remove1 (hd (snd (example_endpoint 2))) (snd (example_endpoint 2))) (Suc 0)
      (snd (example_endpoint 2)) 10"
    using rpc_settles [OF example_rpc_history [of 2] order_refl, of "hd (snd (example_endpoint 2))"]
    unfolding example_limited_def by (simp add: d)
  moreover have "ep_rateLimited example_limited" by code_simp
  ultimately show "length (snd (pumpEndpointQueue 2000 1 example_limited)) \<le> 1"
    using rpc_single_probe [OF _ _ _ _ prod.collapse [symmetric], of 1 example_limited _ _ _ 10 2000] by fastforce
  show "map fst (snd (pumpEndpointQueue 2000 1 example_limited)) = [\<lparr>qe_request = 1, qe_priority = 1, qe_sequence = 1\<rparr>]"
    by code_simp
qed

text \<open>
  C24.  The queue never stalls: whenever requests are waiting, a timer is armed, a probe is in flight,
  or the callback of a settled request that pumps the queue is still to run.
\<close>

theorem rpc_queue_never_stalls:
  assumes "rpc_history m s flying owed issued t" and "0 < m" and "ep_queue s \<noteq> []"
  shows "ep_timer s \<noteq> None \<or> filter is_probe flying \<noteq> [] \<or> 0 < owed"
  using history_rpc_inv [OF assms(1,2)] assms(3) unfolding rpc_inv_def
  by (metis list.size(3) zero_neq_one)

theorem rpc_queue_never_stalls_witness:
  "ep_queue (fst (example_endpoint 2)) \<noteq> [] \<and> filter is_probe (snd (example_endpoint 2)) = [] \<and>
   ep_timer (fst (example_endpoint 2)) \<noteq> None"
proof -
  have q: "ep_queue (fst (example_endpoint 2)) \<noteq> []" by code_simp
  have "filter is_probe (snd (example_endpoint 2)) = []" by code_simp
  with q rpc_queue_never_stalls [OF example_rpc_history _ q] show ?thesis by simp
qed

text \<open>
  C25.  Selection refines its specification: on a queue whose sequence numbers differ, the entry taken
  is the unique minimum in the order of priority and then arrival, and the others keep their order.
\<close>

theorem select_next_is_minimum:
  assumes "queue \<noteq> []" and "distinct (map qe_sequence queue)"
  shows "\<exists>e. selectNextQueueEntry queue = Some (e, remove1 e queue) \<and> e \<in> set queue \<and>
    (\<forall>x \<in> set queue. x \<noteq> e \<longrightarrow> (qe_priority e, qe_sequence e) < (qe_priority x, qe_sequence x))"
proof -
  obtain e rest where sel: "selectNextQueueEntry queue = Some (e, rest)"
    using assms(1) select_next_None by (metis not_Some_eq surj_pair)
  obtain i where i: "i < length queue" "e = queue ! i" "rest = take i queue @ drop (Suc i) queue"
    "\<forall>y \<in> set queue. \<not> before_in_queue y e" using select_next_spec [OF sel] by blast
  have dist: "distinct queue" using assms(2) by (simp add: distinct_map)
  have "e \<notin> set (take i queue)"
    using dist i(1,2) by (metis distinct_take id_take_nth_drop not_distinct_conv_prefix)
  then have "remove1 e queue = rest"
    using id_take_nth_drop [OF i(1)] i(2,3) by (metis remove1.simps(2) remove1_append)
  moreover have "(qe_priority e, qe_sequence e) < (qe_priority x, qe_sequence x)" if x: "x \<in> set queue" "x \<noteq> e" for x
  proof -
    have "qe_sequence x \<noteq> qe_sequence e"
      using assms(2) x i(1,2) by (auto simp: distinct_map inj_on_def)
    with i(4) x(1) show ?thesis by (auto simp: before_in_queue_def)
  qed
  ultimately show ?thesis using sel i by auto
qed

definition example_queue :: "string queue_entry list" where
  "example_queue = [\<lparr>qe_request = ''b'', qe_priority = 1, qe_sequence = 0\<rparr>, \<lparr>qe_request = ''a'', qe_priority = 0, qe_sequence = 1\<rparr>]"

theorem select_next_is_minimum_witness:
  "\<exists>e. selectNextQueueEntry example_queue = Some (e, remove1 e example_queue) \<and> qe_request e = ''a''"
proof -
  have "example_queue \<noteq> []" "distinct (map qe_sequence example_queue)" by code_simp+
  from select_next_is_minimum [OF this] obtain e where "selectNextQueueEntry example_queue = Some (e, remove1 e example_queue)"
    by blast
  moreover have "map_option (\<lambda>p. qe_request (fst p)) (selectNextQueueEntry example_queue) = Some ''a''" by code_simp
  ultimately show ?thesis by simp
qed

end
