(* ===== verification/Rpc_Client.thy ===== *)
theory Rpc_Client
  imports Rpc_Queue
begin

text \<open>
  The client side of \<open>lib/solana/rpc-rate-limit.ts\<close>: recognising a JSON-RPC request, the bounded retry
  loop, the one-second cache of completed reads and the sharing of identical requests in flight.
  \<open>JSON.parse\<close> and \<open>JSON.stringify\<close> are the arguments \<open>json_parse\<close> (\<open>None\<close> where it throws) and
  \<open>json_stringify\<close>.
\<close>

section \<open>Requests\<close>

definition RECENTLY_CACHEABLE_RPC_METHODS :: "string list" where
  "RECENTLY_CACHEABLE_RPC_METHODS =
     [''getAccountInfo'', ''getBalance'', ''getBlockHeight'', ''getLatestBlockhash'', ''getMultipleAccounts'',
      ''getProgramAccounts'', ''getProgramAccountsV2'', ''getTokenAccountsByOwner'']"

definition RETRYABLE_RPC_METHODS :: "string list" where
  "RETRYABLE_RPC_METHODS = RECENTLY_CACHEABLE_RPC_METHODS"

definition TRANSACTION_CRITICAL_RPC_METHODS :: "string list" where
  "TRANSACTION_CRITICAL_RPC_METHODS =
     [''getBlockHeight'', ''getLatestBlockhash'', ''getSignatureStatuses'', ''sendTransaction'', ''simulateTransaction'']"

definition BACKGROUND_RPC_METHODS :: "string list" where
  "BACKGROUND_RPC_METHODS = [''getSignaturesForAddress'']"

record rpc_request_key =
  rk_cacheKey :: string
  rk_hasRequestId :: bool
  rk_method :: string
  rk_requestId :: json

text \<open>\<open>String.prototype.toUpperCase\<close> on the letters of HTTP methods.\<close>

definition ascii_upper :: "string \<Rightarrow> string" where
  "ascii_upper = map (\<lambda>c. if 97 \<le> (of_char c :: nat) \<and> (of_char c :: nat) \<le> 122 then char_of (of_char c - 32 :: nat) else c)"

definition ascii_lower :: "string \<Rightarrow> string" where
  "ascii_lower = map (\<lambda>c. if 65 \<le> (of_char c :: nat) \<and> (of_char c :: nat) \<le> 90 then char_of (of_char c + 32 :: nat) else c)"

text \<open>
  The three shapes of a fetch input: a string, a \<open>URL\<close> and a \<open>Request\<close> with its own method.  The options
  carry an optional method and an optional body that is a string.
\<close>

datatype fetch_input = Url_text string | Url_object string | Request_object string string | Other_input

record fetch_init =
  fi_method :: "string option"
  fi_body :: "string option"

definition getInputUrl :: "fetch_input \<Rightarrow> string option" where
  "getInputUrl input =
     (case input of
        Url_text url \<Rightarrow> Some url
      | Url_object url \<Rightarrow> Some url
      | Request_object url _ \<Rightarrow> Some url
      | Other_input \<Rightarrow> None)"

definition getInputMethod :: "fetch_input \<Rightarrow> fetch_init \<Rightarrow> string" where
  "getInputMethod input init =
     (if truthy (fi_method init) then the (fi_method init)
      else case input of Request_object _ method \<Rightarrow> method | _ \<Rightarrow> ''GET'')"

definition parseRpcRequestKey ::
    "(string \<Rightarrow> json option) \<Rightarrow> (json \<Rightarrow> string) \<Rightarrow> fetch_input \<Rightarrow> fetch_init \<Rightarrow> rpc_request_key option" where
  "parseRpcRequestKey json_parse json_stringify input init =
     (if ascii_upper (getInputMethod input init) \<noteq> ''POST'' then None
      else case (getInputUrl input, fi_body init) of
        (Some url, Some body) \<Rightarrow>
          if url = [] then None
          else (case json_parse body of
                  Some (JObject kvs) \<Rightarrow>
                    (case jm_get kvs ''method'' of
                       Some (JString method) \<Rightarrow>
                         let params = (case jm_get kvs ''params'' of Some v \<Rightarrow> v | None \<Rightarrow> JNull) in
                         Some \<lparr>rk_cacheKey = url @ [CHR 0x0A] @ method @ [CHR 0x0A] @ json_stringify params,
                               rk_hasRequestId = jm_has kvs ''id'', rk_method = method,
                               rk_requestId = (case jm_get kvs ''id'' of Some v \<Rightarrow> v | None \<Rightarrow> JNull)\<rparr>
                     | _ \<Rightarrow> None)
                | _ \<Rightarrow> None)
      | _ \<Rightarrow> None)"

definition getRpcPriority :: "rpc_request_key option \<Rightarrow> nat" where
  "getRpcPriority requestKey =
     (case requestKey of
        None \<Rightarrow> 1
      | Some k \<Rightarrow>
          if rk_method k \<in> set TRANSACTION_CRITICAL_RPC_METHODS then 0
          else if rk_method k \<in> set BACKGROUND_RPC_METHODS then 2 else 1)"

text \<open>\<open>Number.parseInt(text, 10)\<close>; \<open>None\<close> is \<open>NaN\<close>.\<close>

definition js_parseInt :: "string \<Rightarrow> int option" where
  "js_parseInt text =
     (let s = dropWhile js_space text;
          (sign, digits) = (case s of c # r \<Rightarrow> if c = CHR ''-'' then (-1, r) else if c = CHR ''+'' then (1, r) else (1, s)
                            | [] \<Rightarrow> (1, []));
          ds = takeWhile digit_char digits in
      if ds = [] then None else Some (sign * int (parse_dec ds)))"

definition getFrontendSolanaRpcMaxRequestsPerWindow :: "string option \<Rightarrow> string option \<Rightarrow> nat" where
  "getFrontendSolanaRpcMaxRequestsPerWindow rawMaxRequests rawInterval =
     (let positive = (\<lambda>raw. if truthy raw then (case js_parseInt (the raw) of
                                Some parsed \<Rightarrow> if parsed > 0 then Some parsed else None
                              | None \<Rightarrow> None) else None) in
      case positive rawMaxRequests of
        Some parsed \<Rightarrow> nat parsed
      | None \<Rightarrow>
          (case positive rawInterval of
             Some parsed \<Rightarrow> nat (max 1 (FRONTEND_SOLANA_RPC_WINDOW_MS div parsed))
           | None \<Rightarrow> 5))"

section \<open>Retries\<close>

definition FRONTEND_SOLANA_RPC_MAX_READ_ATTEMPTS :: nat where "FRONTEND_SOLANA_RPC_MAX_READ_ATTEMPTS = 3"

definition isRetryableRpcResponse :: "'r rpc_response_scheme \<Rightarrow> bool" where
  "isRetryableRpcResponse response \<longleftrightarrow> rr_status response \<in> {429, 500, 502, 503, 504}"

definition getRetryDelayMs ::
    "(string \<Rightarrow> js_number) \<Rightarrow> (string \<Rightarrow> int option) \<Rightarrow> int \<Rightarrow> rat \<Rightarrow> rpc_response option \<Rightarrow> nat \<Rightarrow> int" where
  "getRetryDelayMs to_number date_parse now random response attempt =
     (case getRetryAfterMs to_number date_parse now response of
        Some ms \<Rightarrow> ms
      | None \<Rightarrow> getBackoffDelayMs random attempt)"

datatype rpc_error = Rate_limit_error string | Fetch_type_error | Fetch_error | Loop_exhausted

text \<open>
  The loop of \<open>runRpcFetch\<close> from an attempt on: \<open>outcome n\<close> is how the queued fetch of attempt \<open>n\<close>
  settles.  The result carries the number of fetches made and the attempts followed by a local delay.
\<close>

function fetch_loop ::
    "string option \<Rightarrow> (nat \<Rightarrow> 'r rpc_response_scheme rpc_outcome) \<Rightarrow> nat \<Rightarrow>
     (rpc_error + 'r rpc_response_scheme) \<times> nat \<times> nat list" where
  "fetch_loop retryableMethod outcome attempt =
     (if attempt < FRONTEND_SOLANA_RPC_MAX_READ_ATTEMPTS then
        (let final = (attempt = FRONTEND_SOLANA_RPC_MAX_READ_ATTEMPTS - 1);
             again = (\<lambda>waits. case fetch_loop retryableMethod outcome (attempt + 1) of
                                (result, n, ws) \<Rightarrow> (result, n, waits @ ws)) in
         case outcome attempt of
           Response response \<Rightarrow>
             if \<not> (retryableMethod \<noteq> None \<and> isRetryableRpcResponse response) then (Inr response, attempt + 1, [])
             else if final then
               (if rr_status response = 429 then Inl (Rate_limit_error (the retryableMethod)) else Inr response,
                attempt + 1, [])
             else again (if rr_status response \<noteq> 429 then [attempt] else [])
         | Type_error \<Rightarrow>
             if retryableMethod = None then (Inl Fetch_type_error, attempt + 1, [])
             else if final then (Inl (Rate_limit_error (the retryableMethod)), attempt + 1, [])
             else again []
         | Other_error \<Rightarrow> (Inl Fetch_error, attempt + 1, []))
      else (Inl Loop_exhausted, attempt, []))"
  by pat_completeness auto
termination
  by (relation "measure (\<lambda>(method, outcome, attempt). FRONTEND_SOLANA_RPC_MAX_READ_ATTEMPTS - attempt)") auto

declare fetch_loop.simps [simp del]

definition runRpcFetch ::
    "rpc_request_key option \<Rightarrow> (nat \<Rightarrow> 'r rpc_response_scheme rpc_outcome) \<Rightarrow>
     (rpc_error + 'r rpc_response_scheme) \<times> nat \<times> nat list" where
  "runRpcFetch requestKey outcome =
     fetch_loop
       (case requestKey of
          Some k \<Rightarrow> if rk_method k \<in> set RETRYABLE_RPC_METHODS then Some (rk_method k) else None
        | None \<Rightarrow> None) outcome 0"

section \<open>Snapshots and the cache\<close>

record http_response = rpc_response +
  hr_bodyText :: string
  hr_headers :: "(string \<times> string) list"
  hr_ok :: bool
  hr_statusText :: string

record response_snapshot =
  sn_bodyText :: string
  sn_headers :: "(string \<times> string) list"
  sn_ok :: bool
  sn_status :: int
  sn_statusText :: string

definition snapshotResponse :: "http_response \<Rightarrow> response_snapshot" where
  "snapshotResponse response =
     \<lparr>sn_bodyText = hr_bodyText response,
      sn_headers = filter (\<lambda>(name, _). ascii_lower name \<notin> {''content-encoding'', ''content-length'', ''transfer-encoding''})
        (hr_headers response),
      sn_ok = hr_ok response, sn_status = rr_status response, sn_statusText = hr_statusText response\<rparr>"

definition rewriteRpcResponseId ::
    "(string \<Rightarrow> json option) \<Rightarrow> (json \<Rightarrow> string) \<Rightarrow> string \<Rightarrow> rpc_request_key \<Rightarrow> string" where
  "rewriteRpcResponseId json_parse json_stringify bodyText requestKey =
     (if \<not> rk_hasRequestId requestKey then bodyText
      else case json_parse bodyText of
        Some (JObject kvs) \<Rightarrow>
          if \<not> jm_has kvs ''id'' then bodyText
          else json_stringify (JObject (jm_set ''id'' (rk_requestId requestKey) kvs))
      | _ \<Rightarrow> bodyText)"

definition createResponseFromSnapshot ::
    "(string \<Rightarrow> json option) \<Rightarrow> (json \<Rightarrow> string) \<Rightarrow> response_snapshot \<Rightarrow> rpc_request_key \<Rightarrow> response_snapshot" where
  "createResponseFromSnapshot json_parse json_stringify snapshot requestKey =
     snapshot\<lparr>sn_bodyText := rewriteRpcResponseId json_parse json_stringify (sn_bodyText snapshot) requestKey\<rparr>"

definition isJsonRpcSuccess :: "(string \<Rightarrow> json option) \<Rightarrow> response_snapshot \<Rightarrow> bool" where
  "isJsonRpcSuccess json_parse snapshot \<longleftrightarrow>
     sn_ok snapshot \<and>
     (case json_parse (sn_bodyText snapshot) of Some (JObject kvs) \<Rightarrow> \<not> jm_has kvs ''error'' | _ \<Rightarrow> False)"

definition COMPLETED_RESULT_TTL_MS :: int where "COMPLETED_RESULT_TTL_MS = 1000"

definition COMPLETED_RESULT_MAX_ENTRIES :: nat where "COMPLETED_RESULT_MAX_ENTRIES = 256"

type_synonym recent_responses = "(string, int \<times> response_snapshot) jsmap"

definition getRecentSnapshot :: "int \<Rightarrow> string \<Rightarrow> recent_responses \<Rightarrow> response_snapshot option \<times> recent_responses" where
  "getRecentSnapshot now cacheKey recent =
     (case jm_get recent cacheKey of
        None \<Rightarrow> (None, recent)
      | Some (expiresAt, snapshot) \<Rightarrow>
          if expiresAt \<le> now then (None, jm_delete cacheKey recent) else (Some snapshot, recent))"

function evict_oldest :: "recent_responses \<Rightarrow> recent_responses" where
  "evict_oldest recent =
     (if length recent \<ge> COMPLETED_RESULT_MAX_ENTRIES then
        (case recent of
           [] \<Rightarrow> recent
         | (oldestKey, _) # _ \<Rightarrow> if oldestKey = [] then recent else evict_oldest (jm_delete oldestKey recent))
      else recent)"
  by pat_completeness auto
termination
  by (relation "measure length") (auto simp: le_imp_less_Suc length_delete_le)

declare evict_oldest.simps [simp del]

definition setRecentSnapshot :: "int \<Rightarrow> string \<Rightarrow> response_snapshot \<Rightarrow> recent_responses \<Rightarrow> recent_responses" where
  "setRecentSnapshot now cacheKey snapshot recent =
     jm_set cacheKey (now + COMPLETED_RESULT_TTL_MS, snapshot)
       (evict_oldest (filter (\<lambda>(_, expiresAt, _). \<not> expiresAt \<le> now) recent))"

section \<open>The client\<close>

text \<open>
  The function \<open>getFrontendSolanaRpcFetch\<close> returns, cut at its awaits: a request is served from the cache,
  joins the request in flight for its key, or starts one; the started request is completed and then
  cleaned up by its \<open>finally\<close> callback.  Requests are numbered.
\<close>

record rpc_client =
  cl_recent :: recent_responses
  cl_inflight :: "(string, nat) jsmap"
  cl_next :: nat

definition new_client :: rpc_client where
  "new_client = \<lparr>cl_recent = [], cl_inflight = [], cl_next = 0\<rparr>"

datatype client_answer = Served response_snapshot | Joined nat | Started nat

definition client_request :: "int \<Rightarrow> rpc_request_key \<Rightarrow> rpc_client \<Rightarrow> client_answer \<times> rpc_client" where
  "client_request now requestKey client =
     (let (recentSnapshot, recent) =
            (if rk_method requestKey \<in> set RECENTLY_CACHEABLE_RPC_METHODS
             then getRecentSnapshot now (rk_cacheKey requestKey) (cl_recent client) else (None, cl_recent client));
          client1 = client\<lparr>cl_recent := recent\<rparr> in
      case recentSnapshot of
        Some snapshot \<Rightarrow> (Served snapshot, client1)
      | None \<Rightarrow>
          (case jm_get (cl_inflight client1) (rk_cacheKey requestKey) of
             Some i \<Rightarrow> (Joined i, client1)
           | None \<Rightarrow>
               (Started (cl_next client1),
                client1\<lparr>cl_inflight := jm_set (rk_cacheKey requestKey) (cl_next client1) (cl_inflight client1),
                        cl_next := cl_next client1 + 1\<rparr>)))"

definition client_fetched ::
    "(string \<Rightarrow> json option) \<Rightarrow> int \<Rightarrow> rpc_request_key \<Rightarrow> rpc_error + http_response \<Rightarrow> rpc_client \<Rightarrow> rpc_client" where
  "client_fetched json_parse now requestKey result client =
     (case result of
        Inl _ \<Rightarrow> client
      | Inr response \<Rightarrow>
          let snapshot = snapshotResponse response in
          if rk_method requestKey \<in> set RECENTLY_CACHEABLE_RPC_METHODS \<and> isJsonRpcSuccess json_parse snapshot
          then client\<lparr>cl_recent := setRecentSnapshot now (rk_cacheKey requestKey) snapshot (cl_recent client)\<rparr>
          else client)"

definition client_cleanup :: "rpc_request_key \<Rightarrow> rpc_client \<Rightarrow> rpc_client" where
  "client_cleanup requestKey client = client\<lparr>cl_inflight := jm_delete (rk_cacheKey requestKey) (cl_inflight client)\<rparr>"

section \<open>Lemmas\<close>

lemma parsed_key_nonempty: "parseRpcRequestKey p f input init = Some k \<Longrightarrow> rk_cacheKey k \<noteq> []"
  by (auto simp: parseRpcRequestKey_def Let_def split: if_splits option.splits json.splits)

definition transient :: "string option \<Rightarrow> 'r rpc_response_scheme rpc_outcome \<Rightarrow> bool" where
  "transient retryableMethod outcome \<longleftrightarrow>
     retryableMethod \<noteq> None \<and>
     (case outcome of Response r \<Rightarrow> isRetryableRpcResponse r | Type_error \<Rightarrow> True | Other_error \<Rightarrow> False)"

text \<open>What the caller gets when the loop stops at an outcome.\<close>

definition verdict :: "string option \<Rightarrow> 'r rpc_response_scheme rpc_outcome \<Rightarrow> rpc_error + 'r rpc_response_scheme" where
  "verdict retryableMethod outcome =
     (case outcome of
        Response r \<Rightarrow>
          if retryableMethod \<noteq> None \<and> rr_status r = 429 then Inl (Rate_limit_error (the retryableMethod)) else Inr r
      | Type_error \<Rightarrow> (case retryableMethod of None \<Rightarrow> Inl Fetch_type_error | Some m \<Rightarrow> Inl (Rate_limit_error m))
      | Other_error \<Rightarrow> Inl Fetch_error)"

text \<open>One round of the loop: a transient outcome before the last attempt leads to the next one.\<close>

lemma fetch_loop_step:
  assumes "attempt < 3"
  shows "fetch_loop m outcome attempt =
    (if transient m (outcome attempt) \<and> attempt < 2 then
       (case fetch_loop m outcome (attempt + 1) of
          (result, n, ws) \<Rightarrow>
            (result, n, (case outcome attempt of Response r \<Rightarrow> if rr_status r \<noteq> 429 then [attempt] else [] | _ \<Rightarrow> []) @ ws))
     else (verdict m (outcome attempt), attempt + 1, []))"
proof -
  have last: "attempt = 3 - Suc 0 \<longleftrightarrow> \<not> attempt < 2" using assms by auto
  show ?thesis
    using assms
    by (subst fetch_loop.simps)
      (auto simp: FRONTEND_SOLANA_RPC_MAX_READ_ATTEMPTS_def transient_def verdict_def Let_def last
        isRetryableRpcResponse_def split: rpc_outcome.splits option.splits)
qed

lemma evict_oldest_spec:
  assumes "\<forall>(k, v) \<in> set recent. k \<noteq> []"
  shows "set (evict_oldest recent) \<subseteq> set recent \<and> (jm_wf recent \<longrightarrow> jm_wf (evict_oldest recent)) \<and>
    length (evict_oldest recent) < 256"
  using assms
proof (induction recent rule: evict_oldest.induct)
  case (1 recent)
  show ?case
  proof (cases "length recent \<ge> COMPLETED_RESULT_MAX_ENTRIES")
    case True
    then obtain k v rest where r: "recent = (k, v) # rest"
      by (cases recent) (auto simp: COMPLETED_RESULT_MAX_ENTRIES_def)
    with "1.prems" have k: "k \<noteq> []" by simp
    have sub: "set (jm_delete k recent) \<subseteq> set recent" by (rule jm_delete_subset)
    with "1.prems" have "\<forall>(k, v) \<in> set (jm_delete k recent). k \<noteq> []" by blast
    note IH = "1.IH" [OF True r refl k this]
    have "evict_oldest recent = evict_oldest (jm_delete k recent)"
      using True k by (subst evict_oldest.simps) (simp add: r)
    with IH sub show ?thesis by auto
  next
    case False
    then have "evict_oldest recent = recent" by (subst evict_oldest.simps) simp
    with False show ?thesis by (simp add: COMPLETED_RESULT_MAX_ENTRIES_def)
  qed
qed

text \<open>
  \<open>client_history\<close>: requests, completed fetches and clean-ups in any order, with the completed fetches
  recorded by key, time and snapshot.
\<close>

inductive client_history ::
    "(string \<Rightarrow> json option) \<Rightarrow> rpc_client \<Rightarrow> (string \<times> int \<times> response_snapshot) list \<Rightarrow> int \<Rightarrow> bool"
  for json_parse :: "string \<Rightarrow> json option" where
  client_new: "client_history json_parse new_client [] t"
| client_asks:
    "client_history json_parse client fetched t \<Longrightarrow> t \<le> now \<Longrightarrow> client_request now k client = (answer, client') \<Longrightarrow>
     client_history json_parse client' fetched now"
| client_fetches:
    "client_history json_parse client fetched t \<Longrightarrow> t \<le> now \<Longrightarrow> rk_cacheKey k \<noteq> [] \<Longrightarrow>
     client_history json_parse (client_fetched json_parse now k result client)
       (fetched @ (case result of Inl _ \<Rightarrow> [] | Inr r \<Rightarrow> [(rk_cacheKey k, now, snapshotResponse r)])) now"
| client_cleans:
    "client_history json_parse client fetched t \<Longrightarrow> client_history json_parse (client_cleanup k client) fetched t"

definition recent_ok :: "(string \<Rightarrow> json option) \<Rightarrow> (string \<times> int \<times> response_snapshot) list \<Rightarrow> int \<Rightarrow> recent_responses \<Rightarrow> bool" where
  "recent_ok json_parse fetched t recent \<longleftrightarrow>
     jm_wf recent \<and> length recent \<le> 256 \<and>
     (\<forall>(k, e, sn) \<in> set recent. k \<noteq> [] \<and> (k, e - COMPLETED_RESULT_TTL_MS, sn) \<in> set fetched \<and>
        e - COMPLETED_RESULT_TTL_MS \<le> t \<and> isJsonRpcSuccess json_parse sn)"

lemma recent_ok_later:
  "recent_ok p fetched t recent \<Longrightarrow> t \<le> now \<Longrightarrow> set fetched \<subseteq> set fetched' \<Longrightarrow> recent_ok p fetched' now recent"
  unfolding recent_ok_def by (auto split: prod.splits; fastforce)

lemma recent_ok_delete: "recent_ok p fetched t recent \<Longrightarrow> recent_ok p fetched t (jm_delete k recent)"
  unfolding recent_ok_def using jm_delete_subset [of k recent] length_delete_le [of k recent] by auto

lemma recent_ok_set:
  assumes "recent_ok p fetched now recent" "k \<noteq> []" "isJsonRpcSuccess p sn"
  shows "recent_ok p (fetched @ [(k, now, sn)]) now (setRecentSnapshot now k sn recent)"
proof -
  let ?live = "filter (\<lambda>(_, expiresAt, _). \<not> expiresAt \<le> now) recent"
  have "\<forall>(k, v) \<in> set ?live. k \<noteq> []" using assms(1) by (auto simp: recent_ok_def)
  note ev = evict_oldest_spec [OF this]
  have wf: "jm_wf ?live" using assms(1) by (simp add: recent_ok_def jm_wf_def distinct_map_filter)
  have len: "length (jm_set k v m) \<le> Suc (length m)" for v and m :: recent_responses by (induction m) auto
  have "set (setRecentSnapshot now k sn recent) \<subseteq> insert (k, now + COMPLETED_RESULT_TTL_MS, sn) (set recent)"
    unfolding setRecentSnapshot_def using ev
    by (auto dest!: jm_set_cases)
  moreover have "jm_wf (setRecentSnapshot now k sn recent)" using ev wf by (simp add: setRecentSnapshot_def)
  moreover have "length (setRecentSnapshot now k sn recent) \<le> 256"
    unfolding setRecentSnapshot_def using ev len [of _ "evict_oldest ?live"] by (meson Suc_leI le_trans)
  ultimately show ?thesis using assms unfolding recent_ok_def by fastforce
qed

lemma recent_ok_get:
  "recent_ok p fetched now recent \<Longrightarrow> recent_ok p fetched now (snd (getRecentSnapshot now k recent))"
  by (auto simp: getRecentSnapshot_def recent_ok_delete split: option.splits)

lemma client_request_recent:
  "cl_recent (snd (client_request now k client)) =
     (if rk_method k \<in> set RECENTLY_CACHEABLE_RPC_METHODS
      then snd (getRecentSnapshot now (rk_cacheKey k) (cl_recent client)) else cl_recent client)"
  by (auto simp: client_request_def Let_def split: prod.splits option.splits)

lemma history_recent_ok: "client_history p client fetched t \<Longrightarrow> recent_ok p fetched t (cl_recent client)"
proof (induction rule: client_history.induct)
  case (client_new t)
  show ?case by (simp add: recent_ok_def new_client_def)
next
  case (client_asks client fetched t now k answer client')
  then have "recent_ok p fetched now (cl_recent client)" by (auto intro: recent_ok_later)
  with client_request_recent [of now k client] client_asks.hyps(3) show ?case by (simp add: recent_ok_get split: if_splits)
next
  case (client_fetches client fetched t now k result)
  then have now: "recent_ok p fetched now (cl_recent client)" by (auto intro: recent_ok_later)
  show ?case
  proof (cases result)
    case (Inl e)
    with now show ?thesis by (simp add: client_fetched_def)
  next
    case (Inr r)
    have "recent_ok p (fetched @ [(rk_cacheKey k, now, snapshotResponse r)]) now (cl_recent client)"
      using now by (rule recent_ok_later) auto
    then show ?thesis
      using recent_ok_set [OF now client_fetches.hyps(3), of "snapshotResponse r"] Inr
      by (simp add: client_fetched_def Let_def)
  qed
next
  case (client_cleans client fetched t k)
  then show ?case by (simp add: client_cleanup_def)
qed

lemma max_requests_positive: "0 < getFrontendSolanaRpcMaxRequestsPerWindow a b"
  by (auto simp: getFrontendSolanaRpcMaxRequestsPerWindow_def Let_def split: option.splits if_splits)

section \<open>Properties\<close>

text \<open>
  C22.  The rate limit holds: whatever the environment configures, and over any history with requests,
  responses, failures and timers in any order, no interval of one second contains more dispatches
  than the configured number, the recovery probes included.
\<close>

theorem rpc_window_bound:
  assumes "rpc_history (getFrontendSolanaRpcMaxRequestsPerWindow rawMax rawInterval) s flying owed issued t"
  shows "length (in_window u (map dispatch_time issued)) \<le> getFrontendSolanaRpcMaxRequestsPerWindow rawMax rawInterval"
  by (rule window_bound [OF assms max_requests_positive])

theorem rpc_window_bound_witness:
  "getFrontendSolanaRpcMaxRequestsPerWindow (Some ''1'') None = 1 \<and>
   length (in_window 10 (map dispatch_time (snd (example_endpoint 2)))) \<le> 1"
proof -
  have m: "getFrontendSolanaRpcMaxRequestsPerWindow (Some ''1'') None = 1" by code_simp
  with rpc_window_bound [of "Some ''1''" None, unfolded m, OF example_rpc_history, of 10 2] show ?thesis by simp
qed

text \<open>
  C26.  The retry loop is exact and bounded: it makes between one and three fetches, all but the last
  of them ended transiently, it stops before the third only at an outcome that is not transient, and
  the caller gets the verdict on the last outcome, never the internal exhaustion error.  A method that
  is not a retryable read, such as sending a transaction, is fetched exactly once.
\<close>

theorem rpc_retry_exact:
  assumes "runRpcFetch requestKey outcome = (result, n, waits)"
    and "m = (case requestKey of
       Some k \<Rightarrow> if rk_method k \<in> set RETRYABLE_RPC_METHODS then Some (rk_method k) else None | None \<Rightarrow> None)"
  shows "1 \<le> n \<and> n \<le> 3 \<and> (\<forall>i < n - 1. transient m (outcome i)) \<and> (n < 3 \<longrightarrow> \<not> transient m (outcome (n - 1))) \<and>
    result = verdict m (outcome (n - 1)) \<and> (m = None \<longrightarrow> n = 1)"
proof -
  have run: "fetch_loop m outcome 0 = (result, n, waits)" using assms by (simp add: runRpcFetch_def)
  have loop: "fetch_loop m outcome 0 = (result, n, waits) \<Longrightarrow>
     (if transient m (outcome 0) then if transient m (outcome 1) then n = 3 else n = 2 else n = 1) \<and>
     result = verdict m (outcome (n - 1))"
    using fetch_loop_step [of 0 m outcome] fetch_loop_step [of 1 m outcome] fetch_loop_step [of 2 m outcome]
    by (auto simp: numeral_2_eq_2 numeral_3_eq_3 split: if_splits prod.splits)
  have "transient m x \<Longrightarrow> m \<noteq> None" for x :: "'a rpc_response_scheme rpc_outcome" by (simp add: transient_def)
  with loop [OF run] show ?thesis by (auto simp: less_Suc_eq numeral_2_eq_2 numeral_3_eq_3 split: if_splits)
qed

definition example_key :: "string \<Rightarrow> rpc_request_key" where
  "example_key method = \<lparr>rk_cacheKey = ''u'' @ method, rk_hasRequestId = True, rk_method = method, rk_requestId = JNumber (Finite 7)\<rparr>"

definition example_outcome :: "nat \<Rightarrow> rpc_response rpc_outcome" where
  "example_outcome i = (if i = 0 then Type_error else Response \<lparr>rr_status = (if i = 1 then 503 else 200), rr_retryAfter = None\<rparr>)"

theorem rpc_retry_exact_witness:
  "runRpcFetch (Some (example_key ''getBalance'')) example_outcome = (Inr \<lparr>rr_status = 200, rr_retryAfter = None\<rparr>, 3, [1]) \<and>
   transient (Some ''getBalance'') (example_outcome 0) \<and> transient (Some ''getBalance'') (example_outcome 1)"
proof
  show run: "runRpcFetch (Some (example_key ''getBalance'')) example_outcome =
      (Inr \<lparr>rr_status = 200, rr_retryAfter = None\<rparr>, 3, [1])" by code_simp
  have "''getBalance'' \<in> set RETRYABLE_RPC_METHODS" by code_simp
  with rpc_retry_exact [OF run refl] have "\<forall>i < 2. transient (Some ''getBalance'') (example_outcome i)"
    by (simp add: example_key_def)
  then show "transient (Some ''getBalance'') (example_outcome 0) \<and> transient (Some ''getBalance'') (example_outcome 1)"
    by simp
qed

text \<open>
  C27.  The cache serves only what it may: a response served from it was fetched for the same key less
  than a second ago, was a successful JSON-RPC answer and belongs to a cacheable read; and the
  cache never holds more than 256 responses.
\<close>

theorem rpc_cache_sound:
  assumes "client_history json_parse client fetched t" and "t \<le> now"
    and "client_request now k client = (Served snapshot, client')"
  shows "\<exists>fetchedAt. (rk_cacheKey k, fetchedAt, snapshot) \<in> set fetched \<and> fetchedAt \<le> now \<and> now < fetchedAt + 1000 \<and>
    isJsonRpcSuccess json_parse snapshot \<and> rk_method k \<in> set RECENTLY_CACHEABLE_RPC_METHODS \<and>
    length (cl_recent client') \<le> 256"
proof -
  have ok: "recent_ok json_parse fetched t (cl_recent client)" by (rule history_recent_ok [OF assms(1)])
  have size: "length (cl_recent client') \<le> 256"
    using history_recent_ok [OF client_asks [OF assms]] by (simp add: recent_ok_def)
  from assms(3) obtain e where m: "rk_method k \<in> set RECENTLY_CACHEABLE_RPC_METHODS"
    and e: "jm_get (cl_recent client) (rk_cacheKey k) = Some (e, snapshot)" "now < e"
    by (auto simp: client_request_def getRecentSnapshot_def Let_def split: prod.splits option.splits if_splits)
  from map_of_SomeD [OF e(1)] ok
  have "(rk_cacheKey k, e - COMPLETED_RESULT_TTL_MS, snapshot) \<in> set fetched" "e - COMPLETED_RESULT_TTL_MS \<le> t"
    "isJsonRpcSuccess json_parse snapshot" by (auto simp: recent_ok_def)
  with m e(2) assms(2) size show ?thesis
    by (intro exI [of _ "e - COMPLETED_RESULT_TTL_MS"]) (auto simp: COMPLETED_RESULT_TTL_MS_def)
qed

definition example_response :: http_response where
  "example_response = \<lparr>rr_status = 200, rr_retryAfter = None, hr_bodyText = ''{}'', hr_headers = [], hr_ok = True, hr_statusText = ''OK''\<rparr>"

definition example_client :: rpc_client where
  "example_client = client_fetched (\<lambda>_. Some (JObject [])) 5 (example_key ''getBalance'') (Inr example_response) new_client"

theorem rpc_cache_sound_witness:
  "fst (client_request 900 (example_key ''getBalance'') example_client) = Served (snapshotResponse example_response) \<and>
   (\<exists>fetchedAt :: int. 900 < fetchedAt + 1000 \<and>
      (rk_cacheKey (example_key ''getBalance''), fetchedAt, snapshotResponse example_response) \<in>
        set [(rk_cacheKey (example_key ''getBalance''), 5, snapshotResponse example_response)])"
proof
  show served: "fst (client_request 900 (example_key ''getBalance'') example_client) = Served (snapshotResponse example_response)"
    by code_simp
  have hist: "client_history (\<lambda>_. Some (JObject [])) example_client
      [(rk_cacheKey (example_key ''getBalance''), 5, snapshotResponse example_response)] 5"
    using client_fetches [OF client_new order_refl, of "example_key ''getBalance''" _ 5 "Inr example_response"]
    unfolding example_client_def by (simp add: example_key_def)
  obtain client' where ask: "client_request 900 (example_key ''getBalance'') example_client =
      (Served (snapshotResponse example_response), client')" using served by (metis prod.collapse)
  have "(5 :: int) \<le> 900" by simp
  from rpc_cache_sound [OF hist this ask]
  show "\<exists>fetchedAt :: int. 900 < fetchedAt + 1000 \<and>
      (rk_cacheKey (example_key ''getBalance''), fetchedAt, snapshotResponse example_response) \<in>
        set [(rk_cacheKey (example_key ''getBalance''), 5, snapshotResponse example_response)]"
    by blast
qed

text \<open>
  A shared or cached response is readdressed: the body handed to a request that carries an id
  has that id, and every other member of the answer is unchanged.
\<close>

theorem response_readdressed:
  assumes "rk_hasRequestId k" and "json_parse bodyText = Some (JObject kvs)" and "jm_has kvs ''id''"
    and "json_parse (json_stringify (JObject (jm_set ''id'' (rk_requestId k) kvs))) =
      Some (JObject (jm_set ''id'' (rk_requestId k) kvs))"
  shows "\<exists>kvs'. json_parse (rewriteRpcResponseId json_parse json_stringify bodyText k) = Some (JObject kvs') \<and>
    jm_get kvs' ''id'' = Some (rk_requestId k) \<and> jm_keys kvs' = jm_keys kvs \<and>
    (\<forall>name. name \<noteq> ''id'' \<longrightarrow> jm_get kvs' name = jm_get kvs name)"
proof -
  have "jm_keys (jm_set ''id'' v kvs) = jm_keys kvs" for v
    using assms(3) by (simp add: update_keys jm_has_iff del: not_None_eq)
  with assms show ?thesis by (simp add: rewriteRpcResponseId_def jm_get_set)
qed

theorem response_readdressed_witness:
  "let parse = (\<lambda>s. Some (JObject [(''id'', JNumber (Finite (if s = ''r'' then 7 else 1)))])); stringify = (\<lambda>_. ''r'') in
   \<exists>kvs'. parse (rewriteRpcResponseId parse stringify ''b'' (example_key ''getBalance'')) = Some (JObject kvs') \<and>
     jm_get kvs' ''id'' = Some (JNumber (Finite 7))"
  using response_readdressed [where k = "example_key ''getBalance''" and bodyText = "''b''" and json_stringify = "\<lambda>_. ''r''" and
      json_parse = "\<lambda>s. Some (JObject [(''id'', JNumber (Finite (if s = ''r'' then 7 else 1)))])"]
  by (simp add: example_key_def Let_def)

end
