(* ===== verification/Earnings.thy ===== *)
theory Earnings
  imports Earnings_Index
begin

text \<open>
  The earnings calculation of \<open>earnings-calculator.server.ts\<close>: windows that integrate a rate over the
  segments between changes, the buckets of a chart, and the response with its optional checkpoint.
  Instants are milliseconds, and the ISO texts of a response are the instants they print; raw amounts
  printed as text are integers.  The time zone is the argument \<open>zone\<close>, from an instant to its local
  parts (\<open>Intl.DateTimeFormat\<close>), and \<open>label_text\<close> prints the label of a bucket.
\<close>

section \<open>Path and portfolio data\<close>

datatype path_event_type = Path_deposit | Path_reconciliation | Path_rebalance | Path_withdrawal

record path_event =
  pt_amountRaw :: int
  pt_confirmedAt :: int
  pt_liquidityMint :: string
  pt_market :: "string option"
  pt_principalAmountRaw :: int
  pt_reserve :: string
  pt_type :: path_event_type

datatype exposure_kind = Idle | Kamino

record portfolio_exposure =
  xp_amountRaw :: int
  xp_kind :: exposure_kind
  xp_liquidityMint :: string
  xp_reserve :: "string option"
  xp_sourceId :: string

record portfolio_snapshot =
  sp_exposures :: "portfolio_exposure list"
  sp_observedAt :: int
  sp_observedSlot :: int

definition SECONDS_PER_YEAR :: rat where "SECONDS_PER_YEAR = 365 * 24 * 60 * 60"

definition rawToUsd :: "int \<Rightarrow> rat" where
  "rawToUsd raw = of_int raw / 1000000"

primrec legacy_path :: "position_event list \<Rightarrow> int \<Rightarrow> path_event list" where
  "legacy_path [] balance = []"
| "legacy_path (event # events) balance =
     (let p = max 0 (balance + (if pv_type event = Deposit_event then pv_amountRaw event else - pv_amountRaw event)) in
      \<lparr>pt_amountRaw = p, pt_confirmedAt = pv_confirmedAt event, pt_liquidityMint = [], pt_market = None,
       pt_principalAmountRaw = p, pt_reserve = [],
       pt_type = (if pv_type event = Deposit_event then Path_deposit else Path_withdrawal)\<rparr> # legacy_path events p)"

definition legacyEventsToPathEvents :: "position_event list \<Rightarrow> path_event list" where
  "legacyEventsToPathEvents events = legacy_path events 0"

definition getPathStateAt :: "path_event list \<Rightarrow> int \<Rightarrow> path_event option" where
  "getPathStateAt pathEvents u =
     (let found = lastIndexAtOrBefore (map pt_confirmedAt pathEvents) u in
      if found = -1 then None else Some (pathEvents ! nat found))"

definition getPortfolioSnapshotAt :: "portfolio_snapshot list \<Rightarrow> int \<Rightarrow> portfolio_snapshot option" where
  "getPortfolioSnapshotAt snapshots u =
     (let found = lastIndexAtOrBefore (map sp_observedAt snapshots) u in
      if found = -1 then None else Some (snapshots ! nat found))"

section \<open>Windows\<close>

record window_result =
  wr_avgPrincipalUsd :: rat
  wr_earnedUsd :: rat
  wr_principalAmountRaw :: int

text \<open>\<open>sortedTimes\<close>: the bounds and the changes strictly between them, without duplicates.\<close>

definition change_times :: "int \<Rightarrow> int \<Rightarrow> int list \<Rightarrow> int list" where
  "change_times startMs endMs changes =
     sort (js_unique ([startMs, endMs] @ filter (\<lambda>t. t > startMs \<and> t < endMs) changes))"

abbreviation segments :: "int list \<Rightarrow> (int \<times> int) list" where
  "segments ts \<equiv> zip ts (tl ts)"

definition path_principal :: "path_event list \<Rightarrow> int \<Rightarrow> int" where
  "path_principal pathEvents u = (case getPathStateAt pathEvents u of Some st \<Rightarrow> pt_principalAmountRaw st | None \<Rightarrow> 0)"

definition window_segment ::
    "apy_sample list \<Rightarrow> path_event list \<Rightarrow> rat \<times> rat \<Rightarrow> int \<times> int \<Rightarrow> rat \<times> rat" where
  "window_segment apySamples pathEvents acc segment =
     (case acc of (earnedUsd, principalSeconds) \<Rightarrow> case segment of (segmentStart, segmentEnd) \<Rightarrow>
        let segmentSeconds = of_int (segmentEnd - segmentStart) / 1000;
            pathState = getPathStateAt pathEvents segmentStart;
            principalUsd = (case pathState of Some st \<Rightarrow> rawToUsd (pt_principalAmountRaw st) | None \<Rightarrow> 0);
            apy = getApyAt apySamples (map_option pt_reserve pathState) segmentStart in
        (case apy of
           Some a \<Rightarrow>
             if principalUsd > 0 \<and> segmentSeconds > 0
             then earnedUsd + (principalUsd * a * segmentSeconds) / SECONDS_PER_YEAR else earnedUsd
         | None \<Rightarrow> earnedUsd,
         principalSeconds + principalUsd * segmentSeconds))"

definition calculateWindow :: "apy_sample list \<Rightarrow> int \<Rightarrow> path_event list \<Rightarrow> int \<Rightarrow> window_result" where
  "calculateWindow apySamples endMs pathEvents startMs =
     (if endMs \<le> startMs then
        \<lparr>wr_avgPrincipalUsd = 0, wr_earnedUsd = 0, wr_principalAmountRaw = path_principal pathEvents endMs\<rparr>
      else
        let sortedTimes = change_times startMs endMs (map pt_confirmedAt pathEvents @ map as_observedAt apySamples);
            (earnedUsd, principalSeconds) = foldl (window_segment apySamples pathEvents) (0, 0) (segments sortedTimes);
            bucketSeconds = of_int (endMs - startMs) / 1000 in
        \<lparr>wr_avgPrincipalUsd = (if bucketSeconds > 0 then principalSeconds / bucketSeconds else 0),
         wr_earnedUsd = earnedUsd, wr_principalAmountRaw = path_principal pathEvents endMs\<rparr>)"

definition deriveApyBps :: "rat \<Rightarrow> rat \<Rightarrow> rat \<Rightarrow> int option" where
  "deriveApyBps avgPrincipalUsd bucketSeconds earnedUsd =
     (if avgPrincipalUsd \<le> 0 \<or> bucketSeconds \<le> 0 then None
      else Some \<lfloor>(earnedUsd / avgPrincipalUsd) * (SECONDS_PER_YEAR / bucketSeconds) * 10000 + 1 / 2\<rfloor>)"

text \<open>\<open>None\<close> is the early return of \<open>null\<close> when a rate is missing.\<close>

fun portfolio_weight ::
    "apy_sample list \<Rightarrow> int \<Rightarrow> portfolio_exposure list \<Rightarrow> rat \<times> int \<Rightarrow> (rat \<times> int) option" where
  "portfolio_weight apySamples u [] acc = Some acc"
| "portfolio_weight apySamples u (exposure # exposures) (weighted, totalRaw) =
     (if xp_amountRaw exposure \<le> 0 then portfolio_weight apySamples u exposures (weighted, totalRaw)
      else
        let total = totalRaw + xp_amountRaw exposure in
        if xp_kind exposure = Idle then portfolio_weight apySamples u exposures (weighted, total)
        else case getApyAt apySamples (xp_reserve exposure) u of
          None \<Rightarrow> None
        | Some apy \<Rightarrow> portfolio_weight apySamples u exposures (weighted + of_int (xp_amountRaw exposure) * apy, total))"

definition portfolioApyAt :: "apy_sample list \<Rightarrow> int \<Rightarrow> portfolio_snapshot option \<Rightarrow> rat option" where
  "portfolioApyAt apySamples u snapshot =
     (case snapshot of
        None \<Rightarrow> None
      | Some s \<Rightarrow>
          (case portfolio_weight apySamples u (sp_exposures s) (0, 0) of
             None \<Rightarrow> None
           | Some (weighted, totalRaw) \<Rightarrow> if totalRaw > 0 then Some (weighted / of_int totalRaw) else None))"

definition exposure_earned :: "apy_sample list \<Rightarrow> int \<Rightarrow> rat \<Rightarrow> rat \<Rightarrow> portfolio_exposure \<Rightarrow> rat" where
  "exposure_earned apySamples segmentStart segmentSeconds earnedUsd exposure =
     (if xp_kind exposure \<noteq> Kamino \<or> xp_amountRaw exposure \<le> 0 \<or> \<not> truthy (xp_reserve exposure) then earnedUsd
      else case getApyAt apySamples (xp_reserve exposure) segmentStart of
        Some apy \<Rightarrow> earnedUsd + (rawToUsd (xp_amountRaw exposure) * apy * segmentSeconds) / SECONDS_PER_YEAR
      | None \<Rightarrow> earnedUsd)"

primrec portfolio_segments ::
    "apy_sample list \<Rightarrow> position_event list \<Rightarrow> principal_clamp \<Rightarrow> portfolio_snapshot list \<Rightarrow> (int \<times> int) list \<Rightarrow>
     rat \<times> rat \<Rightarrow> history_error + (rat \<times> rat)" where
  "portfolio_segments apySamples events clamp snapshots [] acc = Inr acc"
| "portfolio_segments apySamples events clamp snapshots (segment # rest) acc =
     (case segment of (segmentStart, segmentEnd) \<Rightarrow> case acc of (earnedUsd, principalSeconds) \<Rightarrow>
        let segmentSeconds = of_int (segmentEnd - segmentStart) / 1000 in
        rbind (principalAt events segmentStart clamp) (\<lambda>principalRaw.
          let exposures = (case getPortfolioSnapshotAt snapshots segmentStart of Some s \<Rightarrow> sp_exposures s | None \<Rightarrow> []) in
          portfolio_segments apySamples events clamp snapshots rest
            (foldl (exposure_earned apySamples segmentStart segmentSeconds) earnedUsd exposures,
             principalSeconds + rawToUsd principalRaw * segmentSeconds)))"

definition calculatePortfolioWindow ::
    "apy_sample list \<Rightarrow> int \<Rightarrow> position_event list \<Rightarrow> principal_clamp \<Rightarrow> portfolio_snapshot list \<Rightarrow> int \<Rightarrow>
     history_error + window_result" where
  "calculatePortfolioWindow apySamples endMs events clamp snapshots startMs =
     (if endMs \<le> startMs then
        rbind (principalAt events endMs clamp) (\<lambda>principal.
          Inr \<lparr>wr_avgPrincipalUsd = 0, wr_earnedUsd = 0, wr_principalAmountRaw = principal\<rparr>)
      else
        let sortedTimes = change_times startMs endMs
              (map pv_confirmedAt events @ map sp_observedAt snapshots @ map as_observedAt apySamples);
            bucketSeconds = of_int (endMs - startMs) / 1000 in
        rbind (portfolio_segments apySamples events clamp snapshots (segments sortedTimes) (0, 0))
          (\<lambda>(earnedUsd, principalSeconds).
            rbind (principalAt events endMs clamp) (\<lambda>principal.
              Inr \<lparr>wr_avgPrincipalUsd = (if bucketSeconds > 0 then principalSeconds / bucketSeconds else 0),
                   wr_earnedUsd = earnedUsd, wr_principalAmountRaw = principal\<rparr>)))"

section \<open>Calendar\<close>

text \<open>
  \<open>Date.UTC\<close> and the UTC parts of a date, by the proleptic Gregorian calendar with years beginning in
  March; a month outside of 0 to 11 carries into the year, and the years 0 to 99 mean 1900 to 1999.
\<close>

record zoned_parts =
  zp_day :: int
  zp_hour :: int
  zp_minute :: int
  zp_month :: int
  zp_second :: int
  zp_year :: int

definition days_from_civil :: "int \<Rightarrow> int \<Rightarrow> int \<Rightarrow> int" where
  "days_from_civil year month day =
     (let y = (if month \<le> 2 then year - 1 else year);
          doy = (153 * (if month > 2 then month - 3 else month + 9) + 2) div 5 + day - 1 in
      y * 365 + y div 4 - y div 100 + y div 400 + doy - 719468)"

definition civil_from_days :: "int \<Rightarrow> int \<times> int \<times> int" where
  "civil_from_days days =
     (let z = days + 719468; era = z div 146097; doe = z mod 146097;
          century = min 3 (doe div 36524); doc = doe - 36524 * century;
          leap = doc div 1461; dol = doc mod 1461;
          rest = min 3 (dol div 365); doy = dol - 365 * rest;
          mp = (5 * doy + 2) div 153;
          month = (if mp < 10 then mp + 3 else mp - 9) in
      (400 * era + 100 * century + 4 * leap + rest + (if month \<le> 2 then 1 else 0), month,
       doy - (153 * mp + 2) div 5 + 1))"

definition Date_UTC :: "int \<Rightarrow> int \<Rightarrow> int \<Rightarrow> int \<Rightarrow> int \<Rightarrow> int \<Rightarrow> int" where
  "Date_UTC year month day hour minute second =
     (let y = (if 0 \<le> year \<and> year \<le> 99 then 1900 + year else year) in
      1000 * (86400 * (days_from_civil (y + month div 12) (month mod 12 + 1) 1 + day - 1)
              + 3600 * hour + 60 * minute + second))"

text \<open>The formatted parts, whose midnight may read as hour 24.\<close>

definition getZonedParts :: "(int \<Rightarrow> zoned_parts) \<Rightarrow> int \<Rightarrow> zoned_parts" where
  "getZonedParts zone date = (let parts = zone date in parts\<lparr>zp_hour := (if zp_hour parts = 24 then 0 else zp_hour parts)\<rparr>)"

definition getTimezoneOffsetMs :: "(int \<Rightarrow> zoned_parts) \<Rightarrow> int \<Rightarrow> int" where
  "getTimezoneOffsetMs zone date =
     (let parts = getZonedParts zone date in
      Date_UTC (zp_year parts) (zp_month parts - 1) (zp_day parts) (zp_hour parts) (zp_minute parts) (zp_second parts) - date)"

text \<open>A local date is \<open>(year, month, day)\<close>; every caller asks for its midnight.\<close>

definition zonedDateTimeToUtc :: "(int \<Rightarrow> zoned_parts) \<Rightarrow> int \<times> int \<times> int \<Rightarrow> int" where
  "zonedDateTimeToUtc zone parts =
     (case parts of (year, month, day) \<Rightarrow>
        let localAsUtc = Date_UTC year (month - 1) day 0 0 0;
            refine = (\<lambda>utcMs. localAsUtc - getTimezoneOffsetMs zone utcMs) in
        refine (refine (refine localAsUtc)))"

definition addLocalDays :: "zoned_parts \<Rightarrow> int \<Rightarrow> int \<times> int \<times> int" where
  "addLocalDays parts days =
     civil_from_days (Date_UTC (zp_year parts) (zp_month parts - 1) (zp_day parts + days) 0 0 0 div 86400000)"

definition addLocalMonths :: "zoned_parts \<Rightarrow> int \<Rightarrow> int \<times> int \<times> int" where
  "addLocalMonths parts months =
     (case civil_from_days (Date_UTC (zp_year parts) (zp_month parts - 1 + months) 1 0 0 0 div 86400000) of
        (year, month, _) \<Rightarrow> (year, month, 1))"

definition startOfLocalDay :: "(int \<Rightarrow> zoned_parts) \<Rightarrow> int \<Rightarrow> int" where
  "startOfLocalDay zone date =
     (let parts = getZonedParts zone date in zonedDateTimeToUtc zone (zp_year parts, zp_month parts, zp_day parts))"

definition startOfLocalMonth :: "(int \<Rightarrow> zoned_parts) \<Rightarrow> int \<Rightarrow> int" where
  "startOfLocalMonth zone date =
     (let parts = getZonedParts zone date in zonedDateTimeToUtc zone (zp_year parts, zp_month parts, 1))"

section \<open>Buckets\<close>

datatype earnings_range = Range_7D | Range_30D | Range_1Y | Range_ALL

definition EARNINGS_RANGE_IDS :: "string list" where
  "EARNINGS_RANGE_IDS = [''7D'', ''30D'', ''1Y'', ''ALL'']"

definition isEarningsRangeId :: "string \<Rightarrow> bool" where
  "isEarningsRangeId v \<longleftrightarrow> v \<in> set EARNINGS_RANGE_IDS"

record bucket =
  bk_endAt :: int
  bk_isCurrent :: bool
  bk_label :: string
  bk_startAt :: int

definition bucket_starts :: "(int \<Rightarrow> zoned_parts) \<Rightarrow> int option \<Rightarrow> int \<Rightarrow> earnings_range \<Rightarrow> int list" where
  "bucket_starts zone firstDepositAt now rangeId =
     (let todayParts = getZonedParts zone (startOfLocalDay zone now);
          currentMonthStart = startOfLocalMonth zone now;
          currentMonthParts = getZonedParts zone currentMonthStart in
      if rangeId = Range_7D \<or> rangeId = Range_30D then
        let count = (if rangeId = Range_7D then 7 else 30) in
        map (\<lambda>i. zonedDateTimeToUtc zone (addLocalDays todayParts (- int i))) (rev [0..<count])
      else
        let firstMonthStart = (case firstDepositAt of Some d \<Rightarrow> startOfLocalMonth zone d | None \<Rightarrow> currentMonthStart);
            firstParts = getZonedParts zone firstMonthStart;
            monthCount = (if rangeId = Range_1Y then 12
              else max 1 ((zp_year currentMonthParts - zp_year firstParts) * 12 + zp_month currentMonthParts - zp_month firstParts + 1));
            firstOffset = (if rangeId = Range_1Y then - (monthCount - 1) else 0);
            baseParts = (if rangeId = Range_1Y then currentMonthParts else firstParts) in
        map (\<lambda>i. zonedDateTimeToUtc zone (addLocalMonths baseParts (firstOffset + int i))) [0..<nat monthCount])"

definition bucket_from ::
    "(int \<Rightarrow> zoned_parts) \<Rightarrow> (int \<Rightarrow> earnings_range \<Rightarrow> string) \<Rightarrow> int \<Rightarrow> earnings_range \<Rightarrow> int \<Rightarrow> bucket" where
  "bucket_from zone label_text now rangeId startAt =
     (let nextStart = zonedDateTimeToUtc zone
            (if rangeId = Range_7D \<or> rangeId = Range_30D then addLocalDays (getZonedParts zone startAt) 1
             else addLocalMonths (getZonedParts zone startAt) 1) in
      \<lparr>bk_endAt = min nextStart now, bk_isCurrent = (startAt \<le> now \<and> now < nextStart),
       bk_label = label_text startAt rangeId, bk_startAt = startAt\<rparr>)"

definition createEarningsBuckets ::
    "(int \<Rightarrow> zoned_parts) \<Rightarrow> (int \<Rightarrow> earnings_range \<Rightarrow> string) \<Rightarrow> int option \<Rightarrow> int \<Rightarrow> earnings_range \<Rightarrow> bucket list" where
  "createEarningsBuckets zone label_text firstDepositAt now rangeId =
     map (bucket_from zone label_text now rangeId) (bucket_starts zone firstDepositAt now rangeId)"

section \<open>The response\<close>

record earnings_bar =
  eb_apyBps :: "int option"
  eb_avgPrincipalUsd :: rat
  eb_earnedUsd :: rat
  eb_endAt :: int
  eb_isCurrent :: bool
  eb_label :: string
  eb_principalAmountRaw :: int
  eb_principalUsd :: rat
  eb_startAt :: int

record earnings_response =
  er_bars :: "earnings_bar list"
  er_currentApyBps :: "int option"
  er_lastDepositAt :: "int option"
  er_lifetimeEarnedUsd :: rat
  er_principalAmountRaw :: int
  er_principalUsd :: rat
  er_rangeEarnedUsd :: rat
  er_sinceLastDepositEarnedUsd :: rat
  er_todayEarnedUsd :: rat

text \<open>The arguments; \<open>ea_zone\<close> and \<open>ea_label\<close> stand for the time zone.\<close>

record earnings_args =
  ea_apySamples :: "apy_sample list"
  ea_events :: "position_event list"
  ea_now :: int
  ea_pathEvents :: "path_event list option"
  ea_portfolioSnapshots :: "portfolio_snapshot list option"
  ea_principalClamp :: "principal_clamp option"
  ea_range :: earnings_range
  ea_zone :: "int \<Rightarrow> zoned_parts"
  ea_label :: "int \<Rightarrow> earnings_range \<Rightarrow> string"
  ea_checkpoint :: "(int \<times> earnings_response) option"

text \<open>The sorted inputs every window of one calculation shares.\<close>

record earnings_inputs =
  in_apySamples :: "apy_sample list"
  in_events :: "position_event list"
  in_pathEvents :: "path_event list"
  in_snapshots :: "portfolio_snapshot list"
  in_clamp :: principal_clamp

definition usePortfolio :: "earnings_inputs \<Rightarrow> bool" where
  "usePortfolio inp \<longleftrightarrow> in_snapshots inp \<noteq> []"

definition sort_inputs :: "earnings_inputs \<Rightarrow> earnings_inputs" where
  "sort_inputs inp = inp\<lparr>in_apySamples := sort_key as_observedAt (in_apySamples inp),
     in_pathEvents := sort_key pt_confirmedAt (in_pathEvents inp), in_snapshots := sort_key sp_observedAt (in_snapshots inp)\<rparr>"

definition earnings_inputs_of :: "earnings_args \<Rightarrow> history_error + earnings_inputs" where
  "earnings_inputs_of args =
     rbind (sortEarningsEvents (filter (\<lambda>event. pv_confirmedAt event \<le> ea_now args) (ea_events args))) (\<lambda>events.
       Inr (sort_inputs
         \<lparr>in_apySamples = ea_apySamples args, in_events = events,
          in_pathEvents = (case ea_pathEvents args of Some ps \<Rightarrow> ps | None \<Rightarrow> legacyEventsToPathEvents events),
          in_snapshots = (case ea_portfolioSnapshots args of Some ss \<Rightarrow> ss | None \<Rightarrow> []),
          in_clamp = (case ea_principalClamp args of Some c \<Rightarrow> c | None \<Rightarrow> Clamp_total)\<rparr>))"

definition earnings_window :: "earnings_inputs \<Rightarrow> int \<Rightarrow> int \<Rightarrow> history_error + window_result" where
  "earnings_window inp startAt endAt =
     (if usePortfolio inp
      then calculatePortfolioWindow (in_apySamples inp) endAt (in_events inp) (in_clamp inp) (in_snapshots inp) startAt
      else Inr (calculateWindow (in_apySamples inp) endAt (in_pathEvents inp) startAt))"

definition first_deposit :: "position_event list \<Rightarrow> path_event list \<Rightarrow> int option" where
  "first_deposit events pathEvents =
     (case find (\<lambda>event. pv_type event = Deposit_event) events of
        Some event \<Rightarrow> Some (pv_confirmedAt event)
      | None \<Rightarrow> map_option pt_confirmedAt (find (\<lambda>event. pt_type event = Path_deposit) pathEvents))"

definition last_deposit :: "position_event list \<Rightarrow> path_event list \<Rightarrow> int option" where
  "last_deposit events pathEvents = first_deposit (rev events) (rev pathEvents)"

text \<open>\<open>Math.max(u, resumeAt)\<close>, where no checkpoint means minus infinity, and \<open>u < resumeAt\<close>.\<close>

definition resume_from :: "(int \<times> earnings_response) option \<Rightarrow> int \<Rightarrow> int" where
  "resume_from checkpoint u = (case checkpoint of Some (resumeAt, _) \<Rightarrow> max u resumeAt | None \<Rightarrow> u)"

definition before_resume :: "(int \<times> earnings_response) option \<Rightarrow> int \<Rightarrow> bool" where
  "before_resume checkpoint u = (case checkpoint of Some (resumeAt, _) \<Rightarrow> u < resumeAt | None \<Rightarrow> False)"

definition previous_bars :: "(int \<times> earnings_response) option \<Rightarrow> (int, earnings_bar) jsmap" where
  "previous_bars checkpoint =
     (case checkpoint of
        Some (_, response) \<Rightarrow> foldl (\<lambda>bars bar. jm_set (eb_startAt bar) bar bars) [] (er_bars response)
      | None \<Rightarrow> [])"

definition computed_bar :: "bucket \<Rightarrow> window_result \<Rightarrow> earnings_bar" where
  "computed_bar b result =
     \<lparr>eb_apyBps = deriveApyBps (wr_avgPrincipalUsd result) (of_int (bk_endAt b - bk_startAt b) / 1000) (wr_earnedUsd result),
      eb_avgPrincipalUsd = wr_avgPrincipalUsd result, eb_earnedUsd = wr_earnedUsd result, eb_endAt = bk_endAt b,
      eb_isCurrent = bk_isCurrent b, eb_label = bk_label b, eb_principalAmountRaw = wr_principalAmountRaw result,
      eb_principalUsd = rawToUsd (wr_principalAmountRaw result), eb_startAt = bk_startAt b\<rparr>"

text \<open>The window of the tail after the checkpoint, joined with the previous bar of the same bucket.\<close>

definition join_previous :: "int \<Rightarrow> bucket \<Rightarrow> earnings_bar \<Rightarrow> window_result \<Rightarrow> window_result" where
  "join_previous resumeAt b previous result =
     (let bucketSeconds = of_int (bk_endAt b - bk_startAt b) / 1000;
          previousSeconds = of_int (resumeAt - bk_startAt b) / 1000;
          tailSeconds = of_int (bk_endAt b - max (bk_startAt b) resumeAt) / 1000 in
      result\<lparr>wr_avgPrincipalUsd :=
               (if bucketSeconds > 0
                then (eb_avgPrincipalUsd previous * previousSeconds + wr_avgPrincipalUsd result * tailSeconds) / bucketSeconds
                else 0),
             wr_earnedUsd := wr_earnedUsd result + eb_earnedUsd previous\<rparr>)"

definition bucket_bar ::
    "earnings_inputs \<Rightarrow> (int \<times> earnings_response) option \<Rightarrow> bucket \<Rightarrow> history_error + earnings_bar" where
  "bucket_bar inp checkpoint b =
     (let previous = jm_get (previous_bars checkpoint) (bk_startAt b);
          fresh = (\<lambda>join. rbind (earnings_window inp (resume_from checkpoint (bk_startAt b)) (bk_endAt b))
                            (\<lambda>result. Inr (computed_bar b (join result)))) in
      case (checkpoint, previous) of
        (Some (resumeAt, _), Some bar) \<Rightarrow>
          if bk_endAt b \<le> resumeAt then Inr (bar\<lparr>eb_isCurrent := bk_isCurrent b, eb_label := bk_label b\<rparr>)
          else if bk_startAt b < resumeAt then fresh (join_previous resumeAt b bar)
          else fresh (\<lambda>result. result)
      | _ \<Rightarrow> fresh (\<lambda>result. result))"

text \<open>\<open>calculateRange\<close> with the earnings of the checkpoint added when \<open>joined\<close> holds.\<close>

definition range_earned ::
    "earnings_inputs \<Rightarrow> (int \<times> earnings_response) option \<Rightarrow> int \<Rightarrow> bool \<Rightarrow> (earnings_response \<Rightarrow> rat) \<Rightarrow> int \<Rightarrow>
     history_error + rat" where
  "range_earned inp checkpoint now joined previous from =
     rbind (earnings_window inp (resume_from checkpoint from) now) (\<lambda>result.
       Inr (wr_earnedUsd result + (case checkpoint of Some (_, response) \<Rightarrow> if joined then previous response else 0 | None \<Rightarrow> 0)))"

definition current_principal :: "earnings_inputs \<Rightarrow> int \<Rightarrow> history_error + int" where
  "current_principal inp now =
     (if usePortfolio inp then principalAt (in_events inp) now (in_clamp inp) else Inr (path_principal (in_pathEvents inp) now))"

definition current_apy :: "earnings_inputs \<Rightarrow> int \<Rightarrow> rat option" where
  "current_apy inp now =
     (if usePortfolio inp then portfolioApyAt (in_apySamples inp) now (getPortfolioSnapshotAt (in_snapshots inp) now)
      else case getPathStateAt (in_pathEvents inp) now of
        Some st \<Rightarrow> getApyAt (in_apySamples inp) (Some (pt_reserve st)) now
      | None \<Rightarrow> None)"

definition calculateEarnEarnings :: "earnings_args \<Rightarrow> history_error + earnings_response" where
  "calculateEarnEarnings args =
     rbind (earnings_inputs_of args) (\<lambda>inp.
       let now = ea_now args; checkpoint = ea_checkpoint args;
           firstDepositAt = first_deposit (in_events inp) (in_pathEvents inp);
           lastDepositAt = last_deposit (in_events inp) (in_pathEvents inp);
           todayStart = startOfLocalDay (ea_zone args) now;
           buckets = createEarningsBuckets (ea_zone args) (ea_label args) firstDepositAt now (ea_range args) in
       rbind (rmap_list (bucket_bar inp checkpoint) buckets) (\<lambda>bars.
       rbind (range_earned inp checkpoint now True er_lifetimeEarnedUsd
                (case firstDepositAt of Some u \<Rightarrow> u | None \<Rightarrow> now)) (\<lambda>lifetime.
       rbind (range_earned inp checkpoint now
                (case lastDepositAt of Some u \<Rightarrow> before_resume checkpoint u | None \<Rightarrow> False)
                er_sinceLastDepositEarnedUsd (case lastDepositAt of Some u \<Rightarrow> u | None \<Rightarrow> now)) (\<lambda>sinceLastDeposit.
       rbind (range_earned inp checkpoint now (before_resume checkpoint todayStart) er_todayEarnedUsd todayStart) (\<lambda>today.
       rbind (current_principal inp now) (\<lambda>principalRaw.
         Inr \<lparr>er_bars = bars, er_currentApyBps = map_option (\<lambda>apy. \<lfloor>apy * 10000 + 1 / 2\<rfloor>) (current_apy inp now),
              er_lastDepositAt = lastDepositAt, er_lifetimeEarnedUsd = lifetime,
              er_principalAmountRaw = principalRaw, er_principalUsd = rawToUsd principalRaw,
              er_rangeEarnedUsd = foldl (\<lambda>total bar. total + eb_earnedUsd bar) 0 bars,
              er_sinceLastDepositEarnedUsd = sinceLastDeposit, er_todayEarnedUsd = today\<rparr>))))))"

section \<open>Accrual over a window\<close>

text \<open>What a rate that is sampled at the start of every segment accrues over the segments.\<close>

fun accrued :: "(int \<Rightarrow> rat) \<Rightarrow> int list \<Rightarrow> rat" where
  "accrued rate (u # v # ts) = rate u * of_int (v - u) + accrued rate (v # ts)"
| "accrued rate ts = 0"

lemma accrued_split: "accrued rate (xs @ v # ys) = accrued rate (xs @ [v]) + accrued rate (v # ys)"
  by (induction rate xs rule: accrued.induct) auto

lemma accrued_cong: "(\<And>u. u \<in> set (butlast ts) \<Longrightarrow> f u = g u) \<Longrightarrow> accrued f ts = accrued g ts"
  by (induction f ts rule: accrued.induct) auto

lemma strict_sorted_hd: "sorted_wrt (<) ts \<Longrightarrow> x \<in> set ts \<Longrightarrow> (\<And>y. y \<in> set ts \<Longrightarrow> (x :: int) \<le> y) \<Longrightarrow> hd ts = x"
  by (cases ts) (auto intro: antisym dest: less_imp_le)

lemma strict_sorted_last: "sorted_wrt (<) ts \<Longrightarrow> x \<in> set ts \<Longrightarrow> (\<And>y. y \<in> set ts \<Longrightarrow> y \<le> (x :: int)) \<Longrightarrow> last ts = x"
proof (cases ts rule: rev_cases)
  case (snoc ys y)
  assume "sorted_wrt (<) ts" "x \<in> set ts" "\<And>y. y \<in> set ts \<Longrightarrow> y \<le> x"
  with snoc have "y \<le> x" "x \<in> set ys \<Longrightarrow> x < y" "x \<in> set ys \<or> x = y" by (auto simp: sorted_wrt_append)
  with snoc show ?thesis by auto
qed simp

lemma change_times_spec:
  assumes "a < b"
  shows "sorted_wrt (<) (change_times a b changes)"
    and "set (change_times a b changes) = {a, b} \<union> {t \<in> set changes. a < t \<and> t < b}"
    and "hd (change_times a b changes) = a" and "last (change_times a b changes) = b"
proof -
  let ?ts = "change_times a b changes"
  show sorted: "sorted_wrt (<) ?ts"
    unfolding change_times_def strict_sorted_iff by (simp only: sorted_sort distinct_sort distinct_js_unique simp_thms)
  show set: "set ?ts = {a, b} \<union> {t \<in> set changes. a < t \<and> t < b}"
    unfolding change_times_def set_sort set_js_unique by auto
  show "hd ?ts = a" by (rule strict_sorted_hd [OF sorted]) (use assms in \<open>auto simp: set\<close>)
  show "last ?ts = b" by (rule strict_sorted_last [OF sorted]) (use assms in \<open>auto simp: set\<close>)
qed

text \<open>A window with one more point in it is the two windows it divides.\<close>

lemma change_times_split:
  assumes "a < b" "b < c"
  shows "(if b \<in> set (change_times a c changes) then change_times a c changes else insort b (change_times a c changes)) =
    change_times a b changes @ tl (change_times b c changes)" (is "?l = ?p @ tl ?q")
proof -
  note ac = change_times_spec [OF less_trans [OF assms]] and ab = change_times_spec [OF assms(1)]
    and bc = change_times_spec [OF assms(2)]
  have q: "?q = b # tl ?q" using bc(2,3) by (metis Un_insert_left hd_Cons_tl insertI1 list.set(1) ex_in_conv)
  have tl: "set (tl ?q) = insert c {t \<in> set changes. b < t \<and> t < c}" "sorted_wrt (<) (tl ?q)" "\<forall>t \<in> set (tl ?q). b < t"
  proof -
    have "sorted_wrt (<) (b # tl ?q)" using bc(1) q by metis
    then show rest: "sorted_wrt (<) (tl ?q)" "\<forall>t \<in> set (tl ?q). b < t" by simp_all
    have "set ?q = insert b (set (tl ?q))" by (subst q) simp
    with rest(2) have "set (tl ?q) = set ?q - {b}" by auto
    then show "set (tl ?q) = insert c {t \<in> set changes. b < t \<and> t < c}" unfolding bc(2) using assms(2) by auto
  qed
  have "sorted_wrt (<) (?p @ tl ?q)"
    using ab(1,2) tl(2,3) assms(1) by (fastforce simp: sorted_wrt_append)
  moreover have "sorted_wrt (<) ?l"
    using ac(1) by (auto simp: strict_sorted_iff sorted_insort distinct_insort)
  moreover have "set ?l = set (?p @ tl ?q)"
    using assms by (auto simp: ac(2) ab(2) tl(1) set_insort_key)
  ultimately show ?thesis by (intro strict_sorted_equal) simp_all
qed

locale accrual =
  fixes rate :: "int \<Rightarrow> rat" and changes :: "int list"
  assumes rate_constant: "u \<le> v \<Longrightarrow> \<forall>t \<in> set changes. t \<le> u \<or> v < t \<Longrightarrow> rate v = rate u"
begin

text \<open>A point that is no change adds nothing.\<close>

lemma accrued_insort:
  assumes "sorted_wrt (<) ts" "ts \<noteq> []" "hd ts < v" "v < last ts" "v \<notin> set ts"
    and "\<And>t. t \<in> set changes \<Longrightarrow> hd ts < t \<Longrightarrow> t < last ts \<Longrightarrow> t \<in> set ts"
  shows "accrued rate (insort v ts) = accrued rate ts"
  using assms
proof (induction ts rule: induct_list012)
  case (3 x y ts)
  show ?case
  proof (cases "v < y")
    case True
    have "rate v = rate x"
    proof (rule rate_constant)
      show "\<forall>t \<in> set changes. t \<le> x \<or> v < t"
      proof (rule ccontr)
        assume "\<not> ?thesis"
        then obtain t where t: "t \<in> set changes" "x < t" "t \<le> v" by (auto simp: not_le)
        then have "t \<in> set (x # y # ts)" using 3(8) [OF t(1)] True 3(6) by auto
        with t True 3(3) show False by auto
      qed
    qed (use 3(5) in simp)
    with True 3(5) show ?thesis by (simp add: algebra_simps)
  next
    case False
    have "accrued rate (insort v (y # ts)) = accrued rate (y # ts)"
    proof (rule 3(2))
      fix t assume t: "t \<in> set changes" "hd (y # ts) < t" "t < last (y # ts)"
      with 3(8) [OF t(1)] 3(3) show "t \<in> set (y # ts)" by auto
    qed (use 3(3,6,7) False in auto)
    with False 3(5,7) show ?thesis by (cases ts) auto
  qed
qed auto

lemma accrued_additive:
  assumes "a < b" "b < c"
  shows "accrued rate (change_times a c changes) =
    accrued rate (change_times a b changes) + accrued rate (change_times b c changes)"
proof -
  let ?w = "change_times a c changes" and ?q = "change_times b c changes"
  note ac = change_times_spec [OF less_trans [OF assms], where changes = changes]
    and ab = change_times_spec [OF assms(1), where changes = changes]
    and bc = change_times_spec [OF assms(2), where changes = changes]
  have "?w \<noteq> []" "change_times a b changes \<noteq> []" "?q \<noteq> []" using ac(2) ab(2) bc(2) by auto
  then obtain xs where xs: "change_times a b changes = xs @ [b]" using ab(4) by (metis append_butlast_last_id)
  have q: "?q = b # tl ?q" using bc(3) \<open>?q \<noteq> []\<close> by (metis hd_Cons_tl)
  have "accrued rate ?w = accrued rate (if b \<in> set ?w then ?w else insort b ?w)"
    using accrued_insort [OF ac(1) \<open>?w \<noteq> []\<close>, of b] assms by (auto simp: ac(2-4))
  also have "\<dots> = accrued rate (xs @ b # tl ?q)" using change_times_split [OF assms] xs by simp
  finally show ?thesis using xs q accrued_split [of rate xs b "tl ?q"] by simp
qed

end

section \<open>Windows as accrual\<close>

text \<open>The principal in dollars and the earnings, both per millisecond, at an instant.\<close>

definition path_rate :: "apy_sample list \<Rightarrow> path_event list \<Rightarrow> int \<Rightarrow> rat" where
  "path_rate samples path u =
     (let principalUsd = rawToUsd (path_principal path u) in
      case getApyAt samples (map_option pt_reserve (getPathStateAt path u)) u of
        Some apy \<Rightarrow> if principalUsd > 0 then principalUsd * apy / SECONDS_PER_YEAR / 1000 else 0
      | None \<Rightarrow> 0)"

definition exposure_rate :: "apy_sample list \<Rightarrow> int \<Rightarrow> portfolio_exposure \<Rightarrow> rat" where
  "exposure_rate samples u exposure =
     (if xp_kind exposure \<noteq> Kamino \<or> xp_amountRaw exposure \<le> 0 \<or> \<not> truthy (xp_reserve exposure) then 0
      else case getApyAt samples (xp_reserve exposure) u of
        Some apy \<Rightarrow> rawToUsd (xp_amountRaw exposure) * apy / SECONDS_PER_YEAR / 1000
      | None \<Rightarrow> 0)"

definition portfolio_rate :: "apy_sample list \<Rightarrow> portfolio_snapshot list \<Rightarrow> int \<Rightarrow> rat" where
  "portfolio_rate samples snapshots u =
     sum_list (map (exposure_rate samples u)
       (case getPortfolioSnapshotAt snapshots u of Some s \<Rightarrow> sp_exposures s | None \<Rightarrow> []))"

definition earn_rate :: "earnings_inputs \<Rightarrow> int \<Rightarrow> rat" where
  "earn_rate inp = (if usePortfolio inp then portfolio_rate (in_apySamples inp) (in_snapshots inp)
                    else path_rate (in_apySamples inp) (in_pathEvents inp))"

definition usd_rate :: "earnings_inputs \<Rightarrow> int \<Rightarrow> rat" where
  "usd_rate inp u = (case current_principal inp u of Inr p \<Rightarrow> rawToUsd p / 1000 | Inl _ \<Rightarrow> 0)"

definition change_list :: "earnings_inputs \<Rightarrow> int list" where
  "change_list inp =
     (if usePortfolio inp
      then map pv_confirmedAt (in_events inp) @ map sp_observedAt (in_snapshots inp) @ map as_observedAt (in_apySamples inp)
      else map pt_confirmedAt (in_pathEvents inp) @ map as_observedAt (in_apySamples inp))"

subsection \<open>Rates change only at the listed times\<close>

lemma lastIndex_constant:
  assumes "sorted ts" "u \<le> v" "\<forall>t \<in> set ts. t \<le> u \<or> v < t"
  shows "lastIndexAtOrBefore ts v = lastIndexAtOrBefore ts u"
proof -
  have "takeWhile (\<lambda>t. t \<le> v) ts = takeWhile (\<lambda>t. t \<le> u) ts"
    by (rule takeWhile_cong) (use assms(2,3) in auto)
  with assms(1) show ?thesis by (simp add: lastIndex_spec)
qed

lemma getApyAt_constant:
  assumes "sorted (map as_observedAt samples)" "u \<le> v"
    and "\<forall>t \<in> as_observedAt ` set samples. t \<le> u \<or> v < t"
  shows "getApyAt samples reserve v = getApyAt samples reserve u"
proof -
  have "filter (\<lambda>x. apy_applies reserve x \<and> as_observedAt x \<le> v) samples =
      filter (\<lambda>x. apy_applies reserve x \<and> as_observedAt x \<le> u) samples"
    by (rule filter_cong) (use assms(2,3) in auto)
  with assms(1) show ?thesis by (simp add: getApyAt_scan apy_scan_def)
qed

lemma getPathStateAt_constant:
  assumes "sorted (map pt_confirmedAt path)" "u \<le> v"
    and "\<forall>t \<in> pt_confirmedAt ` set path. t \<le> u \<or> v < t"
  shows "getPathStateAt path v = getPathStateAt path u"
  using lastIndex_constant [OF assms(1,2)] assms(3) by (simp add: getPathStateAt_def)

lemma getPortfolioSnapshotAt_constant:
  assumes "sorted (map sp_observedAt snapshots)" "u \<le> v"
    and "\<forall>t \<in> sp_observedAt ` set snapshots. t \<le> u \<or> v < t"
  shows "getPortfolioSnapshotAt snapshots v = getPortfolioSnapshotAt snapshots u"
  using lastIndex_constant [OF assms(1,2)] assms(3) by (simp add: getPortfolioSnapshotAt_def)

lemma principalAt_constant:
  assumes "u \<le> v" and "\<forall>t \<in> pv_confirmedAt ` set events. t \<le> u \<or> v < t"
  shows "principalAt events v clamp = principalAt events u clamp"
proof (cases "getPrincipalIndex events clamp")
  case (Inr index)
  then obtain zs where zs: "sortEarningsEvents events = Inr zs" "pi_times index = map pv_confirmedAt zs"
    by (auto simp: getPrincipalIndex_def rbind_eq_Inr)
  have "set zs = set events" using sortEarningsEvents_chain(1) [OF zs(1)] by (metis set_mset_mset)
  with lastIndex_constant [OF sortEarningsEvents_chain(3) [OF zs(1)] assms(1)] assms(2) zs(2)
  have "lastIndexAtOrBefore (pi_times index) v = lastIndexAtOrBefore (pi_times index) u" by simp
  with Inr show ?thesis by (simp add: principalAt_def)
qed (simp add: principalAt_def)

lemma principalAt_error: "principalAt events u clamp = Inl e \<Longrightarrow> principalAt events v clamp = Inl e"
  by (auto simp: principalAt_def rbind_eq_Inl Let_def)

lemma sort_inputs_sorted:
  "sorted (map as_observedAt (in_apySamples (sort_inputs inp)))"
  "sorted (map pt_confirmedAt (in_pathEvents (sort_inputs inp)))"
  "sorted (map sp_observedAt (in_snapshots (sort_inputs inp)))"
  by (simp_all add: sort_inputs_def)

interpretation earned: accrual "earn_rate (sort_inputs inp)" "change_list (sort_inputs inp)" for inp
proof
  fix u v :: int
  assume uv: "u \<le> v" and none: "\<forall>t \<in> set (change_list (sort_inputs inp)). t \<le> u \<or> v < t"
  let ?inp = "sort_inputs inp"
  have apy: "getApyAt (in_apySamples ?inp) reserve v = getApyAt (in_apySamples ?inp) reserve u" for reserve
    by (rule getApyAt_constant [OF sort_inputs_sorted(1) uv]) (use none in \<open>auto simp: change_list_def split: if_splits\<close>)
  show "earn_rate ?inp v = earn_rate ?inp u"
  proof (cases "usePortfolio ?inp")
    case True
    have "getPortfolioSnapshotAt (in_snapshots ?inp) v = getPortfolioSnapshotAt (in_snapshots ?inp) u"
      by (rule getPortfolioSnapshotAt_constant [OF sort_inputs_sorted(3) uv])
        (use none True in \<open>auto simp: change_list_def\<close>)
    moreover have "exposure_rate (in_apySamples ?inp) v = exposure_rate (in_apySamples ?inp) u"
      by (rule ext) (simp add: exposure_rate_def apy)
    ultimately show ?thesis using True by (simp add: earn_rate_def portfolio_rate_def)
  next
    case False
    have "getPathStateAt (in_pathEvents ?inp) v = getPathStateAt (in_pathEvents ?inp) u"
      by (rule getPathStateAt_constant [OF sort_inputs_sorted(2) uv])
        (use none False in \<open>auto simp: change_list_def\<close>)
    with False apy show ?thesis by (simp add: earn_rate_def path_rate_def path_principal_def)
  qed
qed

interpretation held: accrual "usd_rate (sort_inputs inp)" "change_list (sort_inputs inp)" for inp
proof
  fix u v :: int
  assume uv: "u \<le> v" and none: "\<forall>t \<in> set (change_list (sort_inputs inp)). t \<le> u \<or> v < t"
  let ?inp = "sort_inputs inp"
  have "current_principal ?inp v = current_principal ?inp u"
  proof (cases "usePortfolio ?inp")
    case True
    have "principalAt (in_events ?inp) v (in_clamp ?inp) = principalAt (in_events ?inp) u (in_clamp ?inp)"
      by (rule principalAt_constant [OF uv]) (use none True in \<open>auto simp: change_list_def\<close>)
    with True show ?thesis by (simp add: current_principal_def)
  next
    case False
    have "getPathStateAt (in_pathEvents ?inp) v = getPathStateAt (in_pathEvents ?inp) u"
      by (rule getPathStateAt_constant [OF sort_inputs_sorted(2) uv])
        (use none False in \<open>auto simp: change_list_def\<close>)
    with False show ?thesis by (simp add: current_principal_def path_principal_def)
  qed
  then show "usd_rate ?inp v = usd_rate ?inp u" by (simp add: usd_rate_def)
qed

subsection \<open>The loops compute the accrual\<close>

lemma rawToUsd_0 [simp]: "rawToUsd 0 = 0"
  by (simp add: rawToUsd_def)

lemma window_segments:
  "sorted_wrt (<) ts \<Longrightarrow>
   foldl (window_segment samples path) (e, p) (segments ts) =
     (e + accrued (path_rate samples path) ts, p + accrued (\<lambda>u. rawToUsd (path_principal path u) / 1000) ts)"
proof (induction "path_rate samples path" ts arbitrary: e p rule: accrued.induct)
  case (1 u v ts)
  have "window_segment samples path (e, p) (u, v) =
      (e + path_rate samples path u * of_int (v - u), p + rawToUsd (path_principal path u) / 1000 * of_int (v - u))"
    using 1(2) by (simp add: window_segment_def path_rate_def path_principal_def Let_def split: option.splits)
  with 1 show ?case by (simp add: algebra_simps)
qed auto

lemma exposures_earned:
  "foldl (exposure_earned samples u (d / 1000)) e xs = e + sum_list (map (exposure_rate samples u) xs) * d"
proof (induction xs arbitrary: e)
  case (Cons x xs)
  have "exposure_earned samples u (d / 1000) e x = e + exposure_rate samples u x * d"
    by (simp add: exposure_earned_def exposure_rate_def split: option.splits)
  with Cons show ?case by (simp add: algebra_simps)
qed simp

lemma portfolio_segments_accrued:
  assumes "\<And>u. principalAt events u clamp = Inr (f u)"
  shows "portfolio_segments samples events clamp snapshots (segments ts) (e, p) =
     Inr (e + accrued (portfolio_rate samples snapshots) ts, p + accrued (\<lambda>u. rawToUsd (f u) / 1000) ts)"
proof (induction "portfolio_rate samples snapshots" ts arbitrary: e p rule: accrued.induct)
  case (1 u v ts)
  then show ?case
    by (simp add: assms exposures_earned portfolio_rate_def [of samples snapshots u] Let_def add.assoc)
qed auto

text \<open>Every window, in closed form.\<close>

lemma earnings_window_accrued:
  "earnings_window inp a b = rbind (current_principal inp b) (\<lambda>p. Inr
     \<lparr>wr_avgPrincipalUsd = (if b \<le> a then 0 else accrued (usd_rate inp) (change_times a b (change_list inp)) / (of_int (b - a) / 1000)),
      wr_earnedUsd = (if b \<le> a then 0 else accrued (earn_rate inp) (change_times a b (change_list inp))),
      wr_principalAmountRaw = p\<rparr>)"
proof (cases "usePortfolio inp")
  case False
  then have "usd_rate inp = (\<lambda>u. rawToUsd (path_principal (in_pathEvents inp) u) / 1000)"
    by (simp add: usd_rate_def [abs_def] current_principal_def)
  with False show ?thesis
    by (auto simp: earnings_window_def calculateWindow_def current_principal_def change_list_def earn_rate_def Let_def
        window_segments [OF change_times_spec(1)] not_le)
next
  case True
  let ?at = "\<lambda>u. principalAt (in_events inp) u (in_clamp inp)"
  show ?thesis
  proof (cases "?at b")
    case (Inl e)
    have err: "?at u = Inl e" for u by (rule principalAt_error [OF Inl])
    have "portfolio_segments (in_apySamples inp) (in_events inp) (in_clamp inp) (in_snapshots inp) segs (x, y) \<in> {Inl e, Inr (x, y)}"
      for segs x y by (cases segs) (auto simp: err split: prod.splits)
    from this [of "segments (change_times a b (change_list inp))" 0 0] True err show ?thesis
      by (auto simp: earnings_window_def calculatePortfolioWindow_def current_principal_def change_list_def Let_def)
  next
    case (Inr q)
    have "\<exists>p. ?at u = Inr p" for u using principalAt_error [of "in_events inp" u "in_clamp inp" _ b] Inr by (cases "?at u") auto
    then obtain f where f: "\<And>u. ?at u = Inr (f u)" by metis
    then have "usd_rate inp = (\<lambda>u. rawToUsd (f u) / 1000)" using True by (simp add: usd_rate_def [abs_def] current_principal_def)
    with True f show ?thesis
      by (simp add: earnings_window_def calculatePortfolioWindow_def current_principal_def change_list_def earn_rate_def Let_def
          portfolio_segments_accrued [OF f])
  qed
qed

text \<open>Cutting a window in two divides its earnings and its principal-time; the end is that of the second part.\<close>

lemma window_cut:
  assumes "a \<le> b" "b \<le> c" and w: "earnings_window (sort_inputs inp) a c = Inr w"
  obtains w1 w2 where "earnings_window (sort_inputs inp) a b = Inr w1" "earnings_window (sort_inputs inp) b c = Inr w2"
    "wr_earnedUsd w = wr_earnedUsd w1 + wr_earnedUsd w2"
    "wr_avgPrincipalUsd w * of_int (c - a) = wr_avgPrincipalUsd w1 * of_int (b - a) + wr_avgPrincipalUsd w2 * of_int (c - b)"
    "wr_principalAmountRaw w = wr_principalAmountRaw w2"
proof -
  let ?inp = "sort_inputs inp"
  obtain p where p: "current_principal ?inp c = Inr p" using w by (auto simp: earnings_window_accrued rbind_eq_Inr)
  have "\<exists>q. current_principal ?inp b = Inr q"
    using p principalAt_error [of "in_events ?inp" b "in_clamp ?inp" _ c]
    by (cases "principalAt (in_events ?inp) b (in_clamp ?inp)") (auto simp: current_principal_def split: if_splits)
  then obtain q where q: "current_principal ?inp b = Inr q" ..
  show thesis
    using assms(1,2) earned.accrued_additive [of a b c inp] held.accrued_additive [of a b c inp] w
    by (intro that [OF earnings_window_accrued [of ?inp a b, unfolded q rbind_Inr] earnings_window_accrued [of ?inp b c, unfolded p rbind_Inr]])
      (auto simp: earnings_window_accrued p)
qed

section \<open>Properties\<close>


definition example_inputs :: earnings_inputs where
  "example_inputs =
     \<lparr>in_apySamples = [\<lparr>as_observedAt = 20000, as_reserve = None, as_supplyApy = 2\<rparr>, \<lparr>as_observedAt = 0, as_reserve = None, as_supplyApy = 1\<rparr>],
      in_events = [example_position_event Deposit_event 4 315360000000000], in_pathEvents = [],
      in_snapshots = [\<lparr>sp_exposures = [\<lparr>xp_amountRaw = 315360000000000, xp_kind = Kamino, xp_liquidityMint = ''m'',
        xp_reserve = Some ''r'', xp_sourceId = ''s''\<rparr>], sp_observedAt = 10000, sp_observedSlot = 1\<rparr>],
      in_clamp = Clamp_total\<rparr>"


end
