(* ===== verification/Earnings_Resume.thy ===== *)
theory Earnings_Resume
  imports Earnings
begin

text \<open>
  Resuming the earnings calculation from a checkpoint: the inputs of a calculation at an earlier
  instant are the inputs of the later one cut at that instant, a window of the one up to the cut is
  the same window of the other, and so the earlier response and the tail make up the later response.
\<close>

section \<open>Sorting commutes with the cut\<close>

lemma chain_sorted: "successively may_precede zs \<Longrightarrow> sorted (map pv_confirmedAt zs)"
proof -
  assume "successively may_precede zs"
  then have "successively (\<le>) (map pv_confirmedAt zs)"
    by (induction zs rule: induct_list012) (auto simp: may_precede_time)
  then show ?thesis by (simp add: successively_conv_sorted_wrt [OF transp_on_le] transp_on_le)
qed

abbreviation cut_at :: "int \<Rightarrow> position_event list \<Rightarrow> position_event list" where
  "cut_at c \<equiv> filter (\<lambda>e. pv_confirmedAt e \<le> c)"

lemma insert_by_cut:
  "insert_by compare_events x ys = Inr zs \<Longrightarrow> sorted (map pv_confirmedAt ys) \<Longrightarrow>
   (if pv_confirmedAt x \<le> c then insert_by compare_events x (cut_at c ys) = Inr (cut_at c zs) else cut_at c zs = cut_at c ys)"
proof (induction ys arbitrary: zs)
  case (Cons y ys)
  obtain k where k: "compare_events x y = Inr k" using Cons.prems(1) by (auto simp: rbind_eq_Inr)
  have late: "\<not> pv_confirmedAt y \<le> c \<Longrightarrow> cut_at c ys = []"
    using Cons.prems(2) by (auto simp: filter_empty_conv)
  show ?case
  proof (cases "k < 0")
    case True
    with k Cons.prems(1) have "zs = x # y # ys" by simp
    with True k late show ?thesis by auto
  next
    case False
    then obtain zs' where z: "insert_by compare_events x ys = Inr zs'" "zs = y # zs'"
      using Cons.prems(1) k by (auto simp: rbind_eq_Inr)
    have "pv_confirmedAt y \<le> pv_confirmedAt x"
      using may_precede_time [OF compare_flip [OF k]] False by simp
    with Cons.IH [OF z(1)] Cons.prems(2) z(2) k False late show ?thesis by auto
  qed
qed auto

lemma sort_by_cut:
  "sort_by compare_events ys xs = Inr zs \<Longrightarrow> successively may_precede ys \<Longrightarrow>
   sort_by compare_events (cut_at c ys) (cut_at c xs) = Inr (cut_at c zs)"
proof (induction xs arbitrary: ys)
  case (Cons x xs)
  then obtain ys' where y: "insert_by compare_events x ys = Inr ys'" "sort_by compare_events ys' xs = Inr zs"
    by (auto simp: rbind_eq_Inr)
  from insert_by_chain [OF y(1) Cons.prems(2)] Cons.IH [OF y(2)]
  have "sort_by compare_events (cut_at c ys') (cut_at c xs) = Inr (cut_at c zs)" by simp
  with insert_by_cut [OF y(1) chain_sorted [OF Cons.prems(2)], of c] show ?case by (auto split: if_splits)
qed simp

lemma sortEarningsEvents_cut: "sortEarningsEvents es = Inr zs \<Longrightarrow> sortEarningsEvents (cut_at c es) = Inr (cut_at c zs)"
  using sort_by_cut [of "[]" es zs c] by (simp add: sortEarningsEvents_def)

section \<open>Lookups before the cut\<close>

lemma principal_totals_take:
  "principal_totals clamp es s = Inr totals \<Longrightarrow> principal_totals clamp (take n es) s = Inr (take n totals)"
  by (induction es arbitrary: s totals n) (auto simp: rbind_eq_Inr take_Cons split: nat.splits)

lemma principalAt_cut:
  assumes p: "principalAt events u clamp = Inr p" and "u \<le> c"
  shows "principalAt (cut_at c events) u clamp = Inr p"
proof -
  obtain zs totals where zs: "sortEarningsEvents events = Inr zs"
    and tot: "principal_totals clamp zs \<lparr>pr_byMint = [], pr_total = 0\<rparr> = Inr totals"
    and p': "p = (let found = lastIndexAtOrBefore (map pv_confirmedAt zs) u in if found = -1 then 0 else totals ! nat found)"
    using p by (auto simp: principalAt_def getPrincipalIndex_def rbind_eq_Inr Let_def)
  let ?n = "length (cut_at c zs)"
  have sorted: "sorted (map pv_confirmedAt zs)" by (rule sortEarningsEvents_chain(3) [OF zs])
  have "cut_at c zs = takeWhile (\<lambda>e. pv_confirmedAt e \<le> c) zs" by (rule takeWhile_sorted [OF sorted, symmetric])
  then have take: "cut_at c zs = take ?n zs" by (metis takeWhile_eq_take)
  have len: "length (cut_at u zs) \<le> ?n" using assms(2) by (induction zs) auto
  have early: "cut_at u (cut_at c zs) = cut_at u zs" using assms(2) by (auto simp: intro!: filter_cong)
  have found: "lastIndexAtOrBefore (map pv_confirmedAt ys) u = int (length (cut_at u ys)) - 1"
    if "sorted (map pv_confirmedAt ys)" for ys
    using that by (simp add: lastIndex_spec takeWhile_map o_def takeWhile_sorted)
  have "lastIndexAtOrBefore (map pv_confirmedAt (cut_at c zs)) u = int (length (cut_at u zs)) - 1"
    using found [of "cut_at c zs"] sorted_filter [OF sorted] early by simp
  moreover have "principal_totals clamp (cut_at c zs) \<lparr>pr_byMint = [], pr_total = 0\<rparr> = Inr (take ?n totals)"
    using principal_totals_take [OF tot, of ?n] take by simp
  moreover have "take ?n totals ! nat (int (length (cut_at u zs)) - 1) = totals ! nat (int (length (cut_at u zs)) - 1)"
    if "cut_at u zs \<noteq> []" using that len by (intro nth_take) (cases "cut_at u zs"; simp)
  ultimately show ?thesis
    using sortEarningsEvents_cut [OF zs] p' found [OF sorted]
    by (auto simp: principalAt_def getPrincipalIndex_def Let_def)
qed

lemma getPathStateAt_last:
  "sorted (map pt_confirmedAt path) \<Longrightarrow>
   getPathStateAt path u =
     (case filter (\<lambda>e. pt_confirmedAt e \<le> u) path of [] \<Rightarrow> None | es \<Rightarrow> Some (last es))"
  using lookup_spec(1,2) [of pt_confirmedAt path path u] by (auto simp: getPathStateAt_def Let_def split: list.splits)

section \<open>Inputs that agree up to the cut\<close>

abbreviation path_until :: "int \<Rightarrow> path_event list \<Rightarrow> path_event list" where
  "path_until c \<equiv> filter (\<lambda>e. pt_confirmedAt e \<le> c)"

definition cut_of :: "int \<Rightarrow> earnings_inputs \<Rightarrow> earnings_inputs \<Rightarrow> bool" where
  "cut_of c early inp \<longleftrightarrow>
     in_events early = cut_at c (in_events inp) \<and> in_apySamples early = in_apySamples inp \<and>
     in_snapshots early = in_snapshots inp \<and> in_clamp early = in_clamp inp \<and>
     path_until c (in_pathEvents early) = path_until c (in_pathEvents inp)"

lemma change_times_until:
  assumes "b \<le> c" "filter (\<lambda>t. t \<le> c) xs = filter (\<lambda>t. t \<le> c) ys"
  shows "change_times a b xs = change_times a b ys"
proof -
  have *: "filter (\<lambda>t. a < t \<and> t < b) zs = filter (\<lambda>t. a < t \<and> t < b) (filter (\<lambda>t. t \<le> c) zs)" for zs
    using assms(1) by (auto intro: filter_cong)
  have "filter (\<lambda>t. a < t \<and> t < b) xs = filter (\<lambda>t. a < t \<and> t < b) ys"
    by (subst (1 2) *) (simp only: assms(2))
  then show ?thesis by (simp only: change_times_def)
qed

lemma filter_map_until: "filter (\<lambda>t. t \<le> c) (map f xs) = map f (filter (\<lambda>x. f x \<le> (c :: int)) xs)"
  by (simp add: filter_map o_def)

lemma window_until:
  assumes cut: "cut_of c (sort_inputs early) (sort_inputs inp)" and "b \<le> c"
    and w: "earnings_window (sort_inputs inp) a b = Inr w"
  shows "earnings_window (sort_inputs early) a b = Inr w"
proof -
  let ?e = "sort_inputs early" and ?i = "sort_inputs inp"
  note same = cut [unfolded cut_of_def]
  have use: "usePortfolio ?e = usePortfolio ?i" using same by (simp add: usePortfolio_def)
  obtain p where p: "current_principal ?i b = Inr p" using w by (auto simp: earnings_window_accrued rbind_eq_Inr)
  have state: "getPathStateAt (in_pathEvents ?e) u = getPathStateAt (in_pathEvents ?i) u" if "u \<le> c" for u
  proof -
    have "path_until u xs = path_until u (path_until c xs)" for xs using that by (auto intro: filter_cong)
    then have "path_until u (in_pathEvents ?e) = path_until u (in_pathEvents ?i)" using same by metis
    then show ?thesis by (simp add: getPathStateAt_last sort_inputs_sorted)
  qed
  have principal: "current_principal ?e u = current_principal ?i u" if u: "u \<le> c" for u
  proof (cases "usePortfolio ?i")
    case True
    obtain q where "principalAt (in_events ?i) u (in_clamp ?i) = Inr q"
      using p True principalAt_error [of "in_events ?i" u "in_clamp ?i" _ b]
      by (cases "principalAt (in_events ?i) u (in_clamp ?i)") (auto simp: current_principal_def)
    with principalAt_cut [OF this u] True use same show ?thesis by (simp add: current_principal_def)
  qed (use use state [OF u] in \<open>simp add: current_principal_def path_principal_def\<close>)
  have earn: "earn_rate ?e u = earn_rate ?i u" if "u \<le> c" for u
    using use same state [OF that] by (simp add: earn_rate_def path_rate_def path_principal_def)
  have ts: "change_times a b (change_list ?e) = change_times a b (change_list ?i)"
    by (rule change_times_until [OF assms(2)])
      (use use same in \<open>auto simp: change_list_def filter_map_until intro!: arg_cong [where f = "map pv_confirmedAt"] filter_cong\<close>)
  have "u \<le> c" if "a < b" "u \<in> set (butlast (change_times a b (change_list ?i)))" for u
    using in_set_butlastD [OF that(2)] change_times_spec(2) [OF that(1), of "change_list ?i"] that(1) assms(2) by auto
  then have "accrued (earn_rate ?e) (change_times a b (change_list ?e)) = accrued (earn_rate ?i) (change_times a b (change_list ?i))"
      "accrued (usd_rate ?e) (change_times a b (change_list ?e)) = accrued (usd_rate ?i) (change_times a b (change_list ?i))"
    if "a < b" using that earn principal by (auto simp: ts usd_rate_def intro!: accrued_cong)
  with w principal [OF assms(2)] show ?thesis by (auto simp: earnings_window_accrued rbind_eq_Inr)
qed

lemma legacy_times: "pt_confirmedAt ` set (legacy_path es p) = pv_confirmedAt ` set es"
  by (induction es arbitrary: p) (simp_all add: Let_def)

lemma legacy_until:
  "sorted (map pv_confirmedAt es) \<Longrightarrow> path_until c (legacy_path es p) = legacy_path (cut_at c es) p"
proof (induction es arbitrary: p)
  case (Cons e es)
  have "path_until c (legacy_path es q) = [] \<and> cut_at c es = []" if "\<not> pv_confirmedAt e \<le> c" for q
  proof -
    have late: "\<forall>t \<in> pv_confirmedAt ` set es. \<not> t \<le> c" using Cons.prems that by auto
    then have "\<forall>t \<in> pt_confirmedAt ` set (legacy_path es q). \<not> t \<le> c" by (simp only: legacy_times)
    with late show ?thesis by (simp add: filter_empty_conv)
  qed
  with Cons show ?case by (auto simp: Let_def)
qed simp

lemma inputs_cut:
  assumes "earnings_inputs_of args = Inr inp" and "c \<le> ea_now args"
  obtains raw raw' where "inp = sort_inputs raw"
    "earnings_inputs_of (args\<lparr>ea_now := c, ea_checkpoint := cp\<rparr>) = Inr (sort_inputs raw')"
    "cut_of c (sort_inputs raw') (sort_inputs raw)" "sorted (map pv_confirmedAt (in_events inp))"
proof -
  obtain es where es: "sortEarningsEvents (cut_at (ea_now args) (ea_events args)) = Inr es"
    using assms(1) by (auto simp: earnings_inputs_of_def rbind_eq_Inr)
  have "cut_at c (cut_at (ea_now args) (ea_events args)) = cut_at c (ea_events args)"
    using assms(2) by (auto intro: filter_cong)
  with sortEarningsEvents_cut [OF es, of c] have es': "sortEarningsEvents (cut_at c (ea_events args)) = Inr (cut_at c es)" by simp
  note sorted = sortEarningsEvents_chain(3) [OF es]
  have "path_until c (sort_key pt_confirmedAt (legacyEventsToPathEvents (cut_at c es))) =
      path_until c (sort_key pt_confirmedAt (legacyEventsToPathEvents es))"
    using legacy_until [OF sorted] legacy_until [OF sorted_filter [OF sorted]]
    by (simp add: legacyEventsToPathEvents_def filter_sort)
  moreover define raw where "raw = (\<lambda>events. \<lparr>in_apySamples = ea_apySamples args, in_events = events,
    in_pathEvents = (case ea_pathEvents args of Some ps \<Rightarrow> ps | None \<Rightarrow> legacyEventsToPathEvents events),
    in_snapshots = (case ea_portfolioSnapshots args of Some ss \<Rightarrow> ss | None \<Rightarrow> []),
    in_clamp = (case ea_principalClamp args of Some c \<Rightarrow> c | None \<Rightarrow> Clamp_total)\<rparr>)"
  ultimately have "cut_of c (sort_inputs (raw (cut_at c es))) (sort_inputs (raw es))"
    by (simp add: cut_of_def sort_inputs_def split: option.split)
  moreover have inp: "inp = sort_inputs (raw es)"
    using assms(1) es by (simp add: earnings_inputs_of_def raw_def)
  moreover have "earnings_inputs_of (args\<lparr>ea_now := c, ea_checkpoint := cp\<rparr>) = Inr (sort_inputs (raw (cut_at c es)))"
    using es' by (simp add: earnings_inputs_of_def raw_def)
  moreover have "in_events inp = es" by (simp add: inp sort_inputs_def raw_def)
  ultimately show thesis using that [of "raw es" "raw (cut_at c es)"] sorted by simp
qed

section \<open>Deposits\<close>

lemma find_append: "find P (xs @ ys) = (case find P xs of Some x \<Rightarrow> Some x | None \<Rightarrow> find P ys)"
  by (induction xs) auto

lemma cut_append: "sorted (map pv_confirmedAt es) \<Longrightarrow> es = cut_at c es @ filter (\<lambda>e. c < pv_confirmedAt e) es"
proof (induction es)
  case (Cons e es)
  have "cut_at c es = []" "filter (\<lambda>e. c < pv_confirmedAt e) es = es" if "c < pv_confirmedAt e"
    using Cons.prems that by (auto simp: filter_empty_conv filter_id_conv)
  with Cons show ?case by (auto simp: not_le)
qed simp

lemma first_deposit_cut:
  assumes "sorted (map pv_confirmedAt es)" and "\<exists>e \<in> set es. pv_type e = Deposit_event \<and> pv_confirmedAt e \<le> c"
  shows "first_deposit (cut_at c es) path = first_deposit es path'"
proof -
  obtain e where "find (\<lambda>e. pv_type e = Deposit_event) (cut_at c es) = Some e"
    using assms(2) by (cases "find (\<lambda>e. pv_type e = Deposit_event) (cut_at c es)") (auto simp: find_None_iff)
  moreover from this have "find (\<lambda>e. pv_type e = Deposit_event) es = Some e"
    by (subst cut_append [OF assms(1), of c]) (simp add: find_append)
  ultimately show ?thesis by (simp add: first_deposit_def)
qed

lemma last_deposit_cut:
  assumes "sorted (map pv_confirmedAt es)" and "\<exists>e \<in> set es. pv_type e = Deposit_event \<and> pv_confirmedAt e \<le> c"
  obtains (early) u where "last_deposit es path' = Some u" "u \<le> c" "last_deposit (cut_at c es) path = Some u"
    | (late) u where "last_deposit es path' = Some u" "c < u"
proof -
  let ?P = "\<lambda>e. pv_type e = Deposit_event" and ?late = "filter (\<lambda>e. c < pv_confirmedAt e) es"
  have split: "find ?P (rev es) = (case find ?P (rev ?late) of Some x \<Rightarrow> Some x | None \<Rightarrow> find ?P (rev (cut_at c es)))"
    by (subst cut_append [OF assms(1), of c]) (simp add: find_append)
  obtain e where e: "find ?P (rev (cut_at c es)) = Some e"
    using assms(2) by (cases "find ?P (rev (cut_at c es))") (auto simp: find_None_iff)
  show thesis
  proof (cases "find ?P (rev ?late)")
    case None
    with split e have "last_deposit es path' = Some (pv_confirmedAt e)" "last_deposit (cut_at c es) path = Some (pv_confirmedAt e)"
      by (simp_all add: last_deposit_def first_deposit_def)
    moreover have "pv_confirmedAt e \<le> c" using find_SomeD [OF e] by simp
    ultimately show thesis using early by blast
  next
    case (Some x)
    with split have "last_deposit es path' = Some (pv_confirmedAt x)" by (simp add: last_deposit_def first_deposit_def)
    moreover have "c < pv_confirmedAt x" using find_SomeD [OF Some] by simp
    ultimately show thesis using late by blast
  qed
qed

section \<open>Ranges and bars\<close>

lemma resume_range:
  assumes "cut_of c (sort_inputs raw') (sort_inputs raw)" and "from \<le> c" "c \<le> now"
    and full: "range_earned (sort_inputs raw) None now j sel from = Inr x"
    and early: "range_earned (sort_inputs raw') None c j' sel' from = Inr (sel R)"
  shows "range_earned (sort_inputs raw) (Some (c, R)) now True sel from = Inr x"
proof -
  obtain w where w: "earnings_window (sort_inputs raw) from now = Inr w" "x = wr_earnedUsd w"
    using full by (auto simp: range_earned_def resume_from_def rbind_eq_Inr)
  obtain w1 w2 where cut: "earnings_window (sort_inputs raw) from c = Inr w1" "earnings_window (sort_inputs raw) c now = Inr w2"
      "wr_earnedUsd w = wr_earnedUsd w1 + wr_earnedUsd w2"
    using window_cut [OF assms(2,3) w(1)] by metis
  have "earnings_window (sort_inputs raw') from c = Inr w1" by (rule window_until [OF assms(1) order_refl cut(1)])
  with early have "sel R = wr_earnedUsd w1" by (simp add: range_earned_def resume_from_def)
  with cut w assms(2) show ?thesis by (simp add: range_earned_def resume_from_def max_def)
qed

lemma later_range:
  "c \<le> from \<Longrightarrow> range_earned inp None now j sel' from = Inr x \<Longrightarrow> range_earned inp (Some (c, R)) now False sel from = Inr x"
  by (simp add: range_earned_def resume_from_def max_def)

lemma previous_bars_get:
  assumes "distinct (map eb_startAt (er_bars R))" and "bar \<in> set (er_bars R)"
  shows "jm_get (previous_bars (Some (c, R))) (eb_startAt bar) = Some bar"
proof -
  have "jm_get (foldl (\<lambda>bars bar. jm_set (eb_startAt bar) bar bars) m bars) k =
      (case find (\<lambda>b. eb_startAt b = k) (rev bars) of Some b \<Rightarrow> Some b | None \<Rightarrow> jm_get m k)" for bars :: "earnings_bar list" and m k
    by (induction bars arbitrary: m) (auto simp: jm_get_set find_append split: option.splits)
  moreover have "find (\<lambda>b. eb_startAt b = eb_startAt bar) (rev (er_bars R)) = Some bar"
  proof (cases "find (\<lambda>b. eb_startAt b = eb_startAt bar) (rev (er_bars R))")
    case (Some b)
    then show ?thesis using find_SomeD [OF Some] assms by (auto simp: distinct_map dest: inj_onD)
  qed (use assms(2) in \<open>auto simp: find_None_iff\<close>)
  ultimately show ?thesis by (simp add: previous_bars_def)
qed

text \<open>
  The chart at \<open>now\<close> continues the chart at \<open>c\<close>: its buckets end no earlier than they start, and each
  that had started by \<open>c\<close> was already a bucket then, cut at \<open>c\<close>.
\<close>

definition chart_continues :: "bucket list \<Rightarrow> int \<Rightarrow> bucket list \<Rightarrow> bool" where
  "chart_continues earlier c buckets \<longleftrightarrow>
     distinct (map bk_startAt earlier) \<and>
     (\<forall>b \<in> set buckets. bk_startAt b \<le> bk_endAt b \<and>
        (bk_startAt b \<le> c \<longrightarrow> (\<exists>b' \<in> set earlier. bk_startAt b' = bk_startAt b \<and> bk_endAt b' = min (bk_endAt b) c)))"

lemma bucket_bar_fresh: "bucket_bar inp None b = rbind (earnings_window inp (bk_startAt b) (bk_endAt b)) (\<lambda>w. Inr (computed_bar b w))"
  by (simp add: bucket_bar_def resume_from_def)

lemma join_previous_cut:
  assumes "bk_startAt b < c" "c < bk_endAt b"
    and "wr_earnedUsd w = eb_earnedUsd bar + wr_earnedUsd w2"
    and "wr_avgPrincipalUsd w * of_int (bk_endAt b - bk_startAt b) =
      eb_avgPrincipalUsd bar * of_int (c - bk_startAt b) + wr_avgPrincipalUsd w2 * of_int (bk_endAt b - c)"
    and "wr_principalAmountRaw w = wr_principalAmountRaw w2"
  shows "join_previous c b bar w2 = w"
proof -
  have pos: "of_int (bk_endAt b - bk_startAt b) > (0 :: rat)" using assms(1,2) by simp
  have "wr_avgPrincipalUsd w =
      (eb_avgPrincipalUsd bar * (of_int (c - bk_startAt b) / 1000) + wr_avgPrincipalUsd w2 * (of_int (bk_endAt b - c) / 1000)) /
      (of_int (bk_endAt b - bk_startAt b) / 1000)"
    using pos assms(4) by (simp add: field_simps)
  with pos assms(1,3,5) show ?thesis
    by (auto simp: join_previous_def max_def Let_def intro!: window_result.equality)
qed

lemma resume_bar:
  assumes cut: "cut_of c (sort_inputs raw') (sort_inputs raw)"
    and bars: "rmap_list (bucket_bar (sort_inputs raw') None) earlier = Inr (er_bars R)"
    and cont: "chart_continues earlier c buckets" and b: "b \<in> set buckets"
    and full: "bucket_bar (sort_inputs raw) None b = Inr bar"
  shows "bucket_bar (sort_inputs raw) (Some (c, R)) b = Inr bar"
proof (cases "bk_startAt b \<le> c")
  case False
  then have "bk_startAt b > c" "bk_endAt b > c" using cont b by (auto simp: chart_continues_def)
  with full show ?thesis
    by (auto simp: bucket_bar_def resume_from_def max_def Let_def split: option.split)
next
  case True
  let ?i = "sort_inputs raw"
  have *: "list_all2 (\<lambda>b bar. bucket_bar (sort_inputs raw') None b = Inr bar) earlier (er_bars R)"
    using bars by (simp add: rmap_list_Inr)
  have starts: "map eb_startAt (er_bars R) = map bk_startAt earlier"
    using * by (induction rule: list_all2_induct) (auto simp: bucket_bar_fresh rbind_eq_Inr computed_bar_def)
  obtain b' where b': "b' \<in> set earlier" "bk_startAt b' = bk_startAt b" "bk_endAt b' = min (bk_endAt b) c"
    using cont b True unfolding chart_continues_def by blast
  obtain i where i: "i < length earlier" "b' = earlier ! i" using b'(1) by (auto simp: in_set_conv_nth)
  obtain bar' where bar': "bar' \<in> set (er_bars R)" "bucket_bar (sort_inputs raw') None b' = Inr bar'"
    using that [of "er_bars R ! i"] i list_all2_nthD [OF * i(1)] list_all2_lengthD [OF *] by simp
  have prev: "jm_get (previous_bars (Some (c, R))) (bk_startAt b) = Some bar'"
    using previous_bars_get [of R bar' c] bar' b'(2) cont starts
    by (auto simp: chart_continues_def bucket_bar_fresh rbind_eq_Inr computed_bar_def)
  obtain w where w: "earnings_window ?i (bk_startAt b) (bk_endAt b) = Inr w" "bar = computed_bar b w"
    using full by (auto simp: bucket_bar_fresh rbind_eq_Inr)
  have ends: "bk_startAt b \<le> bk_endAt b" using cont b by (simp add: chart_continues_def)
  show ?thesis
  proof (cases "bk_endAt b \<le> c")
    case True
    have "earnings_window (sort_inputs raw') (bk_startAt b) (bk_endAt b) = Inr w" by (rule window_until [OF cut True w(1)])
    with bar'(2) b' True have "bar' = computed_bar b' w" by (simp add: bucket_bar_fresh)
    with True b' w(2) prev show ?thesis by (simp add: bucket_bar_def computed_bar_def)
  next
    case False
    obtain w1 w2 where cutw: "earnings_window ?i (bk_startAt b) c = Inr w1" "earnings_window ?i c (bk_endAt b) = Inr w2"
        "wr_earnedUsd w = wr_earnedUsd w1 + wr_earnedUsd w2"
        "wr_avgPrincipalUsd w * of_int (bk_endAt b - bk_startAt b) =
          wr_avgPrincipalUsd w1 * of_int (c - bk_startAt b) + wr_avgPrincipalUsd w2 * of_int (bk_endAt b - c)"
        "wr_principalAmountRaw w = wr_principalAmountRaw w2"
      using window_cut [OF True _ w(1)] False by (metis not_le less_imp_le)
    have "earnings_window (sort_inputs raw') (bk_startAt b) c = Inr w1" by (rule window_until [OF cut order_refl cutw(1)])
    with bar'(2) b' False have bar'': "bar' = computed_bar b' w1" by (simp add: bucket_bar_fresh)
    show ?thesis
    proof (cases "bk_startAt b < c")
      case True
      have "join_previous c b bar' w2 = w"
        by (rule join_previous_cut) (use True False cutw bar'' in \<open>auto simp: computed_bar_def\<close>)
      with True False prev cutw w(2) show ?thesis by (simp add: bucket_bar_def resume_from_def max_def)
    next
      case False
      with \<open>bk_startAt b \<le> c\<close> have "bk_startAt b = c" by simp
      with \<open>\<not> bk_endAt b \<le> c\<close> prev w show ?thesis by (simp add: bucket_bar_def resume_from_def)
    qed
  qed
qed

lemma inputs_checkpoint [simp]: "earnings_inputs_of (args\<lparr>ea_checkpoint := cp\<rparr>) = earnings_inputs_of args"
  by (simp add: earnings_inputs_of_def)

lemma inputs_deposit:
  assumes "earnings_inputs_of args = Inr inp" and "e \<in> set (ea_events args)" "pv_confirmedAt e \<le> ea_now args"
  shows "e \<in> set (in_events inp)"
proof -
  obtain es where es: "sortEarningsEvents (cut_at (ea_now args) (ea_events args)) = Inr es" "in_events inp = es"
    using assms(1) by (auto simp: earnings_inputs_of_def rbind_eq_Inr sort_inputs_def)
  have "set es = set (cut_at (ea_now args) (ea_events args))"
    using sortEarningsEvents_chain(1) [OF es(1)] by (metis set_mset_mset)
  with es(2) assms(2,3) show ?thesis by simp
qed

text \<open>The chart of a calculation at an instant.\<close>

definition chart_at :: "earnings_args \<Rightarrow> earnings_inputs \<Rightarrow> int \<Rightarrow> bucket list" where
  "chart_at args inp u = createEarningsBuckets (ea_zone args) (ea_label args)
     (first_deposit (in_events inp) (in_pathEvents inp)) u (ea_range args)"

lemma calculate_iff:
  assumes "earnings_inputs_of args = Inr inp"
  shows "calculateEarnEarnings args = Inr R \<longleftrightarrow>
    (let now = ea_now args; cp = ea_checkpoint args; today = startOfLocalDay (ea_zone args) now;
         firstAt = first_deposit (in_events inp) (in_pathEvents inp); lastAt = last_deposit (in_events inp) (in_pathEvents inp) in
     rmap_list (bucket_bar inp cp) (chart_at args inp now) = Inr (er_bars R) \<and>
     range_earned inp cp now True er_lifetimeEarnedUsd (case firstAt of Some u \<Rightarrow> u | None \<Rightarrow> now) = Inr (er_lifetimeEarnedUsd R) \<and>
     range_earned inp cp now (case lastAt of Some u \<Rightarrow> before_resume cp u | None \<Rightarrow> False) er_sinceLastDepositEarnedUsd
       (case lastAt of Some u \<Rightarrow> u | None \<Rightarrow> now) = Inr (er_sinceLastDepositEarnedUsd R) \<and>
     range_earned inp cp now (before_resume cp today) er_todayEarnedUsd today = Inr (er_todayEarnedUsd R) \<and>
     current_principal inp now = Inr (er_principalAmountRaw R) \<and>
     er_currentApyBps R = map_option (\<lambda>apy. \<lfloor>apy * 10000 + 1 / 2\<rfloor>) (current_apy inp now) \<and> er_lastDepositAt R = lastAt \<and>
     er_principalUsd R = rawToUsd (er_principalAmountRaw R) \<and>
     er_rangeEarnedUsd R = foldl (\<lambda>total bar. total + eb_earnedUsd bar) 0 (er_bars R))"
  unfolding calculateEarnEarnings_def assms rbind_Inr Let_def chart_at_def
  by (cases R) (simp add: rbind_eq_Inr conj_ac, blast)

lemma first_deposit_resume:
  assumes "sorted (map pv_confirmedAt es)" and dep: "\<exists>e \<in> set es. pv_type e = Deposit_event \<and> pv_confirmedAt e \<le> c"
  obtains u where "first_deposit es path' = Some u" "u \<le> c" "first_deposit (cut_at c es) path = Some u"
proof -
  obtain e where "find (\<lambda>e. pv_type e = Deposit_event) (cut_at c es) = Some e"
    using dep by (cases "find (\<lambda>e. pv_type e = Deposit_event) (cut_at c es)") (auto simp: find_None_iff)
  with find_SomeD [OF this] first_deposit_cut [OF assms, of path path'] show thesis
    by (intro that [of "pv_confirmedAt e"]) (simp_all add: first_deposit_def)
qed

lemma resume_since:
  assumes "sorted (map pv_confirmedAt (in_events (sort_inputs raw)))"
    and dep: "\<exists>e \<in> set (in_events (sort_inputs raw)). pv_type e = Deposit_event \<and> pv_confirmedAt e \<le> c"
    and cut: "cut_of c (sort_inputs raw') (sort_inputs raw)" and now: "c \<le> now"
  defines "lastAt \<equiv> last_deposit (in_events (sort_inputs raw)) (in_pathEvents (sort_inputs raw))"
    and "lastAt' \<equiv> last_deposit (in_events (sort_inputs raw')) (in_pathEvents (sort_inputs raw'))"
  assumes full: "range_earned (sort_inputs raw) None now j sel (case lastAt of Some u \<Rightarrow> u | None \<Rightarrow> now) = Inr x"
    and early: "range_earned (sort_inputs raw') None c j' sel' (case lastAt' of Some u \<Rightarrow> u | None \<Rightarrow> c) = Inr (sel R)"
  shows "range_earned (sort_inputs raw) (Some (c, R)) now
    (case lastAt of Some u \<Rightarrow> before_resume (Some (c, R)) u | None \<Rightarrow> False) sel (case lastAt of Some u \<Rightarrow> u | None \<Rightarrow> now) = Inr x"
proof (rule last_deposit_cut [OF assms(1) dep, of "in_pathEvents (sort_inputs raw)" "in_pathEvents (sort_inputs raw')"])
  fix u assume u: "last_deposit (in_events (sort_inputs raw)) (in_pathEvents (sort_inputs raw)) = Some u" "u \<le> c"
    "last_deposit (cut_at c (in_events (sort_inputs raw))) (in_pathEvents (sort_inputs raw')) = Some u"
  have events: "in_events (sort_inputs raw') = cut_at c (in_events (sort_inputs raw))" using cut by (simp add: cut_of_def)
  show ?thesis
  proof (cases "u < c")
    case True
    have "range_earned (sort_inputs raw) (Some (c, R)) now True sel u = Inr x"
      by (rule resume_range [OF cut u(2) now]) (use full early u in \<open>auto simp: events lastAt_def lastAt'_def\<close>)
    with True u show ?thesis by (simp add: before_resume_def lastAt_def)
  qed (use full u in \<open>auto simp: before_resume_def lastAt_def intro: later_range\<close>)
qed (use full in \<open>auto simp: before_resume_def lastAt_def intro: later_range\<close>)

lemma resume_exact:
  assumes full: "calculateEarnEarnings (args\<lparr>ea_checkpoint := None\<rparr>) = Inr R"
    and early: "calculateEarnEarnings (args\<lparr>ea_now := c, ea_checkpoint := None\<rparr>) = Inr R0"
    and now: "c \<le> ea_now args" and inp: "earnings_inputs_of args = Inr inp"
    and deposit: "\<exists>e \<in> set (ea_events args). pv_type e = Deposit_event \<and> pv_confirmedAt e \<le> c"
    and chart: "chart_continues (chart_at args inp c) c (chart_at args inp (ea_now args))"
    and day: "startOfLocalDay (ea_zone args) (ea_now args) < c \<Longrightarrow>
      startOfLocalDay (ea_zone args) c = startOfLocalDay (ea_zone args) (ea_now args)"
  shows "calculateEarnEarnings (args\<lparr>ea_checkpoint := Some (c, R0)\<rparr>) = Inr R"
proof -
  obtain raw raw' where raw: "inp = sort_inputs raw"
      "earnings_inputs_of (args\<lparr>ea_now := c, ea_checkpoint := None\<rparr>) = Inr (sort_inputs raw')"
      "cut_of c (sort_inputs raw') (sort_inputs raw)" "sorted (map pv_confirmedAt (in_events inp))"
    by (rule inputs_cut [OF inp now])
  let ?e = "sort_inputs raw'" and ?i = "sort_inputs raw"
  have events: "in_events ?e = cut_at c (in_events ?i)" using raw(3) by (simp add: cut_of_def)
  have dep: "\<exists>e \<in> set (in_events ?i). pv_type e = Deposit_event \<and> pv_confirmedAt e \<le> c"
    using deposit inputs_deposit [OF inp] now raw(1) by (meson order_trans)
  note sorted = raw(4) [unfolded raw(1)]
  obtain f where f: "first_deposit (in_events ?i) (in_pathEvents ?i) = Some f" "f \<le> c"
      "first_deposit (in_events ?e) (in_pathEvents ?e) = Some f"
    using first_deposit_resume [OF sorted dep, of "in_pathEvents ?i" "in_pathEvents ?e"] events by metis
  have inp': "earnings_inputs_of (args\<lparr>ea_checkpoint := cp\<rparr>) = Inr ?i" for cp using inp raw(1) by simp
  have chart_simps: "chart_at (args\<lparr>ea_checkpoint := cp\<rparr>) ?i u = chart_at args ?i u"
      "chart_at (args\<lparr>ea_now := c, ea_checkpoint := cp\<rparr>) ?e u = chart_at args ?i u" for cp u
    by (simp_all add: chart_at_def f)
  note F = full [unfolded calculate_iff [OF inp'] Let_def, simplified, unfolded chart_simps f option.case]
    and E = early [unfolded calculate_iff [OF raw(2)] Let_def, simplified, unfolded chart_simps f option.case]
  have bars: "rmap_list (bucket_bar ?i (Some (c, R0))) (chart_at args ?i (ea_now args)) = Inr (er_bars R)"
  proof -
    have "rmap_list (bucket_bar ?e None) (chart_at args ?i c) = Inr (er_bars R0)" using E by blast
    note resume_bar [OF raw(3) this chart [unfolded raw(1)]]
    moreover have "list_all2 (\<lambda>b bar. bucket_bar ?i None b = Inr bar) (chart_at args ?i (ea_now args)) (er_bars R)"
      using F by (simp add: rmap_list_Inr)
    ultimately show ?thesis by (auto simp: rmap_list_Inr elim!: list.rel_mono_strong)
  qed
  have lifetime: "range_earned ?i (Some (c, R0)) (ea_now args) True er_lifetimeEarnedUsd f = Inr (er_lifetimeEarnedUsd R)"
    by (rule resume_range [OF raw(3) f(2) now]) (use F E in blast)+
  have today: "range_earned ?i (Some (c, R0)) (ea_now args)
      (before_resume (Some (c, R0)) (startOfLocalDay (ea_zone args) (ea_now args))) er_todayEarnedUsd
      (startOfLocalDay (ea_zone args) (ea_now args)) = Inr (er_todayEarnedUsd R)"
  proof (cases "startOfLocalDay (ea_zone args) (ea_now args) < c")
    case True
    have "range_earned ?i (Some (c, R0)) (ea_now args) True er_todayEarnedUsd
      (startOfLocalDay (ea_zone args) (ea_now args)) = Inr (er_todayEarnedUsd R)"
      by (rule resume_range [OF raw(3) _ now]) (use True F E day [OF True] in auto)
    with True show ?thesis by (simp add: before_resume_def)
  qed (use F in \<open>auto simp: before_resume_def intro: later_range\<close>)
  have since: "range_earned ?i (Some (c, R0)) (ea_now args)
      (case last_deposit (in_events ?i) (in_pathEvents ?i) of Some u \<Rightarrow> before_resume (Some (c, R0)) u | None \<Rightarrow> False)
      er_sinceLastDepositEarnedUsd
      (case last_deposit (in_events ?i) (in_pathEvents ?i) of Some u \<Rightarrow> u | None \<Rightarrow> ea_now args) = Inr (er_sinceLastDepositEarnedUsd R)"
    by (rule resume_since [OF sorted dep raw(3) now]) (use F E in \<open>auto cong: option.case_cong\<close>)
  show ?thesis
    unfolding calculate_iff [OF inp'] Let_def using F bars lifetime today since
    by (simp add: chart_simps f cong: option.case_cong)
qed

text \<open>Without portfolio snapshots nothing but the order of the events can fail.\<close>

lemma path_calculation_total:
  assumes "earnings_inputs_of args = Inr inp" and "\<not> usePortfolio inp"
  shows "\<exists>R. calculateEarnEarnings args = Inr R"
proof -
  have window: "\<exists>w. earnings_window inp a b = Inr w" for a b using assms(2) by (simp add: earnings_window_def)
  have fresh: "\<exists>bar. rbind (earnings_window inp a b) (\<lambda>w. Inr (f w)) = Inr bar" for a b and f :: "window_result \<Rightarrow> 'a"
    using window [of a b] by auto
  have bar: "\<exists>bar. bucket_bar inp cp b = Inr bar" for cp b
    unfolding bucket_bar_def Let_def using fresh by (auto split: option.split prod.split)
  then obtain g where g: "\<And>cp b. bucket_bar inp cp b = Inr (g cp b)" by metis
  have "rmap_list (bucket_bar inp cp) bs = Inr (map (g cp) bs)" for cp bs by (induction bs) (simp_all add: g)
  moreover have "\<exists>x. range_earned inp cp now j sel u = Inr x" for cp now j sel u
    unfolding range_earned_def by (rule fresh)
  then obtain h where "\<And>cp now j sel u. range_earned inp cp now j sel u = Inr (h cp now j sel u)" by metis
  moreover have "current_principal inp u = Inr (path_principal (in_pathEvents inp) u)" for u
    using assms(2) by (simp add: current_principal_def)
  ultimately show ?thesis unfolding calculateEarnEarnings_def assms(1) rbind_Inr Let_def by simp
qed

end
