(* ===== verification/Earnings_Calendar.thy ===== *)
theory Earnings_Calendar
  imports Earnings_Resume
begin

text \<open>
  The calendar of the earnings charts: the civil date of a day determines the day, and in UTC the daily
  buckets are whole days.
\<close>

section \<open>Civil dates\<close>

lemma civil_days:
  assumes "civil_from_days z = (y, m, d)"
  shows "days_from_civil y m d = z" "1 \<le> m" "m \<le> 12" "0 \<le> z \<Longrightarrow> 1600 \<le> y"
proof -
  define era doe where "era = (z + 719468) div 146097" and "doe = (z + 719468) mod 146097"
  define century where "century = min 3 (doe div 36524)"
  define doc where "doc = doe - 36524 * century"
  define leap dol where "leap = doc div 1461" and "dol = doc mod 1461"
  define rest where "rest = min 3 (dol div 365)"
  define doy where "doy = dol - 365 * rest"
  define mp where "mp = (5 * doy + 2) div 153"
  have doe: "0 \<le> doe" "doe < 146097" "z + 719468 = 146097 * era + doe" unfolding era_def doe_def by simp_all
  have century: "0 \<le> century" "century \<le> 3" "0 \<le> doc" "doc \<le> 36524" using doe unfolding century_def doc_def by auto
  have leap: "0 \<le> leap" "leap \<le> 24" "0 \<le> dol" "dol \<le> 1460" "doc = 1461 * leap + dol" using century unfolding leap_def dol_def by auto
  have rest: "0 \<le> rest" "rest \<le> 3" "0 \<le> doy" "doy \<le> 365" using leap unfolding rest_def doy_def by auto
  have mp: "0 \<le> mp" "mp \<le> 11" using rest unfolding mp_def by auto
  have "civil_from_days z =
      (400 * era + 100 * century + 4 * leap + rest + (if (if mp < 10 then mp + 3 else mp - 9) \<le> 2 then 1 else 0),
       if mp < 10 then mp + 3 else mp - 9, doy - (153 * mp + 2) div 5 + 1)"
    unfolding civil_from_days_def Let_def mp_def doy_def rest_def dol_def leap_def doc_def century_def doe_def era_def
    by (rule refl)
  then have civil: "m = (if mp < 10 then mp + 3 else mp - 9)" "d = doy - (153 * mp + 2) div 5 + 1"
      "y = 400 * era + 100 * century + 4 * leap + rest + (if m \<le> 2 then 1 else 0)"
    using assms by (simp_all only: prod.inject)
  show "1 \<le> m" "m \<le> 12" using civil(1) mp by (auto split: if_splits)
  show "1600 \<le> y" if "0 \<le> z"
  proof -
    have "4 \<le> era" using that unfolding era_def by simp
    with civil(3) century leap rest show ?thesis by (auto split: if_splits)
  qed
  define yy where "yy = 400 * era + 100 * century + 4 * leap + rest"
  have "(if m \<le> 2 then y - 1 else y) = yy" "(if m > 2 then m - 3 else m + 9) = mp"
    using civil mp by (auto simp: yy_def)
  then have "days_from_civil y m d = yy * 365 + yy div 4 - yy div 100 + yy div 400 + ((153 * mp + 2) div 5 + d - 1) - 719468"
    by (simp only: days_from_civil_def Let_def)
  moreover have "yy div 4 = 100 * era + 25 * century + leap" "yy div 100 = 4 * era + century" "yy div 400 = era"
    using century leap rest unfolding yy_def by simp_all
  ultimately show "days_from_civil y m d = z"
    using civil(2) doe(3) leap(5) doc_def doy_def yy_def by simp
qed

lemma Date_UTC_civil:
  assumes "civil_from_days z = (y, m, d)" "0 \<le> z"
  shows "Date_UTC y (m - 1) (d + k) h mi s = 1000 * (86400 * (z + k) + 3600 * h + 60 * mi + s)"
proof -
  note date = civil_days [OF assms(1)]
  have "days_from_civil y m 1 + d - 1 = z" using date(1) by (simp add: days_from_civil_def Let_def)
  moreover have "(m - 1) div 12 = 0" "(m - 1) mod 12 + 1 = m" using date(2,3) by simp_all
  ultimately show ?thesis using date(4) [OF assms(2)] by (simp add: Date_UTC_def Let_def algebra_simps)
qed

section \<open>Universal time\<close>

abbreviation day_ms :: int where "day_ms \<equiv> 86400000"

definition utc_zone :: "int \<Rightarrow> zoned_parts" where
  "utc_zone u =
     (case civil_from_days (u div day_ms) of (y, m, d) \<Rightarrow>
        let s = u mod day_ms div 1000 in
        \<lparr>zp_day = d, zp_hour = s div 3600, zp_minute = s mod 3600 div 60, zp_month = m, zp_second = s mod 60, zp_year = y\<rparr>)"

lemma utc_parts:
  assumes "civil_from_days (u div day_ms) = (y, m, d)"
  shows "getZonedParts utc_zone u = (let s = u mod day_ms div 1000 in
    \<lparr>zp_day = d, zp_hour = s div 3600, zp_minute = s mod 3600 div 60, zp_month = m, zp_second = s mod 60, zp_year = y\<rparr>)"
proof -
  have "u mod day_ms < day_ms" by simp
  then have "u mod day_ms div 1000 div 3600 \<noteq> 24" by linarith
  with assms show ?thesis by (simp add: getZonedParts_def utc_zone_def Let_def)
qed

lemma utc_date:
  "(zp_year (getZonedParts utc_zone u), zp_month (getZonedParts utc_zone u), zp_day (getZonedParts utc_zone u)) =
   civil_from_days (u div day_ms)"
proof -
  obtain y m d where date: "civil_from_days (u div day_ms) = (y, m, d)" by (metis prod_cases3)
  show ?thesis by (simp only: date utc_parts [OF date] Let_def zoned_parts.simps)
qed

lemma nested_div_mod: "b dvd a \<Longrightarrow> a * (s div a) + b * (s mod a div b) + s mod b = (s :: int)"
proof -
  assume "b dvd a"
  then have "s mod a mod b = s mod b" by (rule mod_mod_cancel)
  with mult_div_mod_eq [of a s] mult_div_mod_eq [of b "s mod a"] show ?thesis by linarith
qed

lemma utc_offset:
  assumes "0 \<le> u"
  shows "getTimezoneOffsetMs utc_zone u = - (u mod 1000)"
proof -
  obtain y m d where date: "civil_from_days (u div day_ms) = (y, m, d)" by (metis prod_cases3)
  let ?s = "u mod day_ms div 1000"
  have "0 \<le> u div day_ms" using assms by simp
  note utc = Date_UTC_civil [OF date this, of 0 "?s div 3600" "?s mod 3600 div 60" "?s mod 60"]
  have clock: "3600 * (?s div 3600) + 60 * (?s mod 3600 div 60) + ?s mod 60 = ?s" by (rule nested_div_mod) simp
  have ms: "day_ms * (u div day_ms) + 1000 * ?s + u mod 1000 = u" by (rule nested_div_mod) simp
  have offset: "getTimezoneOffsetMs utc_zone u = Date_UTC y (m - 1) (d + 0) (?s div 3600) (?s mod 3600 div 60) (?s mod 60) - u"
    by (simp only: getTimezoneOffsetMs_def utc_parts [OF date] Let_def zoned_parts.simps add_0_right)
  have "off = - r" if "off = x - u" "x = 1000 * (86400 * (z + 0) + 3600 * h + 60 * mi + sec)" "3600 * h + 60 * mi + sec = s"
      "day_ms * z + 1000 * s + r = u" for off x z h mi sec s r u :: int
    using that by simp
  from this [OF offset utc clock ms] show ?thesis .
qed

lemma utc_midnight:
  assumes "0 \<le> z"
  shows "zonedDateTimeToUtc utc_zone (civil_from_days z) = z * day_ms"
proof -
  obtain y m d where date: "civil_from_days z = (y, m, d)" by (metis prod_cases3)
  have "Date_UTC y (m - 1) d 0 0 0 = z * day_ms" using Date_UTC_civil [OF date assms, of 0 0 0 0] by simp
  with date assms show ?thesis by (simp add: zonedDateTimeToUtc_def utc_offset Let_def)
qed

lemma utc_addLocalDays:
  assumes "0 \<le> u"
  shows "addLocalDays (getZonedParts utc_zone u) k = civil_from_days (u div day_ms + k)"
proof -
  have "0 \<le> u div day_ms" using assms by simp
  from Date_UTC_civil [OF utc_date [symmetric] this, of k 0 0 0] show ?thesis by (simp add: addLocalDays_def)
qed

lemma utc_startOfLocalDay: "0 \<le> u \<Longrightarrow> startOfLocalDay utc_zone u = u div day_ms * day_ms"
  unfolding startOfLocalDay_def Let_def utc_date by (rule utc_midnight) simp

text \<open>The daily buckets: one for each of the last days, the last one cut at \<open>now\<close>.\<close>

definition utc_bucket :: "(int \<Rightarrow> earnings_range \<Rightarrow> string) \<Rightarrow> earnings_range \<Rightarrow> int \<Rightarrow> int \<Rightarrow> bucket" where
  "utc_bucket label rangeId now z =
     \<lparr>bk_endAt = min ((z + 1) * day_ms) now, bk_isCurrent = (z = now div day_ms), bk_label = label (z * day_ms) rangeId,
      bk_startAt = z * day_ms\<rparr>"

lemma utc_daily:
  assumes "rangeId = Range_7D \<and> n = 7 \<or> rangeId = Range_30D \<and> n = 30" and "30 * day_ms \<le> now"
  shows "createEarningsBuckets utc_zone label firstAt now rangeId =
    map (\<lambda>i. utc_bucket label rangeId now (now div day_ms - int i)) (rev [0..<n])"
proof -
  let ?D = "now div day_ms"
  have D: "30 \<le> ?D" using assms(2) by simp
  have "addLocalDays (getZonedParts utc_zone (startOfLocalDay utc_zone now)) k = civil_from_days (?D + k)" for k
    using assms(2) utc_addLocalDays [of "?D * day_ms" k] D by (simp add: utc_startOfLocalDay)
  then have starts: "bucket_starts utc_zone firstAt now rangeId = map (\<lambda>i. (?D - int i) * day_ms) (rev [0..<n])"
    using assms(1) D by (auto simp: bucket_starts_def Let_def utc_midnight)
  have "bucket_from utc_zone label now rangeId (z * day_ms) = utc_bucket label rangeId now z" if "0 \<le> z" for z
  proof -
    have "zonedDateTimeToUtc utc_zone (addLocalDays (getZonedParts utc_zone (z * day_ms)) 1) = (z + 1) * day_ms"
      using that by (simp add: utc_addLocalDays utc_midnight)
    moreover have "(z * day_ms \<le> now \<and> now < (z + 1) * day_ms) = (z = ?D)"
      using mult_div_mod_eq [of day_ms now] pos_mod_bound [of day_ms now] pos_mod_sign [of day_ms now] by auto
    ultimately show ?thesis using assms(1) by (auto simp: bucket_from_def utc_bucket_def Let_def)
  qed
  note bucket = this
  have "0 \<le> ?D - int i" if "i \<in> set (rev [0..<n])" for i using that assms(1) D by auto
  then show ?thesis unfolding createEarningsBuckets_def starts map_map by (intro map_cong refl) (simp only: o_def bucket)
qed

lemma utc_chart_continues:
  assumes "rangeId = Range_7D \<or> rangeId = Range_30D" and "30 * day_ms \<le> c" "c \<le> now"
  shows "chart_continues (createEarningsBuckets utc_zone label firstAt c rangeId) c
    (createEarningsBuckets utc_zone label firstAt' now rangeId)"
proof -
  obtain n :: nat where n: "rangeId = Range_7D \<and> n = 7 \<or> rangeId = Range_30D \<and> n = 30" using assms(1) by blast
  let ?C = "c div day_ms" and ?N = "now div day_ms"
  have days: "?C * day_ms \<le> c" "c < (?C + 1) * day_ms" "?N * day_ms \<le> now" "?C \<le> ?N"
    using zdiv_mono1 [OF assms(3), of day_ms] mult_div_mod_eq [of day_ms c] mult_div_mod_eq [of day_ms now]
      pos_mod_bound [of day_ms c] pos_mod_sign [of day_ms c] pos_mod_sign [of day_ms now] by simp_all
  have match: "\<exists>j < n. ?N - int i = ?C - int j" if "i < n" "(?N - int i) * day_ms \<le> c" for i
  proof -
    have "?N - int i \<le> ?C" using that(2) days(2) by simp
    with that(1) days(4) show ?thesis by (intro exI [of _ "nat (?C - (?N - int i))"]) auto
  qed
  let ?b = "utc_bucket label rangeId"
  have "bk_startAt (?b now z) \<le> bk_endAt (?b now z) \<and>
      (bk_startAt (?b now z) \<le> c \<longrightarrow> (\<exists>b' \<in> set (map (\<lambda>i. ?b c (?C - int i)) (rev [0..<n])).
        bk_startAt b' = bk_startAt (?b now z) \<and> bk_endAt b' = min (bk_endAt (?b now z)) c))"
    if i: "i < n" and z: "z = ?N - int i" for i z
  proof (intro conjI impI)
    show "bk_startAt (?b now z) \<le> bk_endAt (?b now z)" using days(3) z by (simp add: utc_bucket_def)
    assume "bk_startAt (?b now z) \<le> c"
    then obtain j where j: "j < n" "z = ?C - int j" using match [OF i] z by (auto simp: utc_bucket_def)
    show "\<exists>b' \<in> set (map (\<lambda>i. ?b c (?C - int i)) (rev [0..<n])).
        bk_startAt b' = bk_startAt (?b now z) \<and> bk_endAt b' = min (bk_endAt (?b now z)) c"
      by (rule bexI [of _ "?b c z"]) (use j assms(3) in \<open>auto simp: utc_bucket_def\<close>)
  qed
  moreover have "distinct (map bk_startAt (map (\<lambda>i. ?b c (?C - int i)) (rev [0..<n])))"
    by (simp add: utc_bucket_def distinct_map inj_on_def)
  ultimately show ?thesis
    unfolding chart_continues_def utc_daily [OF n assms(2)] utc_daily [OF n order_trans [OF assms(2,3)]] by auto
qed

section \<open>Properties\<close>


definition example_args :: "(int \<times> earnings_response) option \<Rightarrow> earnings_args" where
  "example_args checkpoint =
     \<lparr>ea_apySamples = [\<lparr>as_observedAt = 0, as_reserve = None, as_supplyApy = 1 / 20\<rparr>],
      ea_events = [example_position_event Deposit_event 4 1000000000], ea_now = 100 * day_ms + 7200000,
      ea_pathEvents = None, ea_portfolioSnapshots = None, ea_principalClamp = None, ea_range = Range_7D,
      ea_zone = utc_zone, ea_label = (\<lambda>u rangeId. []), ea_checkpoint = checkpoint\<rparr>"


text \<open>
  C33.  In UTC the daily chart is exact: the seven- and thirty-day charts hold one bucket for each of the
  last days, oldest first; a bucket starts at midnight and ends at the next midnight, the last one at
  \<open>now\<close>, and only the last is current.
\<close>

theorem utc_daily_buckets:
  assumes "rangeId = Range_7D \<and> n = 7 \<or> rangeId = Range_30D \<and> n = 30" and "30 * day_ms \<le> now"
  shows "createEarningsBuckets utc_zone label firstAt now rangeId =
    map (\<lambda>i. utc_bucket label rangeId now (now div day_ms - int i)) (rev [0..<n])"
  by (rule utc_daily [OF assms])

theorem utc_daily_buckets_witness:
  "map bk_startAt (createEarningsBuckets utc_zone (\<lambda>u rangeId. []) None (20000 * day_ms + 5) Range_7D) =
     map ((*) day_ms) [19994, 19995, 19996, 19997, 19998, 19999, 20000]"
  by (subst utc_daily_buckets [where n = 7]) (simp_all add: utc_bucket_def upt_rec)

end
