(* ===== verification/Spec2Isabelle.thy ===== *)
theory Spec2Isabelle
  imports Sdk_Plans Session_Reconnect Resource_Coordinator Cross_Mint_Index Client_Cache Mutation_Registry Refresh_Order Rpc_Client
    Earnings_Calendar
begin

text \<open>
  A verification development for the client side of the yield-routing repository: the policy SDK that
  bounds what the routing service may do with a smart account, the realtime layer that keeps the web
  application current, the limiter in front of the Solana RPC endpoints, and the calculation of
  earnings.  All modelled sources are TypeScript, under \<open>src/web\<close>; paths below are relative to it.

  \<^bold>\<open>The parts and how they interact\<close>

  \<^item> \<^bold>\<open>Policy SDK\<close> (\<open>packages/loyal-actions/src\<close>).  A caller asks for a plan (\<open>sdk.ts\<close>); the plan's constraints come from
    the protocol builders (\<open>internal/protocols.ts\<close>) over the registries (\<open>constants.ts\<close>, \<open>cluster.ts\<close>), are compiled
    against a key table and written by \<open>internal/squads.ts\<close> through the byte encoder \<open>internal/bytes.ts\<close>;
    \<open>subscriptions.ts\<close> writes the recurring delegations that a sweep policy allows.
  \<^item> \<^bold>\<open>Realtime session\<close> (\<open>apps/web/src/features/earn-realtime\<close>).  The hook \<open>use-earn-realtime.ts\<close> runs the connection
    loop of \<open>lifecycle.ts\<close>: it asks for a token and consumes the event stream (\<open>stream.ts\<close>) from the cursor of
    \<open>cursor-storage.ts\<close>; each event (\<open>types.ts\<close>) enters the batcher (\<open>batch.ts\<close>), whose accepted batches move the
    cursor.  A batch yields a refresh plan (\<open>invalidation.ts\<close>) and settles mutations that wait for their
    events (\<open>mutation-reconciliation.ts\<close>); \<open>fallback.ts\<close> polls the progress of a sweep.
  \<^item> \<^bold>\<open>Reads\<close>.  \<open>features/realtime-sync/resource-refresh-coordinator.ts\<close> runs the reads of invalidated resources,
    \<open>features/smart-accounts/refresh-plan.ts\<close> orders them and joins equal ones, and \<open>lib/solana/rpc-rate-limit.ts\<close>
    queues, retries and caches their RPC requests.
  \<^item> \<^bold>\<open>Derived values\<close>.  \<open>lib/yield-optimization/earnings-calculator.server.ts\<close> computes the earnings chart and
    \<open>packages/shared/src/earn-autodeposit-loaded-state.ts\<close> what is shown of an autodeposit;
    \<open>packages/smart-account-vaults/src/spending-limits.ts\<close> computes what is left of a spending limit, and
    \<open>lib/yield-optimization/earn-cross-mint-policy-index.shared.ts\<close> whether the pair of cross-mint policies exists.
    \<open>lib/client-cache/client-cache.ts\<close> keeps loaded values across a reopening of the page.

  \<^bold>\<open>The theories\<close>

  \<^item> \<open>Prelude\<close>, \<open>Js_Values\<close>: throwing computations, JavaScript maps, sets, numbers, strings and JSON values.
  \<^item> \<open>Bytes\<close>: the encoder, readers for it, and the locale \<open>codec\<close> (an encoder and a reader that inverts it) with
    its extensions to vectors and options.  \<open>Squads_Policy\<close>: the constraint types, the key table and both encodings of
    policy creation.  \<open>Squads_Codec\<close>: every encoder is an interpretation of \<open>codec\<close>.  \<open>Squads_Compile\<close>: the bytes of
    a creation instruction decode to the requested policy, in both encodings, and the overflow of the
    key table is the only error of a well-formed policy.
  \<^item> \<open>Sdk_Types\<close>, \<open>Sdk_Constants\<close>, \<open>Subscriptions\<close>, \<open>Protocols\<close>, \<open>Sdk\<close>: the types, registries, delegation data,
    constraint builders and plans.  \<open>Policy_Meaning\<close>: which calls a policy permits.  \<open>Sdk_Plans\<close>: plans of
    validated inputs exist, create the planned policy, and permit only calls within the requested limits.
  \<^item> \<open>Realtime_Types\<close>: messages, refresh plans, merging of progress.  \<open>Sse_Stream\<close>: the result does not depend on
    how the text is cut into chunks, and delivery is increasing.  \<open>Cursor_Store\<close>: the cursor over failing storage, and
    the locale \<open>resume_store\<close>, the contract the session relies on.  \<open>Batcher\<close>: an acknowledgement covers only
    accepted events, and pending events are never stranded.
  \<^item> \<open>Realtime_Session\<close>: the state of a session and one operation per awaited thing.  \<open>Session_Delivery\<close>: the histories
    of a session together with the log of the server, and the invariant that no event is lost.
    \<open>Session_Reconnect\<close>: an example, and the run after which a session accepts no batch any more.
  \<^item> \<open>Mutation_Registry\<close>: what a registered mutation still waits for, in every history.  \<open>Refresh_Order\<close>: the locale
    \<open>freshness\<close> and its three interpretations, and the trailing read of a joined flight.
    \<open>Resource_Coordinator\<close>: an invalidated resource is read again.
  \<^item> \<open>Rpc_Queue\<close>, \<open>Rpc_Client\<close>: the bound on dispatches per window, single probes, no stalled queue, exact retries
    and a sound cache.
  \<^item> \<open>Earnings_Index\<close>: order of events, lookups, running principal.  \<open>Earnings\<close>: windows, with the locale \<open>accrual\<close>
    of a step rate, buckets and the response.  \<open>Earnings_Resume\<close>: continuing from a checkpoint.
    \<open>Earnings_Calendar\<close>: the calendar in UTC.
  \<^item> \<open>Autodeposit_State\<close>: guards, labels and the sweeps that are shown.  \<open>Spending_Limits\<close>: a limit is
    reset once per full period, and printed amounts are exact.  \<open>Cross_Mint_Index\<close>: which rows make a
    complete pair of policies.  \<open>Client_Cache\<close>: a read returns what was written, within its scope and lifetime.

  \<^bold>\<open>Conventions\<close>

  State is passed explicitly: a class or closure is a record and each method a function on it.  An
  asynchronous method is cut at its \<open>await\<close>s into operations that other operations may come between; a
  history is an inductive predicate over all such interleavings, with what has been observed so far as
  further arguments.  A thrown error is the left value of a sum.  Unbounded recursion in the sources is
  structural or has a measure here, so no fuel is used.

  Idealisations: \<open>BigInt\<close> is \<open>int\<close>.  A \<open>Number\<close> is a rational or not finite, so floating-point rounding
  is not modelled; event ids and raw amounts are compared as integers in the sources too.  Strings are
  lists of characters up to 255.  What the sources take from outside is a parameter: key derivation
  and printing (\<open>web3\<close>, with \<open>well_formed_keys\<close> as its hypothesis), reading and writing JSON, date parsing and
  printing, time zones, random numbers, HTTP responses, and storage that may throw at every access.

  \<^bold>\<open>Not modelled\<close>

  React rendering, console output and telemetry; the token endpoint; repositories over SQL, request
  handlers and confirmation routes of \<open>lib/yield-optimization\<close>, which are I/O around a database and RPC; the
  generated clients and transaction assembly of the smart-account packages; the other applications;
  the Go workers, the Rust crates and on-chain programs, which are separate implementations in other
  languages; scripts, migrations and deployment.  \<open>formatAutodepositUsdLabel\<close> only formats through \<open>Intl\<close>.
\<close>

section \<open>Properties that span components\<close>

text \<open>
  C2.  A realtime session loses no event.  At any point of any history of a session, with reconnects,
  token renewals, rejected batches, rejected reconciliations, resyncs and storage failures in any
  order, an event the server has published and the user does not see yet lies after every cursor a
  read of the cursor store can return, so the next connection redelivers it (or, without a cursor, is
  reconciled in full); and when the current connection is reconciled and has already delivered it,
  the batcher holds it.
\<close>

theorem session_loses_nothing:
  assumes "session_history getTime key s evs known pos base" "e \<in> set evs" "e \<notin> known"
  shows "(\<forall>a k. fst (cursor_get key a (ss_cursors s)) = Some k \<longrightarrow> parse_dec k < event_number e) \<and>
    (\<forall>c. ss_phase s = Streaming c \<and> cn_connected c \<and> \<not> cn_aborted c \<and>
         last (ss_admissions s) = Admission_ok \<and> event_number e < pos \<longrightarrow> e \<in> held (ss_batcher s))"
  using unseen_after_cursor [OF assms] unseen_delivered_held [OF assms] by blast

theorem session_loses_nothing_witness:
  "fst (cursor_get ''k'' working_storage (ss_cursors example_session)) = Some ''8'' \<and>
   parse_dec ''8'' < event_number (plain_event ''9'') \<and> plain_event ''9'' \<in> held (ss_batcher example_session)"
proof -
  have "plain_event ''9'' \<notin> {plain_event ''8''}" by (simp add: plain_event_def)
  note * = session_loses_nothing [OF example_session_history _ this, simplified]
  have cursor: "fst (cursor_get ''k'' working_storage (ss_cursors example_session)) = Some ''8''" by code_simp
  have "\<exists>c. ss_phase example_session = Streaming c \<and> cn_connected c \<and> \<not> cn_aborted c"
    "last (ss_admissions example_session) = Admission_ok" "event_number (plain_event ''9'') < 10"
  proof -
    have "case ss_phase example_session of Streaming c \<Rightarrow> cn_connected c \<and> \<not> cn_aborted c | _ \<Rightarrow> False" by code_simp
    then show "\<exists>c. ss_phase example_session = Streaming c \<and> cn_connected c \<and> \<not> cn_aborted c"
      by (auto split: lifecycle_phase.splits)
  qed code_simp+
  with * cursor show ?thesis by blast
qed

end
